(* ===== verification/Prelude.thy ===== *)
theory Prelude
  imports Main "HOL-Library.Word" "HOL-Library.AList"
begin

text \<open>
  Shared vocabulary of the development: the machine integer types of the Rust
  sources, big-endian byte strings (\<open>to_be_bytes\<close>, \<open>from_be_bytes\<close>), the
  checked and saturating integer operations of the standard library, slices of
  byte buffers, and the generic lemmas the components share.

  The release profiles of both crates set \<open>overflow-checks = false\<close>, so plain
  \<open>+\<close>, \<open>-\<close> and \<open>*\<close> on sized integers are word operations that wrap. A
  \<open>usize\<close> that only counts bytes or elements held in memory is a \<^typ>\<open>nat\<close>; one
  that can wrap (an atomic cursor) is a word.
\<close>

section \<open>Types\<close>

type_synonym u8 = "8 word"
type_synonym u16 = "16 word"
type_synonym u32 = "32 word"
type_synonym u64 = "64 word"
type_synonym bytes = "8 word list"

named_theorems codec_simps \<open>layout facts of the byte codecs\<close>
named_theorems inv_defs \<open>invariants of the components\<close>

section \<open>Big-endian byte strings\<close>

fun nat_be :: "nat \<Rightarrow> nat \<Rightarrow> bytes" where
  "nat_be 0 n = []"
| "nat_be (Suc k) n = nat_be k (n div 256) @ [word_of_nat n]"

definition be_nat :: "bytes \<Rightarrow> nat" where
  "be_nat bs = foldl (\<lambda>a b. a * 256 + unat b) 0 bs"

definition to_be :: "'a::len word \<Rightarrow> bytes" where
  "to_be w = nat_be (LENGTH('a) div 8) (unat w)"

definition from_be :: "bytes \<Rightarrow> 'a::len word" where
  "from_be bs = word_of_nat (be_nat bs)"

section \<open>Integer operations of the standard library\<close>

definition checked_add :: "'a::len word \<Rightarrow> 'a word \<Rightarrow> 'a word option" where
  "checked_add a b = (if unat a + unat b < 2 ^ LENGTH('a) then Some (a + b) else None)"

definition saturating_add :: "'a::len word \<Rightarrow> 'a word \<Rightarrow> 'a word" where
  "saturating_add a b = (if unat a + unat b < 2 ^ LENGTH('a) then a + b else - 1)"

definition saturating_sub :: "'a::len word \<Rightarrow> 'a word \<Rightarrow> 'a word" where
  "saturating_sub a b = (if b \<le> a then a - b else 0)"

section \<open>Slices\<close>

text \<open>\<open>buf.get(a..b)\<close>: the bytes from \<open>a\<close> up to \<open>b\<close>, or nothing when the
  range does not lie in the buffer.\<close>

definition get_range :: "'a list \<Rightarrow> nat \<Rightarrow> nat \<Rightarrow> 'a list option" where
  "get_range xs a b = (if a \<le> b \<and> b \<le> length xs then Some (take (b - a) (drop a xs)) else None)"

definition get_at :: "'a list \<Rightarrow> nat \<Rightarrow> 'a option" where
  "get_at xs i = (if i < length xs then Some (xs ! i) else None)"

text \<open>The fixed-width fields read out of a packet.\<close>

definition be16 :: "bytes \<Rightarrow> nat \<Rightarrow> u16" where
  "be16 bs i = from_be (take 2 (drop i bs))"

definition be32 :: "bytes \<Rightarrow> nat \<Rightarrow> u32" where
  "be32 bs i = from_be (take 4 (drop i bs))"

text \<open>Byte-string literals \<open>b"..."\<close> and \<open>starts_with\<close>.\<close>

definition ascii :: "string \<Rightarrow> bytes" where
  "ascii s = map of_char s"

definition starts_with :: "'a list \<Rightarrow> 'a list \<Rightarrow> bool" where
  "starts_with xs p \<longleftrightarrow> take (length p) xs = p"

section \<open>Lemmas on byte strings\<close>

lemma unat_lt2p: "unat (w :: 'a::len word) < 2 ^ LENGTH('a)"
  by (fact unsigned_less)

lemma length_nat_be [simp]: "length (nat_be k n) = k"
  by (induction k arbitrary: n) auto

lemma be_nat_Nil [simp]: "be_nat [] = 0"
  by (simp add: be_nat_def)

lemma be_nat_snoc [simp]: "be_nat (bs @ [b]) = be_nat bs * 256 + unat b"
  by (simp add: be_nat_def)

lemma be_nat_bound: "be_nat bs < 256 ^ length bs"
proof (induction bs rule: rev_induct)
  case Nil
  then show ?case by simp
next
  case (snoc b bs)
  have "unat b < 256" using unat_lt2p [of b] by simp
  then have "be_nat bs * 256 + unat b < (be_nat bs + 1) * 256" by simp
  also have "\<dots> \<le> 256 ^ length bs * 256" using snoc by (intro mult_right_mono) auto
  finally show ?case by (simp add: mult.commute)
qed

lemma unat_word_of_nat_8: "unat (word_of_nat n :: u8) = n mod 256"
  by (simp add: unat_of_nat)

lemma be_nat_nat_be [simp]: "be_nat (nat_be k n) = n mod 256 ^ k"
proof (induction k arbitrary: n)
  case 0
  then show ?case by simp
next
  case (Suc k)
  have "n div 256 mod 256 ^ k * 256 + n mod 256 = n mod (256 * 256 ^ k)"
    using mod_mult2_eq [of n 256 "256 ^ k"] by (simp add: mult.commute)
  then show ?case using Suc by (simp add: unat_word_of_nat_8)
qed

lemma nat_be_be_nat: "nat_be (length bs) (be_nat bs) = bs"
proof (induction bs rule: rev_induct)
  case Nil
  then show ?case by simp
next
  case (snoc b bs)
  have "unat b < 256" using unat_lt2p [of b] by simp
  then have "(be_nat bs * 256 + unat b) div 256 = be_nat bs" by simp
  moreover have "(word_of_nat (be_nat bs * 256 + unat b) :: u8) = b"
    using \<open>unat b < 256\<close>
    by (intro word_unat_eq_iff [THEN iffD2]) (simp only: unat_word_of_nat_8, simp)
  ultimately show ?case using snoc by simp
qed

lemma from_be_to_be:
  assumes "LENGTH('a) = 8 * k"
  shows "from_be (to_be (w :: 'a::len word)) = w"
proof -
  have "unat w < 256 ^ (LENGTH('a) div 8)"
    using unat_lt2p [of w] assms by (simp add: power_mult)
  then show ?thesis by (simp add: from_be_def to_be_def)
qed

lemma from_be_to_be_16 [simp]: "from_be (to_be (w :: u16)) = w"
  by (rule from_be_to_be [of 2]) simp

lemma from_be_to_be_32 [simp]: "from_be (to_be (w :: u32)) = w"
  by (rule from_be_to_be [of 4]) simp

lemma from_be_to_be_64 [simp]: "from_be (to_be (w :: u64)) = w"
  by (rule from_be_to_be [of 8]) simp

lemma to_be_16: "to_be (w :: u16) = [word_of_nat (unat w div 256), word_of_nat (unat w)]"
proof -
  have "LENGTH(16) div 8 = Suc (Suc 0)" by simp
  then show ?thesis by (simp only: to_be_def nat_be.simps append_Nil append_Cons)
qed

lemma length_to_be_16 [simp]: "length (to_be (w :: u16)) = 2"
  by (simp add: to_be_def)

lemma length_to_be_32 [simp]: "length (to_be (w :: u32)) = 4"
  by (simp add: to_be_def)

lemma length_to_be_64 [simp]: "length (to_be (w :: u64)) = 8"
  by (simp add: to_be_def)

lemma to_be_from_be:
  assumes "LENGTH('a) = 8 * length bs"
  shows "to_be (from_be bs :: 'a::len word) = bs"
proof -
  have "be_nat bs < 2 ^ LENGTH('a)"
    using be_nat_bound [of bs] assms by (simp add: power_mult)
  then have "unat (from_be bs :: 'a word) = be_nat bs"
    by (simp add: from_be_def unat_of_nat)
  then show ?thesis using assms nat_be_be_nat [of bs] by (simp add: to_be_def)
qed

section \<open>Lemmas on slices\<close>

lemma get_range_Some:
  "get_range xs a b = Some ys \<longleftrightarrow> a \<le> b \<and> b \<le> length xs \<and> ys = take (b - a) (drop a xs)"
  by (auto simp: get_range_def)

lemma get_range_None: "get_range xs a b = None \<longleftrightarrow> \<not> (a \<le> b \<and> b \<le> length xs)"
  by (auto simp: get_range_def)

lemma length_get_range: "get_range xs a b = Some ys \<Longrightarrow> length ys = b - a"
  by (auto simp: get_range_def split: if_splits)

lemma get_range_append [simp]:
  "n = length xs \<Longrightarrow> get_range (xs @ ys) 0 n = Some xs"
  by (simp add: get_range_def)

lemma slice_append:
  assumes "a \<le> b" "b \<le> c"
  shows "take (b - a) (drop a S) @ take (c - b) (drop b S) = take (c - a) (drop a S)"
proof -
  have "c - a = (b - a) + (c - b)" using assms by simp
  then show ?thesis using assms(1) by (simp only: take_add) simp
qed

lemma get_at_Some: "get_at xs i = Some x \<longleftrightarrow> i < length xs \<and> xs ! i = x"
  by (auto simp: get_at_def)

lemma starts_with_append [simp]: "starts_with (p @ xs) p"
  by (simp add: starts_with_def)

lemma starts_with_iff: "starts_with xs p \<longleftrightarrow> (\<exists>ys. xs = p @ ys)"
  by (metis append_eq_conv_conj append_take_drop_id starts_with_def)

lemma length_ascii [simp]: "length (ascii s) = length s"
  by (simp add: ascii_def)

section \<open>Lemmas on association lists\<close>

lemma length_delete_less:
  "map_of al k = Some v \<Longrightarrow> length (AList.delete k al) < length al"
  by (induction al) (auto simp: le_imp_less_Suc AList.delete_eq split: if_splits)

section \<open>Interface of a byte codec\<close>

text \<open>An encoder and a decoder of messages. \<open>byte_codec\<close> promises that what is
  encoded is read back; \<open>canonical_codec\<close> also that nothing else is accepted, so
  that a byte string is a message exactly when it is an encoding.\<close>

locale byte_codec =
  fixes enc :: "'a \<Rightarrow> bytes" and dec :: "bytes \<Rightarrow> 'a option" and ok :: "'a \<Rightarrow> bool"
  assumes dec_enc: "ok x \<Longrightarrow> dec (enc x) = Some x"
begin

lemma enc_inj: "ok x \<Longrightarrow> ok y \<Longrightarrow> enc x = enc y \<Longrightarrow> x = y"
  by (metis dec_enc option.inject)

end

locale canonical_codec = byte_codec +
  assumes enc_dec: "dec bs = Some x \<Longrightarrow> ok x \<and> enc x = bs"
begin

lemma dec_iff: "dec bs = Some x \<longleftrightarrow> ok x \<and> bs = enc x"
  by (metis dec_enc enc_dec)

lemma rejected_iff: "dec bs = None \<longleftrightarrow> (\<forall>x. ok x \<longrightarrow> bs \<noteq> enc x)"
  by (metis dec_iff not_None_eq)

end

end
