(* ===== verification/Proxy_Sequence.thy ===== *)
theory Proxy_Sequence
  imports Prelude
begin

text \<open>
  The byte-stream numbering of the proxied TCP streams
  (\<open>src/shared/proxy_sequence.rs\<close>): the strict cursor \<open>StreamSequence\<close> used by
  the writers and the loss and reorder tolerant \<open>ReorderReceiver\<close> used by the
  receivers.
\<close>

section \<open>Strict cursor\<close>

datatype sequence_error =
    MissingOffset
  | GapOrReorder u64 u64
  | OffsetOverflow
  | WindowOverflow

record stream_sequence =
  ss_offset :: u64

definition encode_at :: "u64 \<Rightarrow> bytes \<Rightarrow> bytes" where
  "encode_at offset bs = to_be offset @ bs"

definition advance :: "stream_sequence \<Rightarrow> nat \<Rightarrow> sequence_error + stream_sequence" where
  "advance s len =
     (case checked_add (ss_offset s) (word_of_nat len) of
        None \<Rightarrow> Inl OffsetOverflow
      | Some v \<Rightarrow> Inr (s\<lparr>ss_offset := v\<rparr>))"

definition ss_encode :: "stream_sequence \<Rightarrow> bytes \<Rightarrow> sequence_error + (bytes \<times> stream_sequence)" where
  "ss_encode s bs =
     (let result = encode_at (ss_offset s) bs
      in case advance s (length bs) of
           Inl e \<Rightarrow> Inl e
         | Inr s' \<Rightarrow> Inr (result, s'))"


definition ss_decode :: "stream_sequence \<Rightarrow> bytes \<Rightarrow> sequence_error + (bytes \<times> stream_sequence)" where
  "ss_decode s payload =
     (case get_range payload 0 8 of
        None \<Rightarrow> Inl MissingOffset
      | Some header \<Rightarrow>
          let offset = (from_be header :: u64)
          in if offset < ss_offset s then Inr ([], s)
             else if offset > ss_offset s then Inl (GapOrReorder (ss_offset s) offset)
             else let bs = drop 8 payload
                  in case advance s (length bs) of
                       Inl e \<Rightarrow> Inl e
                     | Inr s' \<Rightarrow> Inr (bs, s'))"

section \<open>Reordering receiver\<close>

text \<open>The \<open>BTreeMap\<close> of parked chunks is an association list with distinct keys;
  the code never iterates over it.\<close>

definition MAX_BUFFERED :: nat where
  "MAX_BUFFERED = 128 * 1024"

record reorder_receiver =
  expected :: u64
  pending :: "(u64 \<times> bytes) list"
  buffered_bytes :: nat

definition reorder_new :: reorder_receiver where
  "reorder_new = \<lparr>expected = 0, pending = [], buffered_bytes = 0\<rparr>"

function flush_pending :: "reorder_receiver \<Rightarrow> bytes \<Rightarrow> reorder_receiver \<times> bytes" where
  "flush_pending r acc =
     (case map_of (pending r) (expected r) of
        None \<Rightarrow> (r, acc)
      | Some nxt \<Rightarrow>
          flush_pending
            (r\<lparr>expected := expected r + word_of_nat (length nxt),
               pending := AList.delete (expected r) (pending r),
               buffered_bytes := buffered_bytes r - length nxt\<rparr>)
            (acc @ nxt))"
  by pat_completeness auto
termination
  by (relation "measure (\<lambda>(r, _). length (pending r))") (auto simp: length_delete_less)

definition push :: "reorder_receiver \<Rightarrow> bytes \<Rightarrow> reorder_receiver \<times> (sequence_error + bytes option)" where
  "push r payload =
     (case get_range payload 0 8 of
        None \<Rightarrow> (r, Inl MissingOffset)
      | Some header \<Rightarrow>
          let offset = (from_be header :: u64)
          in if offset < expected r then (r, Inr None)
             else let chunk = drop 8 payload
                  in if offset = expected r then
                       (case flush_pending (r\<lparr>expected := expected r + word_of_nat (length chunk)\<rparr>) chunk of
                          (r', acc) \<Rightarrow> (r', Inr (Some acc)))
                     else if map_of (pending r) offset \<noteq> None then (r, Inr None)
                     else let r' = r\<lparr>buffered_bytes := buffered_bytes r + length chunk\<rparr>
                          in if buffered_bytes r' > MAX_BUFFERED then (r', Inl WindowOverflow)
                             else (r'\<lparr>pending := (offset, chunk) # pending r\<rparr>, Inr None))"

definition is_waiting :: "reorder_receiver \<Rightarrow> bool" where
  "is_waiting r = (pending r \<noteq> [])"

definition missing_offset :: "reorder_receiver \<Rightarrow> u64 option" where
  "missing_offset r = (if is_waiting r then Some (expected r) else None)"

text \<open>A run of the receiver over the payloads of one stream. The callers stop
  at the first error.\<close>

fun receive :: "reorder_receiver \<Rightarrow> bytes list \<Rightarrow> sequence_error + (reorder_receiver \<times> bytes)" where
  "receive r [] = Inr (r, [])"
| "receive r (p # ps) =
     (case push r p of
        (_, Inl e) \<Rightarrow> Inl e
      | (r', Inr out) \<Rightarrow>
          (case receive r' ps of
             Inl e \<Rightarrow> Inl e
           | Inr (r'', outs) \<Rightarrow> Inr (r'', (case out of None \<Rightarrow> [] | Some bs \<Rightarrow> bs) @ outs)))"

section \<open>Specification vocabulary\<close>

text \<open>A payload carries a piece of the stream \<open>S\<close> when its body is the part of
  \<open>S\<close> at its offset.\<close>

definition piece_of :: "bytes \<Rightarrow> bytes \<Rightarrow> bool" where
  "piece_of S p \<longleftrightarrow>
     (\<exists>i n. p = encode_at (word_of_nat i) (take n (drop i S)) \<and> i + n \<le> length S)"

text \<open>The offset of the \<open>i\<close>-th chunk of a chunked stream and the payload that
  carries it.\<close>

definition chunk_offset :: "bytes list \<Rightarrow> nat \<Rightarrow> nat" where
  "chunk_offset cs i = length (concat (take i cs))"

definition chunk_payload :: "bytes list \<Rightarrow> nat \<Rightarrow> bytes" where
  "chunk_payload cs i = encode_at (word_of_nat (chunk_offset cs i)) (cs ! i)"

definition receiver_inv :: "reorder_receiver \<Rightarrow> bool" where
  [inv_defs]: "receiver_inv r \<longleftrightarrow>
     distinct (map fst (pending r)) \<and>
     buffered_bytes r = sum_list (map (length \<circ> snd) (pending r)) \<and>
     buffered_bytes r \<le> MAX_BUFFERED"

declare flush_pending.simps [simp del]

section \<open>Lemmas\<close>

lemma encode_at_header [simp]:
  "get_range (encode_at off bs) 0 8 = Some (to_be off)" "drop 8 (encode_at off bs) = bs"
  by (simp_all add: encode_at_def)

lemma push_encode_at:
  "push r (encode_at off bs) =
     (if off < expected r then (r, Inr None)
      else if off = expected r then
        map_prod id (Inr \<circ> Some) (flush_pending (r\<lparr>expected := expected r + word_of_nat (length bs)\<rparr>) bs)
      else if map_of (pending r) off \<noteq> None then (r, Inr None)
      else if buffered_bytes r + length bs > MAX_BUFFERED
        then (r\<lparr>buffered_bytes := buffered_bytes r + length bs\<rparr>, Inl WindowOverflow)
      else (r\<lparr>buffered_bytes := buffered_bytes r + length bs, pending := (off, bs) # pending r\<rparr>, Inr None))"
  by (auto simp: push_def Let_def split: prod.splits)

lemma flush_pending_none:
  "flush_pending r out = (r', out') \<Longrightarrow> map_of (pending r') (expected r') = None"
proof (induction r out rule: flush_pending.induct)
  case (1 r acc)
  then show ?case
    by (cases "map_of (pending r) (expected r)") (simp_all add: flush_pending.simps [of r])
qed

subsection \<open>Accounting\<close>

lemma sum_delete:
  assumes "distinct (map fst al)" "map_of al k = Some v"
  shows "sum_list (map (length \<circ> snd) al) = length v + sum_list (map (length \<circ> snd) (AList.delete k al))"
  using assms
proof (induction al)
  case (Cons a al)
  then show ?case
    by (cases "fst a = k") (auto simp: delete_id split: if_splits)
qed simp

lemma flush_pending_inv:
  "receiver_inv r \<Longrightarrow> receiver_inv (fst (flush_pending r out))"
proof (induction r out rule: flush_pending.induct)
  case (1 r acc)
  show ?case
  proof (cases "map_of (pending r) (expected r)")
    case None
    then show ?thesis using "1.prems" by (simp add: flush_pending.simps [of r])
  next
    case (Some nxt)
    have "receiver_inv (r\<lparr>expected := expected r + word_of_nat (length nxt),
               pending := AList.delete (expected r) (pending r),
               buffered_bytes := buffered_bytes r - length nxt\<rparr>)"
      using "1.prems" sum_delete [OF _ Some] by (simp add: receiver_inv_def distinct_delete)
    from "1.IH" [OF Some this] Some show ?thesis by (simp add: flush_pending.simps [of r])
  qed
qed

lemma payload_cases:
  obtains (short) "get_range p 0 8 = None" | (framed) off bs where "p = encode_at off bs"
proof (cases "length p < 8")
  case True
  then show ?thesis by (intro short) (simp add: get_range_None)
next
  case False
  then have "p = encode_at (from_be (take 8 p)) (drop 8 p)"
    by (simp add: encode_at_def to_be_from_be)
  then show ?thesis by (rule framed)
qed

lemma push_short: "get_range p 0 8 = None \<Longrightarrow> push r p = (r, Inl MissingOffset)"
  by (simp add: push_def)

lemma push_inv:
  assumes "receiver_inv r" "push r p = (r', Inr out)"
  shows "receiver_inv r'"
proof (cases p rule: payload_cases)
  case (framed off bs)
  have "receiver_inv (r\<lparr>expected := e\<rparr>)" for e
    using assms(1) by (simp add: receiver_inv_def)
  then have flush: "flush_pending (r\<lparr>expected := e\<rparr>) acc = (s, acc') \<Longrightarrow> receiver_inv s" for e acc s acc'
    using flush_pending_inv by (metis fst_conv)
  show ?thesis
  proof (cases "off = expected r")
    case True
    then show ?thesis using assms framed flush by (auto simp: push_encode_at map_prod_def split: prod.splits)
  next
    case False
    then show ?thesis using assms framed
      by (auto simp: push_encode_at receiver_inv_def map_of_eq_None_iff split: if_splits)
  qed
qed (use assms push_short in auto)

subsection \<open>Pieces of a stream\<close>

definition parked_pieces :: "bytes \<Rightarrow> reorder_receiver \<Rightarrow> bool" where
  [inv_defs]: "parked_pieces S r \<longleftrightarrow>
     unat (expected r) \<le> length S \<and>
     (\<forall>(k, v) \<in> set (pending r). unat k + length v \<le> length S \<and> v = take (length v) (drop (unat k) S))"

lemma unat_add_len:
  assumes "unat (k :: u64) + n \<le> m" "m < 2 ^ 64"
  shows "unat (k + word_of_nat n) = unat k + n"
proof -
  have "unat (word_of_nat n :: u64) = n" using assms by (simp add: unat_of_nat)
  then show ?thesis using assms by (simp add: unat_word_ariths)
qed

lemma parked_pieces_found:
  assumes "parked_pieces S r" "map_of (pending r) k = Some v"
  shows "unat k + length v \<le> length S" "v = take (length v) (drop (unat k) S)"
  using assms map_of_SomeD [OF assms(2)] by (auto simp: parked_pieces_def)

lemma flush_pending_pieces:
  assumes "length S < 2 ^ 64" "parked_pieces S r" "b \<le> unat (expected r)"
    and "acc = take (unat (expected r) - b) (drop b S)" "flush_pending r acc = (r', acc')"
  shows "parked_pieces S r' \<and> unat (expected r) \<le> unat (expected r') \<and>
         acc' = take (unat (expected r') - b) (drop b S)"
  using assms(2-)
proof (induction r acc rule: flush_pending.induct)
  case (1 r acc)
  show ?case
  proof (cases "map_of (pending r) (expected r)")
    case None
    then show ?thesis using "1.prems" by (auto simp: flush_pending.simps [of r])
  next
    case (Some v)
    note found = parked_pieces_found [OF "1.prems"(1) Some]
    let ?r = "r\<lparr>expected := expected r + word_of_nat (length v),
               pending := AList.delete (expected r) (pending r),
               buffered_bytes := buffered_bytes r - length v\<rparr>"
    have e: "unat (expected ?r) = unat (expected r) + length v"
      using found(1) assms(1) by (simp add: unat_add_len)
    have "parked_pieces S ?r"
      using "1.prems"(1) found e by (auto simp: parked_pieces_def AList.delete_eq)
    moreover have "acc @ v = take (unat (expected ?r) - b) (drop b S)"
    proof -
      have "acc @ v = take (unat (expected r) - b) (drop b S) @
          take (unat (expected ?r) - unat (expected r)) (drop (unat (expected r)) S)"
        using "1.prems"(3) found(2) e by simp
      then show ?thesis using "1.prems"(2) e by (simp only: slice_append)
    qed
    moreover have "flush_pending ?r (acc @ v) = (r', acc')"
      using "1.prems"(4) Some by (simp add: flush_pending.simps [of r])
    moreover have "b \<le> unat (expected ?r)" "unat (expected r) \<le> unat (expected ?r)"
      using e "1.prems"(2) by simp_all
    ultimately show ?thesis using "1.IH" [OF Some, of] by simp
  qed
qed

lemma push_pieces:
  assumes S: "length S < 2 ^ 64" "piece_of S p" "parked_pieces S r" "push r p = (r', Inr out)"
  shows "parked_pieces S r' \<and> unat (expected r) \<le> unat (expected r') \<and>
         (case out of None \<Rightarrow> [] | Some bs \<Rightarrow> bs) =
           take (unat (expected r') - unat (expected r)) (drop (unat (expected r)) S)"
proof -
  from S(2) obtain i n where p: "p = encode_at (word_of_nat i) (take n (drop i S))" "i + n \<le> length S"
    by (auto simp: piece_of_def)
  let ?off = "word_of_nat i :: u64" and ?bs = "take n (drop i S)"
  have i: "unat ?off = i" and n: "length ?bs = n" using p(2) S(1) by (simp_all add: unat_of_nat)
  show ?thesis
  proof (cases "?off = expected r")
    case True
    let ?r = "r\<lparr>expected := expected r + word_of_nat n\<rparr>"
    have e: "unat (expected ?r) = unat (expected r) + n"
      using True i p(2) S(1) by (auto intro!: unat_add_len)
    have "parked_pieces S ?r" using S(3) e True i p(2) by (auto simp: parked_pieces_def)
    moreover have "?bs = take (unat (expected ?r) - unat (expected r)) (drop (unat (expected r)) S)"
      using e True i by auto
    moreover obtain acc where "flush_pending ?r ?bs = (r', acc)" "out = Some acc"
      using S(4) p True n by (auto simp: push_encode_at map_prod_def split: prod.splits)
    ultimately show ?thesis
      using flush_pending_pieces [OF S(1), of ?r "unat (expected r)" ?bs r' acc] e by simp
  next
    case False
    then show ?thesis using S(3,4) p i n
      by (auto simp: push_encode_at parked_pieces_def split: if_splits)
  qed
qed

lemma receive_pieces:
  assumes "length S < 2 ^ 64" "\<forall>p \<in> set ps. piece_of S p" "parked_pieces S r"
    and "receive r ps = Inr (r', outs)"
  shows "parked_pieces S r' \<and> unat (expected r) \<le> unat (expected r') \<and>
         outs = take (unat (expected r') - unat (expected r)) (drop (unat (expected r)) S)"
  using assms(2-)
proof (induction ps arbitrary: r outs)
  case Nil
  then show ?case by simp
next
  case (Cons p ps)
  from Cons.prems(3) obtain r1 out outs1 where step: "push r p = (r1, Inr out)"
      "receive r1 ps = Inr (r', outs1)" "outs = (case out of None \<Rightarrow> [] | Some bs \<Rightarrow> bs) @ outs1"
    by (auto split: prod.splits sum.splits)
  note a = push_pieces [OF assms(1) _ Cons.prems(2) step(1)]
  have p: "piece_of S p" using Cons.prems(1) by simp
  have b: "parked_pieces S r' \<and> unat (expected r1) \<le> unat (expected r') \<and>
        outs1 = take (unat (expected r') - unat (expected r1)) (drop (unat (expected r1)) S)"
    using Cons.IH [OF _ _ step(2)] Cons.prems(1) a [OF p] by simp
  show ?case using a [OF p] b step(3) by (simp add: slice_append)
qed

subsection \<open>Chunks of a stream\<close>

definition received :: "bytes list \<Rightarrow> nat set \<Rightarrow> nat \<Rightarrow> reorder_receiver \<Rightarrow> bool" where
  [inv_defs]: "received cs I j r \<longleftrightarrow>
     I \<subseteq> {..<length cs} \<and> j \<le> length cs \<and> {..<j} \<subseteq> I \<and>
     expected r = word_of_nat (chunk_offset cs j) \<and>
     distinct (map fst (pending r)) \<and>
     set (pending r) = (\<lambda>i. (word_of_nat (chunk_offset cs i), cs ! i)) ` {i \<in> I. j \<le> i} \<and>
     buffered_bytes r = (\<Sum>i \<in> {i \<in> I. j \<le> i}. length (cs ! i))"

lemma chunk_offset_0 [simp]: "chunk_offset cs 0 = 0"
  by (simp add: chunk_offset_def)

lemma chunk_offset_Suc: "i < length cs \<Longrightarrow> chunk_offset cs (Suc i) = chunk_offset cs i + length (cs ! i)"
  by (simp add: chunk_offset_def take_Suc_conv_app_nth)

lemma chunk_offset_mono: "i \<le> j \<Longrightarrow> chunk_offset cs i \<le> chunk_offset cs j"
proof (induction j)
  case (Suc j)
  have "chunk_offset cs j \<le> chunk_offset cs (Suc j)"
    by (cases "j < length cs") (simp add: chunk_offset_Suc, simp add: chunk_offset_def)
  then show ?case using Suc by (cases "i = Suc j") auto
qed simp

lemma chunk_offset_le: "chunk_offset cs i \<le> length (concat cs)"
proof -
  have "length (concat cs) = chunk_offset cs i + length (concat (drop i cs))"
    by (metis append_take_drop_id chunk_offset_def concat_append length_append)
  then show ?thesis by simp
qed

lemma chunk_offset_strict:
  assumes "[] \<notin> set cs" "i < j" "j \<le> length cs"
  shows "chunk_offset cs i < chunk_offset cs j"
proof -
  have "cs ! i \<noteq> []" using assms by (metis nth_mem order_less_le_trans)
  then have "chunk_offset cs i < chunk_offset cs (Suc i)" using assms by (simp add: chunk_offset_Suc)
  also have "\<dots> \<le> chunk_offset cs j" using assms by (intro chunk_offset_mono) simp
  finally show ?thesis .
qed

lemma unat_chunk_offset:
  "length (concat cs) < 2 ^ 64 \<Longrightarrow> unat (word_of_nat (chunk_offset cs i) :: u64) = chunk_offset cs i"
  using chunk_offset_le [of cs i] by (simp add: unat_of_nat)

lemma chunk_offset_word_less:
  assumes "[] \<notin> set cs" "length (concat cs) < 2 ^ 64" "i \<le> length cs" "j \<le> length cs"
  shows "(word_of_nat (chunk_offset cs i) :: u64) < word_of_nat (chunk_offset cs j) \<longleftrightarrow> i < j"
    and "(word_of_nat (chunk_offset cs i) :: u64) = word_of_nat (chunk_offset cs j) \<longleftrightarrow> i = j"
  using assms chunk_offset_strict [of cs i j] chunk_offset_strict [of cs j i]
  by (cases i j rule: linorder_cases; simp add: word_less_nat_alt word_unat_eq_iff unat_chunk_offset)+

lemma received_found:
  assumes "[] \<notin> set cs" "length (concat cs) < 2 ^ 64" "received cs I j r" "i \<le> length cs"
  shows "map_of (pending r) (word_of_nat (chunk_offset cs i)) = (if i \<in> I \<and> j \<le> i then Some (cs ! i) else None)"
proof (cases "i \<in> I \<and> j \<le> i")
  case True
  then have "(word_of_nat (chunk_offset cs i), cs ! i) \<in> set (pending r)"
    using assms(3) by (auto simp: received_def)
  then show ?thesis using True assms(3) by (simp add: received_def)
next
  case False
  have ne: "(word_of_nat (chunk_offset cs i) :: u64) \<noteq> word_of_nat (chunk_offset cs l)" if "l \<in> I" "j \<le> l" for l
    using False that assms chunk_offset_word_less(2) [of cs i l] by (auto simp: received_def)
  have "set (pending r) = (\<lambda>i. (word_of_nat (chunk_offset cs i), cs ! i)) ` {i \<in> I. j \<le> i}"
    using assms(3) by (simp add: received_def)
  then have "word_of_nat (chunk_offset cs i) \<notin> fst ` set (pending r)"
    by (auto simp: ne)
  then show ?thesis using False by (auto simp: map_of_eq_None_iff)
qed

lemma received_next:
  assumes "[] \<notin> set cs" "length (concat cs) < 2 ^ 64" "received cs I j r" "j \<in> I"
  shows "received cs I (Suc j) (r\<lparr>expected := expected r + word_of_nat (length (cs ! j)),
               pending := AList.delete (expected r) (pending r),
               buffered_bytes := buffered_bytes r - length (cs ! j)\<rparr>)"
proof -
  have split: "{i \<in> I. j \<le> i} = insert j {i \<in> I. Suc j \<le> i}" using assms(4) by auto
  have j: "j < length cs" and fin: "finite I"
    using assms(3,4) by (auto simp: received_def intro: finite_subset)
  have pend: "set (AList.delete (expected r) (pending r)) =
      (\<lambda>i. (word_of_nat (chunk_offset cs i), cs ! i)) ` {i \<in> I. Suc j \<le> i}"
  proof -
    have ne: "(word_of_nat (chunk_offset cs j) :: u64) = word_of_nat (chunk_offset cs i) \<longleftrightarrow> j = i"
      if "i \<in> I" for i
      using that assms j chunk_offset_word_less(2) [of cs j i] by (auto simp: received_def)
    have "set (AList.delete (expected r) (pending r)) =
        {x \<in> set (pending r). word_of_nat (chunk_offset cs j) \<noteq> fst x}"
      using assms(3) by (auto simp: received_def AList.delete_eq)
    also have "\<dots> = (\<lambda>i. (word_of_nat (chunk_offset cs i), cs ! i)) ` {i \<in> I. Suc j \<le> i}"
    proof -
      have "set (pending r) = (\<lambda>i. (word_of_nat (chunk_offset cs i), cs ! i)) ` {i \<in> I. j \<le> i}"
        using assms(3) by (simp add: received_def)
      then show ?thesis by (auto simp: ne not_less_eq_eq [symmetric])
    qed
    finally show ?thesis .
  qed
  have "expected r + word_of_nat (length (cs ! j)) = word_of_nat (chunk_offset cs (Suc j))"
    using assms(3) j by (simp add: received_def chunk_offset_Suc)
  then show ?thesis using assms(3,4) j pend split fin
    by (auto simp: received_def distinct_delete less_Suc_eq)
qed

lemma flush_pending_received:
  assumes "[] \<notin> set cs" "length (concat cs) < 2 ^ 64" "received cs I j r"
    and "flush_pending r acc = (r', acc')"
  shows "\<exists>j'. j' \<notin> I \<and> received cs I j' r' \<and> acc' = acc @ concat (take (j' - j) (drop j cs)) \<and> j \<le> j'"
  using assms(3,4)
proof (induction r acc arbitrary: j rule: flush_pending.induct)
  case (1 r acc)
  have found: "map_of (pending r) (expected r) = (if j \<in> I then Some (cs ! j) else None)"
    using received_found [OF assms(1,2) "1.prems"(1), of j] "1.prems"(1) by (auto simp: received_def)
  show ?case
  proof (cases "j \<in> I")
    case False
    then show ?thesis using found "1.prems" by (intro exI [of _ j]) (simp add: flush_pending.simps [of r])
  next
    case True
    let ?r = "r\<lparr>expected := expected r + word_of_nat (length (cs ! j)),
               pending := AList.delete (expected r) (pending r),
               buffered_bytes := buffered_bytes r - length (cs ! j)\<rparr>"
    have j: "j < length cs" using "1.prems"(1) True by (auto simp: received_def)
    have Some: "map_of (pending r) (expected r) = Some (cs ! j)" using found True by simp
    have "received cs I (Suc j) ?r" by (rule received_next) (use assms "1.prems" True in auto)
    moreover have "flush_pending ?r (acc @ cs ! j) = (r', acc')"
      using "1.prems"(2) Some by (simp add: flush_pending.simps [of r])
    ultimately obtain j' where j': "j' \<notin> I" "received cs I j' r'" "Suc j \<le> j'"
        "acc' = (acc @ cs ! j) @ concat (take (j' - Suc j) (drop (Suc j) cs))"
      using "1.IH" [OF Some] by blast
    have "take (j' - j) (drop j cs) = cs ! j # take (j' - Suc j) (drop (Suc j) cs)"
      using j j'(3) by (metis Cons_nth_drop_Suc Suc_diff_le diff_Suc_Suc take_Suc_Cons)
    then show ?thesis using j' by (intro exI [of _ j']) simp
  qed
qed

lemma received_new: "received cs {} 0 reorder_new"
  by (simp add: received_def reorder_new_def)

lemma push_received:
  assumes "[] \<notin> set cs" "length (concat cs) < 2 ^ 64" "received cs I j r" "j \<notin> I" "i < length cs"
  shows "case push r (chunk_payload cs i) of
           (_, Inl e) \<Rightarrow> e = WindowOverflow \<and> MAX_BUFFERED < (\<Sum>l \<in> insert i I. length (cs ! l))
         | (r', Inr out) \<Rightarrow> \<exists>j'. j \<le> j' \<and> j' \<notin> insert i I \<and> received cs (insert i I) j' r' \<and>
             (case out of None \<Rightarrow> [] | Some bs \<Rightarrow> bs) = concat (take (j' - j) (drop j cs))"
    (is "?ok (push r (chunk_payload cs i))")
proof -
  let ?off = "word_of_nat (chunk_offset cs i) :: u64"
  have jl: "j \<le> length cs" and I: "I \<subseteq> {..<length cs}" "{..<j} \<subseteq> I" and fin: "finite I"
    and e: "expected r = word_of_nat (chunk_offset cs j)"
    and b: "buffered_bytes r = (\<Sum>i \<in> {i \<in> I. j \<le> i}. length (cs ! i))"
    using assms(3) by (auto simp: received_def intro: finite_subset)
  note ord = chunk_offset_word_less [OF assms(1,2), of i j]
  note found = received_found [OF assms(1-3), of i]
  consider "i < j" | "i = j" | "j < i" "i \<in> I" | "j < i" "i \<notin> I" by linarith
  then show ?thesis
  proof cases
    case 1
    moreover have "insert i I = I" using 1 I by auto
    ultimately show ?thesis
      using assms ord jl e by (auto simp: chunk_payload_def push_encode_at intro: exI [of _ j])
  next
    case 2
    let ?r = "r\<lparr>expected := expected r + word_of_nat (length (cs ! j))\<rparr>"
    have "{l \<in> insert j I. Suc j \<le> l} = {l \<in> I. j \<le> l}"
      using assms(4) by (auto simp: Suc_le_eq order_less_le)
    then have "received cs (insert j I) (Suc j) ?r"
      using assms(3,5) 2 e by (auto simp: received_def chunk_offset_Suc less_Suc_eq)
    moreover obtain r' acc where fl: "flush_pending ?r (cs ! j) = (r', acc)" by fastforce
    ultimately obtain j' where j': "j' \<notin> insert j I" "received cs (insert j I) j' r'" "Suc j \<le> j'"
        "acc = cs ! j @ concat (take (j' - Suc j) (drop (Suc j) cs))"
      using flush_pending_received [OF assms(1,2)] by blast
    have "take (j' - j) (drop j cs) = cs ! j # take (j' - Suc j) (drop (Suc j) cs)"
      using assms(5) 2 j'(3) by (metis Cons_nth_drop_Suc Suc_diff_le diff_Suc_Suc take_Suc_Cons)
    then show ?thesis using 2 fl j' e ord by (auto simp: chunk_payload_def push_encode_at intro!: exI [of _ j'])
  next
    case 3
    then show ?thesis using ord found assms jl e
      by (auto simp: chunk_payload_def push_encode_at insert_absorb intro: exI [of _ j])
  next
    case 4
    have split: "{l \<in> insert i I. j \<le> l} = insert i {l \<in> I. j \<le> l}" using 4 by auto
    then have sum: "buffered_bytes r + length (cs ! i) = (\<Sum>l \<in> {l \<in> insert i I. j \<le> l}. length (cs ! l))"
      using b 4 fin by simp
    have "(\<Sum>l \<in> {l \<in> insert i I. j \<le> l}. length (cs ! l)) \<le> (\<Sum>l \<in> insert i I. length (cs ! l))"
      using fin by (intro sum_mono2) auto
    moreover have "received cs (insert i I) j
        (r\<lparr>buffered_bytes := buffered_bytes r + length (cs ! i), pending := (?off, cs ! i) # pending r\<rparr>)"
      using assms(3,5) 4 found split sum by (auto simp: received_def map_of_eq_None_iff)
    moreover have "\<not> ?off < expected r" "?off \<noteq> expected r" "map_of (pending r) ?off = None"
      using 4 ord found assms jl e by auto
    ultimately show ?thesis using sum 4 assms(4)
      by (auto simp: chunk_payload_def push_encode_at intro!: exI [of _ j])
  qed
qed

lemma receive_received:
  assumes "[] \<notin> set cs" "length (concat cs) < 2 ^ 64" "received cs I j r" "j \<notin> I"
    and "set js \<subseteq> {..<length cs}"
  shows "case receive r (map (chunk_payload cs) js) of
           Inl e \<Rightarrow> e = WindowOverflow \<and> MAX_BUFFERED < (\<Sum>l \<in> I \<union> set js. length (cs ! l))
         | Inr (r', outs) \<Rightarrow> \<exists>j'. j \<le> j' \<and> j' \<notin> I \<union> set js \<and> received cs (I \<union> set js) j' r' \<and>
             outs = concat (take (j' - j) (drop j cs))"
  using assms(3-)
proof (induction js arbitrary: r I j)
  case Nil
  then show ?case by (auto intro: exI [of _ j])
next
  case (Cons i js)
  have i: "i < length cs" and js: "set js \<subseteq> {..<length cs}" using Cons.prems by auto
  have fin: "finite (I \<union> set (i # js))" using Cons.prems(1) by (auto simp: received_def intro: finite_subset)
  note step = push_received [OF assms(1,2) Cons.prems(1,2) i]
  show ?case
  proof (cases "push r (chunk_payload cs i)")
    case (Pair r1 res)
    show ?thesis
    proof (cases res)
      case (Inl e)
      have "(\<Sum>l \<in> insert i I. length (cs ! l)) \<le> (\<Sum>l \<in> I \<union> set (i # js). length (cs ! l))"
        using fin by (intro sum_mono2) auto
      then show ?thesis using step Pair Inl by simp
    next
      case (Inr out)
      from step Pair Inr obtain j1 where j1: "j \<le> j1" "j1 \<notin> insert i I" "received cs (insert i I) j1 r1"
          "(case out of None \<Rightarrow> [] | Some bs \<Rightarrow> bs) = concat (take (j1 - j) (drop j cs))" by auto
      note IH = Cons.IH [OF j1(3,2) js]
      show ?thesis
      proof (cases "receive r1 (map (chunk_payload cs) js)")
        case (Inl e)
        then show ?thesis using IH Pair \<open>res = Inr out\<close> by simp
      next
        case (Inr ro)
        obtain r2 outs where ro: "ro = (r2, outs)" by fastforce
        from IH Inr ro obtain j2 where j2: "j1 \<le> j2" "j2 \<notin> insert i I \<union> set js"
            "received cs (insert i I \<union> set js) j2 r2" "outs = concat (take (j2 - j1) (drop j1 cs))"
          by auto
        have "concat (take (j1 - j) (drop j cs)) @ outs = concat (take (j2 - j) (drop j cs))"
          using slice_append [OF j1(1) j2(1), of cs] j2(4) by (metis concat_append)
        then show ?thesis using j1 j2 Inr ro Pair \<open>res = Inr out\<close> by (auto intro!: exI [of _ j2])
      qed
    qed
  qed
qed

subsection \<open>Overtaken chunks\<close>

lemma flush_pending_keeps:
  assumes "length S < 2 ^ 64" "parked_pieces S r" "(k, v) \<in> set (pending r)" "k < expected r"
  shows "(k, v) \<in> set (pending (fst (flush_pending r acc)))"
  using assms(2-)
proof (induction r acc rule: flush_pending.induct)
  case (1 r acc)
  show ?case
  proof (cases "map_of (pending r) (expected r)")
    case None
    then show ?thesis using "1.prems" by (simp add: flush_pending.simps [of r])
  next
    case (Some w)
    note found = parked_pieces_found [OF "1.prems"(1) Some]
    let ?r = "r\<lparr>expected := expected r + word_of_nat (length w),
               pending := AList.delete (expected r) (pending r),
               buffered_bytes := buffered_bytes r - length w\<rparr>"
    have e: "unat (expected ?r) = unat (expected r) + length w"
      using found(1) assms(1) by (simp add: unat_add_len)
    have "parked_pieces S ?r"
      using "1.prems"(1) found e by (auto simp: parked_pieces_def AList.delete_eq)
    moreover have "(k, v) \<in> set (pending ?r)" "k < expected ?r"
      using "1.prems"(2,3) e by (auto simp: AList.delete_eq word_less_nat_alt)
    ultimately show ?thesis using "1.IH" [OF Some] Some by (simp add: flush_pending.simps [of r])
  qed
qed

lemma push_keeps:
  assumes "length S < 2 ^ 64" "piece_of S p" "parked_pieces S r" "push r p = (r', Inr out)"
    and "(k, v) \<in> set (pending r)" "k < expected r"
  shows "(k, v) \<in> set (pending r') \<and> k < expected r'"
proof -
  have mono: "unat (expected r) \<le> unat (expected r')" using push_pieces [OF assms(1-4)] by simp
  from assms(2) obtain i n where p: "p = encode_at (word_of_nat i) (take n (drop i S))" "i + n \<le> length S"
    by (auto simp: piece_of_def)
  have "(k, v) \<in> set (pending r')"
  proof (cases "word_of_nat i = expected r")
    case True
    have i: "unat (word_of_nat i :: u64) = i" using p(2) assms(1) by (simp add: unat_of_nat)
    let ?r = "r\<lparr>expected := expected r + word_of_nat n\<rparr>"
    have e: "unat (expected ?r) = unat (expected r) + n"
      using True i p(2) assms(1) by (auto intro!: unat_add_len)
    have "parked_pieces S ?r" using assms(3) e True i p(2) by (auto simp: parked_pieces_def)
    moreover have "k < expected ?r" using assms(6) e by (simp add: word_less_nat_alt)
    ultimately have "(k, v) \<in> set (pending (fst (flush_pending ?r (take n (drop i S)))))"
      using assms(1,5) by (intro flush_pending_keeps [of S]) auto
    then show ?thesis using assms(4) p True by (auto simp: push_encode_at map_prod_def split: prod.splits)
  next
    case False
    then show ?thesis using assms(4,5) p by (auto simp: push_encode_at split: if_splits)
  qed
  then show ?thesis using mono assms(6) by (simp add: word_less_nat_alt)
qed

lemma receive_keeps:
  assumes "length S < 2 ^ 64" "\<forall>p \<in> set ps. piece_of S p" "parked_pieces S r"
    and "receive r ps = Inr (r', outs)" "(k, v) \<in> set (pending r)" "k < expected r"
  shows "(k, v) \<in> set (pending r') \<and> k < expected r'"
  using assms(2-)
proof (induction ps arbitrary: r outs)
  case (Cons p ps)
  from Cons.prems(3) obtain r1 out outs1 where step: "push r p = (r1, Inr out)"
      "receive r1 ps = Inr (r', outs1)"
    by (auto split: prod.splits sum.splits)
  have "piece_of S p" using Cons.prems(1) by simp
  from push_pieces [OF assms(1) this Cons.prems(2) step(1)]
    push_keeps [OF assms(1) this Cons.prems(2) step(1) Cons.prems(4,5)]
  show ?case using Cons.IH [OF _ _ step(2)] Cons.prems(1) by simp
qed simp

lemma parked_pieces_new: "parked_pieces S reorder_new"
  by (simp add: parked_pieces_def reorder_new_def)

section \<open>Properties\<close>

text \<open>C1: Over any sequence of payloads that carry pieces of one stream, however they are
  cut, repeated, reordered or lost, the receiver hands on exactly the bytes of the
  stream up to its cursor: nothing is duplicated, skipped or swapped.\<close>

theorem receive_is_stream_prefix:
  assumes "length S < 2 ^ 64" "\<forall>p \<in> set ps. piece_of S p"
    and "receive reorder_new ps = Inr (r, out)"
  shows "out = take (unat (expected r)) S \<and> unat (expected r) \<le> length S"
  using receive_pieces [OF assms(1,2) parked_pieces_new assms(3)]
  by (simp add: reorder_new_def parked_pieces_def)

theorem receive_is_stream_prefix_witness:
  "receive reorder_new [encode_at 2 [30], encode_at 0 [10, 20], encode_at 1 [20, 30]]
     = Inr (\<lparr>expected = 3, pending = [], buffered_bytes = 0\<rparr>, [10, 20, 30])
   \<and> [10, 20, 30] = take (unat (3 :: u64)) ([10, 20, 30, 40] :: bytes)"
proof -
  let ?S = "[10, 20, 30, 40] :: bytes"
  have "piece_of ?S (encode_at 2 [30])" "piece_of ?S (encode_at 0 [10, 20])" "piece_of ?S (encode_at 1 [20, 30])"
    unfolding piece_of_def
    by (intro exI [of _ 2] exI [of _ 1], simp, intro exI [of _ 0] exI [of _ 2], simp,
        intro exI [of _ 1] exI [of _ 2], simp)
  then have pieces: "\<forall>p \<in> set [encode_at 2 [30], encode_at 0 [10, 20], encode_at 1 [20, 30]]. piece_of ?S p"
    by simp
  have run: "receive reorder_new [encode_at 2 [30], encode_at 0 [10, 20], encode_at 1 [20, 30]]
     = Inr (\<lparr>expected = 3, pending = [], buffered_bytes = 0\<rparr>, [10, 20, 30])"
    by (simp add: push_encode_at reorder_new_def flush_pending.simps MAX_BUFFERED_def AList.delete_eq)
  show ?thesis using receive_is_stream_prefix [OF _ pieces run] run by simp
qed

text \<open>C2: When the payloads are the chunks of one chunking of a stream, in any order and
  with any repetition, the receiver hands on all chunks before the first missing
  one, in order and once, and it waits exactly when a later chunk is parked. The
  only error is the window overflow, and then the arrived chunks exceed the
  window.\<close>

theorem receive_delivers_up_to_first_gap:
  assumes "[] \<notin> set cs" "length (concat cs) < 2 ^ 64" "set js \<subseteq> {..<length cs}"
    and "{..<j} \<subseteq> set js" "j \<notin> set js"
  shows "case receive reorder_new (map (chunk_payload cs) js) of
           Inl e \<Rightarrow> e = WindowOverflow \<and> MAX_BUFFERED < (\<Sum>l \<in> set js. length (cs ! l))
         | Inr (r, out) \<Rightarrow> out = concat (take j cs) \<and> (is_waiting r \<longleftrightarrow> (\<exists>i \<in> set js. j < i))"
proof (cases "receive reorder_new (map (chunk_payload cs) js)")
  case (Inl e)
  then show ?thesis using receive_received [OF assms(1,2) received_new _ assms(3)] by simp
next
  case (Inr ro)
  obtain r out where ro: "ro = (r, out)" by fastforce
  from receive_received [OF assms(1,2) received_new _ assms(3)] Inr ro obtain j' where
    j': "j' \<notin> set js" "received cs (set js) j' r" "out = concat (take j' cs)" by auto
  have "{..<j'} \<subseteq> set js" using j'(2) by (simp add: received_def)
  then have "j' = j" using j'(1) assms(4,5) by (metis lessThan_iff linorder_neqE_nat subsetD)
  moreover have "is_waiting r \<longleftrightarrow> (\<exists>i \<in> set js. j' \<le> i)"
    using j'(2) by (auto simp: received_def is_waiting_def set_empty2 [symmetric] simp del: set_empty2)
  ultimately show ?thesis using Inr ro j'(3) assms(5) by (auto simp: order_less_le)
qed

theorem receive_delivers_up_to_first_gap_witness:
  "case receive reorder_new (map (chunk_payload [[1], [2, 3], [4], [5]]) [3, 1, 0, 1]) of
     Inl _ \<Rightarrow> False
   | Inr (r, out) \<Rightarrow> out = [1, 2, 3] \<and> is_waiting r"
proof -
  have "{..<2::nat} \<subseteq> set [3, 1, 0, 1]" by auto
  moreover have "set [3, 1, 0, 1] \<subseteq> {..<length [[1], [2, 3], [4], [5 :: u8]]}" by simp
  ultimately show ?thesis
    using receive_delivers_up_to_first_gap [of "[[1], [2, 3], [4], [5]]" "[3, 1, 0, 1]" 2]
    by (simp add: MAX_BUFFERED_def insert_commute split: sum.splits prod.splits del: receive.simps)
qed

text \<open>C40: A chunk that is parked when the cursor has already passed its offset is never
  released: over all later pieces of the stream it stays parked and the receiver
  reports that it is waiting, even when the whole stream has been delivered.\<close>

theorem overtaken_chunk_stays_parked:
  assumes "length S < 2 ^ 64" "\<forall>p \<in> set ps. piece_of S p" "receive reorder_new ps = Inr (r, out)"
    and "(k, v) \<in> set (pending r)" "k < expected r"
    and "\<forall>p \<in> set qs. piece_of S p" "receive r qs = Inr (r', out')"
  shows "(k, v) \<in> set (pending r') \<and> is_waiting r' \<and> missing_offset r' = Some (expected r')"
proof -
  have "parked_pieces S r" using receive_pieces [OF assms(1,2) parked_pieces_new assms(3)] by simp
  from receive_keeps [OF assms(1,6) this assms(7,4,5)]
  have "(k, v) \<in> set (pending r')" ..
  moreover from this have "is_waiting r'" by (auto simp: is_waiting_def)
  ultimately show ?thesis by (simp add: missing_offset_def)
qed

theorem overtaken_chunk_stays_parked_witness:
  "receive reorder_new [encode_at 1 [20], encode_at 0 [10, 20, 30]]
     = Inr (\<lparr>expected = 3, pending = [(1, [20])], buffered_bytes = 1\<rparr>, [10, 20, 30])
   \<and> is_waiting (\<lparr>expected = 3, pending = [(1, [20])], buffered_bytes = 1\<rparr>)"
proof -
  let ?S = "[10, 20, 30] :: bytes" and ?r = "\<lparr>expected = 3, pending = [(1, [20])], buffered_bytes = 1\<rparr>"
  have "piece_of ?S (encode_at 1 [20])" "piece_of ?S (encode_at 0 [10, 20, 30])"
    unfolding piece_of_def
    by (intro exI [of _ 1] exI [of _ 1], simp, intro exI [of _ 0] exI [of _ 3], simp)
  then have pieces: "\<forall>p \<in> set [encode_at 1 [20], encode_at 0 [10, 20, 30]]. piece_of ?S p" by simp
  have run: "receive reorder_new [encode_at 1 [20], encode_at 0 [10, 20, 30]] = Inr (?r, [10, 20, 30])"
    by (simp add: push_encode_at reorder_new_def flush_pending.simps MAX_BUFFERED_def)
  show ?thesis
    using overtaken_chunk_stays_parked [OF _ pieces run, of 1 "[20]" "[]" ?r "[]"] run by simp
qed

text \<open>The strict cursors of writer and reader stay in step: the reader returns the
  bytes the writer framed and both cursors advance alike, a repeated copy is
  dropped without moving the cursor, and a skipped frame is reported as a gap.\<close>

theorem strict_cursor_round_trip:
  assumes "ss_encode s bs = Inr (payload, s')" "bs \<noteq> []" "length bs < 2 ^ 64"
    and "ss_encode s' cs = Inr (payload', s'')"
  shows "ss_decode s payload = Inr (bs, s')
       \<and> ss_decode s' payload = Inr ([], s')
       \<and> ss_decode s payload' = Inl (GapOrReorder (ss_offset s) (ss_offset s'))"
proof -
  have p: "payload = encode_at (ss_offset s) bs" "payload' = encode_at (ss_offset s') cs"
    and adv: "advance s (length bs) = Inr s'"
    using assms by (auto simp: ss_encode_def split: sum.splits)
  have "ss_offset s < ss_offset s'"
    using adv assms(2,3)
    by (auto simp: advance_def checked_add_def word_less_nat_alt unat_word_ariths unat_of_nat split: if_splits)
  then show ?thesis using p adv by (auto simp: ss_decode_def Let_def order.asym)
qed

theorem strict_cursor_round_trip_witness:
  "ss_decode \<lparr>ss_offset = 0\<rparr> (encode_at 0 [7, 8]) = Inr ([7, 8], \<lparr>ss_offset = 2\<rparr>)
   \<and> ss_decode \<lparr>ss_offset = 2\<rparr> (encode_at 0 [7, 8]) = Inr ([], \<lparr>ss_offset = 2\<rparr>)
   \<and> ss_decode \<lparr>ss_offset = 0\<rparr> (encode_at 2 [9]) = Inl (GapOrReorder 0 2)"
proof -
  have a: "ss_encode \<lparr>ss_offset = 0\<rparr> [7, 8] = Inr (encode_at 0 [7, 8], \<lparr>ss_offset = 2\<rparr>)"
    by (simp add: ss_encode_def advance_def checked_add_def)
  have b: "ss_encode \<lparr>ss_offset = 2\<rparr> [9] = Inr (encode_at 2 [9], \<lparr>ss_offset = 3\<rparr>)"
    by (simp add: ss_encode_def advance_def checked_add_def)
  show ?thesis using strict_cursor_round_trip [OF a _ _ b] by simp
qed

end
