(* ===== verification/Packet_Class.thy ===== *)
theory Packet_Class
  imports Prelude
begin

text \<open>
  Packet inspection shared by client and server: the duplication policy of
  \<open>src/shared/selective_fec.rs\<close> (with its token budget) and the striping of
  packets over workers of \<open>src/shared/striped_scheduler.rs\<close>.

  An \<open>Instant\<close> is a number of nanoseconds. Packet offsets stay below
  \<open>40 + 8 * 2048\<close>, so the \<open>checked_add\<close> and \<open>checked_mul\<close> of the header
  walkers never fail and offsets are natural numbers.
\<close>

unbundle bit_operations_syntax

section \<open>Duplication budget\<close>

definition MAX_SMALL_UDP_PAYLOAD :: nat where
  "MAX_SMALL_UDP_PAYLOAD = 256"

definition DUPLICATES_PER_SECOND :: nat where
  "DUPLICATES_PER_SECOND = 50"

definition DUPLICATE_BURST :: nat where
  "DUPLICATE_BURST = 10"

definition REFILL_INTERVAL :: nat where
  "REFILL_INTERVAL = 1000 div DUPLICATES_PER_SECOND * 1000000"

record budget =
  tokens :: nat
  updated :: nat

definition budget_new :: "nat \<Rightarrow> budget" where
  "budget_new now = \<lparr>tokens = DUPLICATE_BURST, updated = now\<rparr>"

definition u32_max :: nat where
  "u32_max = 2 ^ 32 - 1"

definition allow :: "nat \<Rightarrow> budget \<Rightarrow> bool \<times> budget" where
  "allow now b =
     (let elapsed = now - updated b;
          refill = elapsed div REFILL_INTERVAL;
          b' = (if refill \<noteq> 0 then
                  let refill = min refill u32_max
                  in b\<lparr>tokens := min (min (tokens b + refill) u32_max) DUPLICATE_BURST,
                       updated := updated b + REFILL_INTERVAL * refill\<rparr>
                else b)
      in if tokens b' = 0 then (False, b')
         else (True, b'\<lparr>tokens := tokens b' - 1\<rparr>))"

section \<open>Transport headers\<close>

record transport =
  protocol :: u8
  tbytes :: bytes

definition be16_at :: "bytes \<Rightarrow> nat \<Rightarrow> u16" where
  "be16_at bs i = from_be [bs ! i, bs ! (i + 1)]"

definition classify_transport :: "transport \<Rightarrow> bool" where
  "classify_transport t =
     (if protocol t = 6 \<and> length (tbytes t) \<ge> 14 then
        (let source = be16_at (tbytes t) 0; destination = be16_at (tbytes t) 2
         in source = 53 \<or> destination = 53 \<or> (tbytes t ! 13) AND 0x02 \<noteq> 0)
      else if protocol t = 17 \<and> length (tbytes t) \<ge> 8 then
        (let source = be16_at (tbytes t) 0; destination = be16_at (tbytes t) 2
         in source = 53 \<or> destination = 53 \<or> length (tbytes t) - 8 \<le> MAX_SMALL_UDP_PAYLOAD)
      else False)"

definition ipv4_transport :: "bytes \<Rightarrow> transport option" where
  "ipv4_transport packet =
     (if length packet < 20 \<or> drop_bit 4 (packet ! 0) \<noteq> 4 then None
      else let header_len = unat ((packet ! 0) AND 0x0f) * 4
           in if header_len < 20 \<or> length packet < header_len then None
              else if (be16_at packet 6) AND 0x1fff \<noteq> 0 then None
              else Some \<lparr>protocol = packet ! 9, tbytes = drop header_len packet\<rparr>)"

text \<open>One iteration of the IPv6 extension header loop: \<open>None\<close> for an early
  \<open>return None\<close>, \<open>Some (Inl _)\<close> for leaving the loop, \<open>Some (Inr _)\<close> for the
  next iteration.\<close>

definition ipv6_step :: "bytes \<Rightarrow> u8 \<Rightarrow> nat \<Rightarrow> (unit + (u8 \<times> nat)) option" where
  "ipv6_step packet proto offset =
     (let check = (\<lambda>(p, off). if off > length packet then None else Some (Inr (p, off)))
      in if proto = 0 \<or> proto = 43 \<or> proto = 60 then
           (case get_range packet offset (offset + 2) of
              None \<Rightarrow> None
            | Some header \<Rightarrow> check (header ! 0, offset + (unat (header ! 1) + 1) * 8))
         else if proto = 44 then
           (case get_range packet offset (offset + 8) of
              None \<Rightarrow> None
            | Some header \<Rightarrow>
                if (be16_at header 2) AND 0xfff8 \<noteq> 0 then None
                else check (header ! 0, offset + 8))
         else if proto = 51 then
           (case get_range packet offset (offset + 2) of
              None \<Rightarrow> None
            | Some header \<Rightarrow> check (header ! 0, offset + (unat (header ! 1) + 2) * 4))
         else Some (Inl ()))"

fun ipv6_walk :: "nat \<Rightarrow> bytes \<Rightarrow> u8 \<Rightarrow> nat \<Rightarrow> (u8 \<times> nat) option" where
  "ipv6_walk 0 packet proto offset = Some (proto, offset)"
| "ipv6_walk (Suc n) packet proto offset =
     (case ipv6_step packet proto offset of
        None \<Rightarrow> None
      | Some (Inl _) \<Rightarrow> Some (proto, offset)
      | Some (Inr (proto', offset')) \<Rightarrow> ipv6_walk n packet proto' offset')"

definition ipv6_transport :: "bytes \<Rightarrow> transport option" where
  "ipv6_transport packet =
     (if length packet < 40 \<or> drop_bit 4 (packet ! 0) \<noteq> 6 then None
      else case ipv6_walk 8 packet (packet ! 6) 40 of
             None \<Rightarrow> None
           | Some (proto, offset) \<Rightarrow>
               if offset \<le> length packet
               then Some \<lparr>protocol = proto, tbytes = drop offset packet\<rparr> else None)"

section \<open>Duplication policy\<close>

definition is_control :: "bytes \<Rightarrow> bool" where
  "is_control packet \<longleftrightarrow>
     starts_with packet (ascii ''GETCONF:'') \<or> starts_with packet (ascii ''TUNCONF:'') \<or>
     packet = ascii ''READY'' \<or> packet = ascii ''READY_OK'' \<or>
     starts_with packet (ascii ''DENIED:'') \<or> starts_with packet (ascii ''DISCONNECT:'')"

definition is_proxy_frame :: "bytes \<Rightarrow> bool" where
  "is_proxy_frame packet \<longleftrightarrow> starts_with packet (ascii ''CSQPX2'') \<and> get_at packet 6 = Some 4"

definition is_client_duplicable_frame :: "bytes \<Rightarrow> bool" where
  "is_client_duplicable_frame packet \<longleftrightarrow>
     starts_with packet (ascii ''CSQPX2'') \<and>
     (case get_at packet 6 of Some k \<Rightarrow> k = 1 \<or> k = 4 \<or> k = 5 | None \<Rightarrow> False)"

definition is_server_duplicable_frame :: "bytes \<Rightarrow> bool" where
  "is_server_duplicable_frame packet \<longleftrightarrow>
     starts_with packet (ascii ''CSQPX2'') \<and>
     (case get_at packet 6 of Some k \<Rightarrow> 2 \<le> k \<and> k \<le> 4 | None \<Rightarrow> False)"

definition should_duplicate :: "bytes \<Rightarrow> bool" where
  "should_duplicate packet =
     (if is_control packet \<or> is_proxy_frame packet then True
      else case packet of
             [] \<Rightarrow> False
           | b # _ \<Rightarrow>
               if drop_bit 4 b = 4 then
                 (case ipv4_transport packet of None \<Rightarrow> False | Some t \<Rightarrow> classify_transport t)
               else if drop_bit 4 b = 6 then
                 (case ipv6_transport packet of None \<Rightarrow> False | Some t \<Rightarrow> classify_transport t)
               else False)"

section \<open>Striped scheduler\<close>

definition TCP_LATENCY_PACKET_LIMIT :: nat where
  "TCP_LATENCY_PACKET_LIMIT = 192"

definition UDP_LATENCY_PACKET_LIMIT :: nat where
  "UDP_LATENCY_PACKET_LIMIT = 300"

datatype packet_class = Latency | Priority | Bulk

fun stripe_chunk :: "packet_class \<Rightarrow> nat" where
  "stripe_chunk Latency = 1"
| "stripe_chunk Priority = 2"
| "stripe_chunk Bulk = 2"

text \<open>The scheduler's header walk: the same loop, which returns the protocol as
  soon as it meets a header it does not skip.\<close>

fun sched_ipv6_walk :: "nat \<Rightarrow> bytes \<Rightarrow> u8 \<Rightarrow> nat \<Rightarrow> u8 option" where
  "sched_ipv6_walk 0 packet proto offset = Some proto"
| "sched_ipv6_walk (Suc n) packet proto offset =
     (if proto = 0 \<or> proto = 43 \<or> proto = 60 then
        (case get_range packet offset (offset + 2) of
           None \<Rightarrow> None
         | Some header \<Rightarrow>
             let offset' = offset + (unat (header ! 1) + 1) * 8
             in if offset' > length packet then None else sched_ipv6_walk n packet (header ! 0) offset')
      else if proto = 44 then
        (case get_range packet offset (offset + 8) of
           None \<Rightarrow> None
         | Some header \<Rightarrow>
             if (be16_at header 2) AND 0xfff8 \<noteq> 0 then None
             else if offset + 8 > length packet then None
             else sched_ipv6_walk n packet (header ! 0) (offset + 8))
      else if proto = 51 then
        (case get_range packet offset (offset + 2) of
           None \<Rightarrow> None
         | Some header \<Rightarrow>
             let offset' = offset + (unat (header ! 1) + 2) * 4
             in if offset' > length packet then None else sched_ipv6_walk n packet (header ! 0) offset')
      else Some proto)"

definition sched_ipv6_transport :: "bytes \<Rightarrow> u8 option" where
  "sched_ipv6_transport packet = sched_ipv6_walk 8 packet (packet ! 6) 40"

definition internet_transport :: "bytes \<Rightarrow> u8 option" where
  "internet_transport packet =
     (case packet of
        [] \<Rightarrow> None
      | b # _ \<Rightarrow>
          if drop_bit 4 b = 4 then
            (let header_len = unat (b AND 0x0f) * 4
             in if header_len \<ge> 20 \<and> length packet \<ge> header_len then Some (packet ! 9) else None)
          else if drop_bit 4 b = 6 \<and> length packet \<ge> 40 then sched_ipv6_transport packet
          else None)"

definition packet_class_of :: "bytes \<Rightarrow> packet_class" where
  "packet_class_of packet =
     (case internet_transport packet of
        None \<Rightarrow> Bulk
      | Some p \<Rightarrow>
          if p = 1 \<or> p = 58 then Latency
          else if p = 6 \<and> length packet < TCP_LATENCY_PACKET_LIMIT then Latency
          else if p = 17 \<and> length packet \<le> UDP_LATENCY_PACKET_LIMIT then Latency
          else if p = 17 then Priority
          else Bulk)"

record dispatch_ticket =
  start_slot :: nat
  worker_count :: nat
  cohort_len :: nat
  ticket_class :: packet_class

definition worker_index :: "dispatch_ticket \<Rightarrow> nat \<Rightarrow> nat" where
  "worker_index t off = (start_slot t + off) mod worker_count t"

text \<open>The atomic cursors are 64-bit and wrap.\<close>

record striped_scheduler =
  latency_packet :: u64
  priority_packet :: u64
  bulk_packet :: u64

definition scheduler_new :: striped_scheduler where
  "scheduler_new = \<lparr>latency_packet = 0, priority_packet = 0, bulk_packet = 0\<rparr>"

fun fetch_add :: "packet_class \<Rightarrow> striped_scheduler \<Rightarrow> u64 \<times> striped_scheduler" where
  "fetch_add Latency s = (latency_packet s, s\<lparr>latency_packet := latency_packet s + 1\<rparr>)"
| "fetch_add Priority s = (priority_packet s, s\<lparr>priority_packet := priority_packet s + 1\<rparr>)"
| "fetch_add Bulk s = (bulk_packet s, s\<lparr>bulk_packet := bulk_packet s + 1\<rparr>)"

definition begin_class :: "nat \<Rightarrow> packet_class \<Rightarrow> striped_scheduler \<Rightarrow> dispatch_ticket option \<times> striped_scheduler" where
  "begin_class count cls s =
     (if count = 0 then (None, s)
      else case fetch_add cls s of
        (cursor, s') \<Rightarrow>
          let worker_idx = (unat cursor div stripe_chunk cls) mod count;
              safe_idx = min worker_idx (count - 1)
          in (Some \<lparr>start_slot = safe_idx, worker_count = count, cohort_len = count,
                    ticket_class = cls\<rparr>, s'))"

definition select_class :: "nat \<Rightarrow> packet_class \<Rightarrow> striped_scheduler \<Rightarrow> nat option \<times> striped_scheduler" where
  "select_class count cls s = map_prod (map_option start_slot) id (begin_class count cls s)"

definition begin_packet :: "nat \<Rightarrow> bytes \<Rightarrow> striped_scheduler \<Rightarrow> dispatch_ticket option \<times> striped_scheduler" where
  "begin_packet count packet s = begin_class count (packet_class_of packet) s"

definition select_packet :: "nat \<Rightarrow> bytes \<Rightarrow> striped_scheduler \<Rightarrow> nat option \<times> striped_scheduler" where
  "select_packet count packet s = map_prod (map_option start_slot) id (begin_packet count packet s)"

text \<open>Runs: the number of granted duplicates over a sequence of calls at given
  times, and the slots chosen by consecutive selections of one class.\<close>

fun grants :: "budget \<Rightarrow> nat list \<Rightarrow> nat" where
  "grants b [] = 0"
| "grants b (t # ts) = (case allow t b of (ok, b') \<Rightarrow> (if ok then 1 else 0) + grants b' ts)"

fun select_run :: "nat \<Rightarrow> packet_class \<Rightarrow> nat \<Rightarrow> striped_scheduler \<Rightarrow> nat list" where
  "select_run count cls 0 s = []"
| "select_run count cls (Suc k) s =
     (case select_class count cls s of
        (None, s') \<Rightarrow> select_run count cls k s'
      | (Some i, s') \<Rightarrow> i # select_run count cls k s')"

section \<open>Lemmas\<close>

subsection \<open>Budget\<close>

lemma REFILL_INTERVAL_pos [simp]: "0 < REFILL_INTERVAL"
  by (simp add: REFILL_INTERVAL_def DUPLICATES_PER_SECOND_def)

lemma refill_debt:
  assumes "m \<le> (now - u) div R" "now \<le> T" "0 < (R::nat)"
  shows "m + (T - (u + R * m)) div R \<le> (T - u) div R"
proof -
  have "m * R \<le> (now - u) div R * R" using assms(1) by (rule mult_le_mono1)
  also have "\<dots> \<le> now - u" by (rule div_times_less_eq_dividend)
  finally have "m * R \<le> T - u" using assms(2) by linarith
  then have "T - u = (T - (u + R * m)) + m * R" by (simp add: mult.commute)
  moreover have "((T - (u + R * m)) + m * R) div R = m + (T - (u + R * m)) div R"
    using assms(3) by (intro div_mult_self1) simp
  ultimately show ?thesis by simp
qed

lemma allow_potential:
  assumes "now \<le> T" "allow now b = (ok, b')"
  shows "(if ok then 1 else 0) + tokens b' + (T - updated b') div REFILL_INTERVAL
           \<le> tokens b + (T - updated b) div REFILL_INTERVAL"
proof -
  define m where "m = min ((now - updated b) div REFILL_INTERVAL) u32_max"
  define t where "t = min (min (tokens b + m) u32_max) DUPLICATE_BURST"
  have debt: "m + (T - (updated b + REFILL_INTERVAL * m)) div REFILL_INTERVAL
      \<le> (T - updated b) div REFILL_INTERVAL"
    by (rule refill_debt [where now = now]) (use assms in \<open>simp_all add: m_def\<close>)
  have t: "t \<le> tokens b + m" by (simp add: t_def)
  show ?thesis
  proof (cases "(now - updated b) div REFILL_INTERVAL = 0")
    case True
    then show ?thesis using assms(2) unfolding allow_def Let_def by (simp split: if_splits) auto
  next
    case False
    then have "allow now b = (let b' = b\<lparr>tokens := t, updated := updated b + REFILL_INTERVAL * m\<rparr>
        in if t = 0 then (False, b') else (True, b'\<lparr>tokens := t - 1\<rparr>))"
      unfolding allow_def Let_def by (fold m_def, fold t_def) simp
    then show ?thesis using assms(2) t debt by (cases "t = 0") auto
  qed
qed

lemma grants_potential:
  "\<forall>t \<in> set ts. t \<le> T \<Longrightarrow> grants b ts \<le> tokens b + (T - updated b) div REFILL_INTERVAL"
proof (induction ts arbitrary: b)
  case (Cons t ts)
  obtain ok b' where step: "allow t b = (ok, b')" by fastforce
  have "grants b' ts \<le> tokens b' + (T - updated b') div REFILL_INTERVAL"
    using Cons by simp
  then show ?case using allow_potential [OF _ step, of T] Cons.prems step by auto
qed simp

subsection \<open>Header walks\<close>

lemma sched_walk_step:
  "sched_ipv6_walk (Suc n) packet proto offset =
     (case ipv6_step packet proto offset of
        None \<Rightarrow> None
      | Some (Inl _) \<Rightarrow> Some proto
      | Some (Inr (proto', offset')) \<Rightarrow> sched_ipv6_walk n packet proto' offset')"
proof -
  consider "proto = 0 \<or> proto = 43 \<or> proto = 60" | "proto = 44" | "proto = 51"
    | "proto \<notin> {0, 43, 60, 44, 51}" by auto
  then show ?thesis
    by cases (simp_all add: ipv6_step_def Let_def split: option.split)
qed

lemma sched_walk_agrees:
  "ipv6_walk n packet proto offset = Some (p, off) \<Longrightarrow> sched_ipv6_walk n packet proto offset = Some p"
proof (induction n arbitrary: proto offset)
  case (Suc n)
  then show ?case
    by (auto simp: sched_walk_step simp del: sched_ipv6_walk.simps split: option.splits sum.splits)
qed simp

lemma ipv6_step_in_packet:
  assumes step: "ipv6_step packet proto offset = Some (Inr (p, off))"
  shows "offset \<le> off \<and> off \<le> length packet"
proof -
  consider "proto = 0 \<or> proto = 43 \<or> proto = 60" | "proto = 44" | "proto = 51"
    | "proto \<notin> {0, 43, 60, 44, 51}" by auto
  then show ?thesis using step
    by cases (auto simp: ipv6_step_def Let_def split: option.splits if_splits)
qed

lemma ipv6_walk_in_packet:
  "ipv6_walk n packet proto offset = Some (p, off) \<Longrightarrow> offset \<le> length packet
     \<Longrightarrow> offset \<le> off \<and> off \<le> length packet"
proof (induction n arbitrary: proto offset)
  case (Suc n)
  then show ?case
    by (fastforce dest: ipv6_step_in_packet split: option.splits sum.splits)
qed simp

subsection \<open>Striping\<close>

lemma select_class_slot:
  "0 < count \<Longrightarrow> select_class count cls s =
     (Some (unat (fst (fetch_add cls s)) div stripe_chunk cls mod count), snd (fetch_add cls s))"
  by (cases "fetch_add cls s") (auto simp: select_class_def begin_class_def Let_def min_def
      Suc_diff_Suc less_Suc_eq_le [symmetric] not_le split: prod.splits)

lemma fetch_add_next: "fst (fetch_add cls (snd (fetch_add cls s))) = fst (fetch_add cls s) + 1"
  by (cases cls) simp_all

lemma select_run_slots:
  assumes "0 < count" "unat (fst (fetch_add cls s)) + k \<le> 2 ^ 64"
  shows "select_run count cls k s =
    map (\<lambda>i. (unat (fst (fetch_add cls s)) + i) div stripe_chunk cls mod count) [0..<k]"
  using assms(2)
proof (induction k arbitrary: s)
  case (Suc k)
  let ?s = "snd (fetch_add cls s)"
  show ?case
  proof (cases k)
    case 0
    then show ?thesis using assms(1) by (simp add: select_class_slot)
  next
    case (Suc k')
    have "unat (fst (fetch_add cls s) + 1) = unat (fst (fetch_add cls s)) + 1"
      using Suc.prems Suc by (simp add: unat_word_ariths)
    then have "select_run count cls k ?s =
        map (\<lambda>i. (unat (fst (fetch_add cls s)) + 1 + i) div stripe_chunk cls mod count) [0..<k]"
      using Suc.IH [of ?s] Suc.prems by (simp add: fetch_add_next)
    then show ?thesis using assms(1)
      by (simp add: select_class_slot upt_rec [of 0] map_Suc_upt [symmetric] comp_def del: upt_Suc)
  qed
qed simp


lemma sum_window_period:
  fixes g :: "nat \<Rightarrow> nat"
  assumes "\<And>i. g (i + P) = g i"
  shows "sum g {c..<c + P} = sum g {0..<P}"
proof (induction c)
  case (Suc c)
  have "g c + sum g {Suc c..<Suc (c + P)} = sum g {c..<Suc (c + P)}"
    by (rule sum.atLeast_Suc_lessThan [symmetric]) simp
  also have "\<dots> = sum g {c..<c + P} + g (c + P)" by simp
  finally show ?case using Suc assms [of c] by simp
qed simp

lemma stripe_block:
  assumes "w < n" "0 < (k::nat)"
  shows "{i \<in> {0..<k * n}. i div k mod n = w} = {w * k..<w * k + k}"
proof -
  have lt: "i div k < n" if "i < k * n" for i
    using that assms(2) by (simp add: less_mult_imp_div_less mult.commute)
  have iff: "i div k = w \<longleftrightarrow> i \<in> {w * k..<w * k + k}" for i
    using assms(2) dividend_less_div_times [of k i] div_times_less_eq_dividend [of i k]
    by (auto intro!: div_nat_eqI simp: mult.commute add.commute)
  have "w * k + k \<le> k * n" using assms by (metis Suc_leI add.commute mult.commute mult_Suc mult_le_mono1)
  then have "{w * k..<w * k + k} \<subseteq> {0..<k * n}" by auto
  moreover have "{i \<in> {0..<k * n}. i div k mod n = w} = {i \<in> {0..<k * n}. i div k = w}"
    using lt by auto
  ultimately show ?thesis using iff by blast
qed

lemma count_list_map_upt:
  "count_list (map f [0..<k]) w = (\<Sum>i \<in> {0..<k}. if f i = w then 1 else 0)"
  by (induction k) auto

lemma stripe_count:
  assumes "w < n" "0 < k"
  shows "count_list (map (\<lambda>i. (c + i) div k mod n) [0..<k * n]) w = k"
proof -
  let ?g = "\<lambda>i. if i div k mod n = w then 1 else 0 :: nat"
  have per: "?g (i + k * n) = ?g i" for i using assms by simp
  have "count_list (map (\<lambda>i. (c + i) div k mod n) [0..<k * n]) w = (\<Sum>i \<in> {0..<k * n}. ?g (c + i))"
    by (rule count_list_map_upt)
  also have "\<dots> = sum ?g {c..<c + k * n}"
    using sum.shift_bounds_nat_ivl [of ?g 0 c "k * n"] by (simp add: add.commute)
  also have "\<dots> = sum ?g {0..<k * n}" by (rule sum_window_period) (rule per)
  also have "\<dots> = card {i \<in> {0..<k * n}. i div k mod n = w}"
    by (simp add: sum.If_cases Int_def)
  also have "\<dots> = k" by (simp only: stripe_block [OF assms] card_atLeastLessThan add_diff_cancel_left')
  finally show ?thesis .
qed

section \<open>Properties\<close>

text \<open>C19: The duplication budget is a rate limit: over any sequence of calls up to time
  \<open>T\<close>, a budget created at \<open>t0\<close> grants at most the burst plus one duplicate per
  refill interval elapsed between \<open>t0\<close> and \<open>T\<close>.\<close>

theorem budget_rate_limit:
  assumes "\<forall>t \<in> set ts. t \<le> T"
  shows "grants (budget_new t0) ts \<le> DUPLICATE_BURST + (T - t0) div REFILL_INTERVAL"
  using grants_potential [OF assms, of "budget_new t0"] by (simp add: budget_new_def)

theorem budget_rate_limit_witness:
  "grants (budget_new 0) [5, 5, 5, 5, 5, 5, 5, 5, 5, 5, 5, 20000000, 20000001] = 11
   \<and> grants (budget_new 0) [5, 5, 5, 5, 5, 5, 5, 5, 5, 5, 5, 20000000, 20000001]
       \<le> DUPLICATE_BURST + 20000001 div REFILL_INTERVAL"
proof -
  have "grants (budget_new 0) [5, 5, 5, 5, 5, 5, 5, 5, 5, 5, 5, 20000000, 20000001] = 11"
    by (simp add: allow_def budget_new_def REFILL_INTERVAL_def DUPLICATES_PER_SECOND_def
        DUPLICATE_BURST_def u32_max_def Let_def)
  then show ?thesis
    using budget_rate_limit [of "[5, 5, 5, 5, 5, 5, 5, 5, 5, 5, 5, 20000000, 20000001]" 20000001 0]
    by simp
qed

text \<open>C26: Striping is fair: in every \<open>chunk * count\<close> consecutive selections of a class,
  from any cursor that does not wrap meanwhile, every one of the \<open>count\<close> workers is
  chosen exactly \<open>chunk\<close> times.\<close>

theorem striping_is_fair:
  assumes "w < count" "unat (fst (fetch_add cls s)) + stripe_chunk cls * count \<le> 2 ^ 64"
  shows "count_list (select_run count cls (stripe_chunk cls * count) s) w = stripe_chunk cls"
proof -
  have "0 < stripe_chunk cls" by (cases cls) auto
  moreover have "0 < count" using assms(1) by simp
  ultimately show ?thesis using assms by (simp only: select_run_slots stripe_count)
qed

theorem striping_is_fair_witness:
  "count_list (select_run 3 Bulk 6 (scheduler_new\<lparr>bulk_packet := 5\<rparr>)) 1 = 2"
  using striping_is_fair [of 1 3 Bulk "scheduler_new\<lparr>bulk_packet := 5\<rparr>"] by simp

text \<open>C39: The two packet parsers agree: whenever the duplication policy finds the
  transport header of a packet, the scheduler classifies the packet by the same
  protocol number, and the header it found is a suffix of the packet.\<close>

theorem parsers_agree_on_protocol:
  assumes "ipv4_transport packet = Some t \<or> ipv6_transport packet = Some t"
  shows "internet_transport packet = Some (protocol t) \<and>
         (\<exists>n \<le> length packet. 20 \<le> n \<and> tbytes t = drop n packet)"
  using assms
proof
  assume v4: "ipv4_transport packet = Some t"
  then have "internet_transport packet = Some (protocol t)"
    by (cases packet) (auto simp: ipv4_transport_def internet_transport_def Let_def split: if_splits)
  moreover from v4 have "20 \<le> unat ((packet ! 0) AND 0x0f) * 4" "unat ((packet ! 0) AND 0x0f) * 4 \<le> length packet"
      "tbytes t = drop (unat ((packet ! 0) AND 0x0f) * 4) packet"
    by (auto simp: ipv4_transport_def Let_def split: if_splits)
  ultimately show ?thesis by blast
next
  assume v6: "ipv6_transport packet = Some t"
  then obtain p off where walk: "ipv6_walk 8 packet (packet ! 6) 40 = Some (p, off)"
      and t: "t = \<lparr>protocol = p, tbytes = drop off packet\<rparr>"
      and len: "40 \<le> length packet" "drop_bit 4 (packet ! 0) = 6"
    by (auto simp: ipv6_transport_def split: if_splits option.splits)
  have "internet_transport packet = Some p"
    using sched_walk_agrees [OF walk] len
    by (cases packet) (auto simp: internet_transport_def sched_ipv6_transport_def)
  moreover have "40 \<le> off \<and> off \<le> length packet" using ipv6_walk_in_packet [OF walk len(1)] .
  ultimately show ?thesis using t by (intro conjI exI [of _ off]) auto
qed

theorem parsers_agree_on_protocol_witness:
  "ipv4_transport ([0x45, 0, 0, 28, 0, 0, 0, 0, 64, 17, 0, 0, 10, 0, 0, 1, 10, 0, 0, 2] @ [0, 53, 0, 1, 0, 8, 0, 0])
     = Some \<lparr>protocol = 17, tbytes = [0, 53, 0, 1, 0, 8, 0, 0]\<rparr>
   \<and> internet_transport ([0x45, 0, 0, 28, 0, 0, 0, 0, 64, 17, 0, 0, 10, 0, 0, 1, 10, 0, 0, 2] @ [0, 53, 0, 1, 0, 8, 0, 0])
     = Some 17"
proof -
  let ?p = "[0x45, 0, 0, 28, 0, 0, 0, 0, 64, 17, 0, 0, 10, 0, 0, 1, 10, 0, 0, 2] @ [0, 53, 0, 1, 0, 8, 0, 0] :: bytes"
  have v4: "ipv4_transport ?p = Some \<lparr>protocol = 17, tbytes = [0, 53, 0, 1, 0, 8, 0, 0]\<rparr>"
    by code_simp
  have "internet_transport ?p = Some (protocol \<lparr>protocol = 17, tbytes = [0, 53, 0, 1, 0, 8, 0, 0]\<rparr>)"
    using parsers_agree_on_protocol [OF disjI1 [OF v4]] by (rule conjunct1)
  then have "internet_transport ?p = Some 17" unfolding transport.select_convs .
  with v4 show ?thesis by (rule conjI)
qed

text \<open>Exactly the stream data frames may be repeated in both directions: a frame is
  repeatable by the client and by the server just when it carries stream bytes.\<close>

theorem only_data_frames_repeat_both_ways:
  "is_proxy_frame packet \<longleftrightarrow> is_client_duplicable_frame packet \<and> is_server_duplicable_frame packet"
  by (cases "get_at packet 6")
    (auto simp: is_proxy_frame_def is_client_duplicable_frame_def is_server_duplicable_frame_def
      word_le_nat_alt)

end
