(* ===== verification/Stream_Frames.thy ===== *)
theory Stream_Frames
  imports Prelude
begin

text \<open>
  The frames of the proxied TCP streams: the frame codec both sides share
  (\<open>src/rust-server/stream_proxy.rs\<close>, \<open>src/rust-client/stream_proxy.rs\<close>), the
  SOCKS5 handshake with which the client obtains a target, the server's target
  parser and its destination policy.

  A parsed host keeps the address bytes (or the domain name's bytes); its textual
  rendering, which the server hands to the resolver, is not modelled.
\<close>

unbundle bit_operations_syntax

section \<open>Frame codec\<close>

definition MAGIC :: bytes where
  "MAGIC = ascii ''CSQPX2''"

definition HEADER_LEN :: nat where
  "HEADER_LEN = length MAGIC + 1 + 8"

definition MAX_DATA :: nat where
  "MAX_DATA = 1280"

definition OPEN :: u8 where "OPEN = 1"
definition OPEN_OK :: u8 where "OPEN_OK = 2"
definition OPEN_ERR :: u8 where "OPEN_ERR = 3"
definition DATA :: u8 where "DATA = 4"
definition CLOSE :: u8 where "CLOSE = 5"
definition RESEND :: u8 where "RESEND = 6"

lemmas frame_kind_defs = OPEN_def OPEN_OK_def OPEN_ERR_def DATA_def CLOSE_def RESEND_def

record frame =
  fr_kind :: u8
  fr_stream_id :: u64
  fr_payload :: bytes

definition is_frame :: "bytes \<Rightarrow> bool" where
  "is_frame payload \<longleftrightarrow> length payload \<ge> HEADER_LEN \<and> starts_with payload MAGIC"

definition parse_frame :: "bytes \<Rightarrow> frame option" where
  "parse_frame payload =
     (if \<not> is_frame payload then None
      else Some \<lparr>fr_kind = payload ! 6,
                 fr_stream_id = from_be (take 8 (drop 7 payload)),
                 fr_payload = drop HEADER_LEN payload\<rparr>)"

definition encode_frame :: "u8 \<Rightarrow> u64 \<Rightarrow> bytes \<Rightarrow> bytes" where
  "encode_frame kind stream_id payload = MAGIC @ [kind] @ to_be stream_id @ payload"

definition frame_route :: "bytes \<Rightarrow> (u8 \<times> u64) option" where
  "frame_route payload = map_option (\<lambda>f. (fr_kind f, fr_stream_id f)) (parse_frame payload)"

section \<open>UTF-8\<close>

text \<open>The scalar values of a well-formed UTF-8 byte string, \<open>None\<close> for an
  ill-formed one.\<close>

definition cont :: "u8 \<Rightarrow> bool" where
  "cont b \<longleftrightarrow> b AND 0xc0 = 0x80"

definition low6 :: "u8 \<Rightarrow> nat" where
  "low6 b = unat (b AND 0x3f)"

fun utf8_decode :: "bytes \<Rightarrow> nat list option" where
  "utf8_decode [] = Some []"
| "utf8_decode (b # bs) =
     (if b < 0x80 then map_option ((#) (unat b)) (utf8_decode bs)
      else if 0xc2 \<le> b \<and> b \<le> 0xdf then
        (case bs of
           c # rest \<Rightarrow>
             if cont c then map_option ((#) (unat (b AND 0x1f) * 64 + low6 c)) (utf8_decode rest) else None
         | _ \<Rightarrow> None)
      else if 0xe0 \<le> b \<and> b \<le> 0xef then
        (case bs of
           c # d # rest \<Rightarrow>
             if cont c \<and> cont d \<and> (b = 0xe0 \<longrightarrow> c \<ge> 0xa0) \<and> (b = 0xed \<longrightarrow> c < 0xa0)
             then map_option ((#) (unat (b AND 0x0f) * 4096 + low6 c * 64 + low6 d)) (utf8_decode rest)
             else None
         | _ \<Rightarrow> None)
      else if 0xf0 \<le> b \<and> b \<le> 0xf4 then
        (case bs of
           c # d # e # rest \<Rightarrow>
             if cont c \<and> cont d \<and> cont e \<and> (b = 0xf0 \<longrightarrow> c \<ge> 0x90) \<and> (b = 0xf4 \<longrightarrow> c < 0x90)
             then map_option ((#) (unat (b AND 0x07) * 262144 + low6 c * 4096 + low6 d * 64 + low6 e))
                    (utf8_decode rest)
             else None
         | _ \<Rightarrow> None)
      else None)"

text \<open>\<open>char::is_control\<close>: the general category Cc.\<close>

definition is_control_char :: "nat \<Rightarrow> bool" where
  "is_control_char c \<longleftrightarrow> c < 0x20 \<or> 0x7f \<le> c \<and> c < 0xa0"

section \<open>Targets\<close>

datatype target_error =
    MissingAddressType
  | InvalidDomain
  | InvalidUtf8
  | UnsupportedAddress
  | InvalidPort

datatype host = HostV4 bytes | HostV6 bytes | HostName bytes

definition parse_target :: "bytes \<Rightarrow> target_error + (host \<times> u16)" where
  "parse_target payload =
     (case payload of
        [] \<Rightarrow> Inl MissingAddressType
      | kind # rest \<Rightarrow>
          (case (if kind = 1 \<and> length rest = 6 then Inr (HostV4 (take 4 rest), drop 4 rest)
                 else if kind = 4 \<and> length rest = 18 then Inr (HostV6 (take 16 rest), drop 16 rest)
                 else if kind = 3 \<and> rest \<noteq> [] then
                   (let len = unat (rest ! 0)
                    in if len = 0 \<or> length rest \<noteq> 1 + len + 2 then Inl InvalidDomain
                       else let name = take len (drop 1 rest)
                            in case utf8_decode name of
                                 None \<Rightarrow> Inl InvalidUtf8
                               | Some cs \<Rightarrow>
                                   if list_ex is_control_char cs then Inl InvalidDomain
                                   else Inr (HostName name, drop (1 + len) rest))
                 else Inl UnsupportedAddress) of
             Inl e \<Rightarrow> Inl e
           | Inr (h, port_bytes) \<Rightarrow>
               let port = (from_be port_bytes :: u16)
               in if port = 0 then Inl InvalidPort else Inr (h, port)))"

section \<open>Destination policy\<close>

datatype ip_addr = V4 u8 u8 u8 u8 | V6 "u16 list"

definition v4_unspecified :: "u8 \<Rightarrow> u8 \<Rightarrow> u8 \<Rightarrow> u8 \<Rightarrow> bool" where
  "v4_unspecified a b c d \<longleftrightarrow> [a, b, c, d] = [0, 0, 0, 0]"

definition v4_loopback :: "u8 \<Rightarrow> bool" where
  "v4_loopback a \<longleftrightarrow> a = 127"

definition v4_multicast :: "u8 \<Rightarrow> bool" where
  "v4_multicast a \<longleftrightarrow> 224 \<le> a \<and> a \<le> 239"

definition v4_link_local :: "u8 \<Rightarrow> u8 \<Rightarrow> bool" where
  "v4_link_local a b \<longleftrightarrow> a = 169 \<and> b = 254"

definition v4_private :: "u8 \<Rightarrow> u8 \<Rightarrow> bool" where
  "v4_private a b \<longleftrightarrow> a = 10 \<or> a = 172 \<and> 16 \<le> b \<and> b \<le> 31 \<or> a = 192 \<and> b = 168"

definition allowed_v4 :: "u8 \<Rightarrow> u8 \<Rightarrow> u8 \<Rightarrow> u8 \<Rightarrow> bool \<Rightarrow> bool" where
  "allowed_v4 a b c d allow_private \<longleftrightarrow>
     \<not> v4_unspecified a b c d \<and> \<not> v4_loopback a \<and> \<not> v4_multicast a \<and>
     [a, b, c, d] \<noteq> [255, 255, 255, 255] \<and>
     (allow_private \<or> \<not> v4_link_local a b \<and> \<not> v4_private a b)"

definition to_ipv4_mapped :: "u16 list \<Rightarrow> (u8 \<times> u8 \<times> u8 \<times> u8) option" where
  "to_ipv4_mapped s =
     (if take 6 s = [0, 0, 0, 0, 0, 0xffff]
      then Some (ucast (drop_bit 8 (s ! 6)), ucast (s ! 6), ucast (drop_bit 8 (s ! 7)), ucast (s ! 7))
      else None)"

fun allowed_destination :: "ip_addr \<Rightarrow> bool \<Rightarrow> bool" where
  "allowed_destination (V4 a b c d) allow_private = allowed_v4 a b c d allow_private"
| "allowed_destination (V6 s) allow_private =
     (case to_ipv4_mapped s of
        Some (a, b, c, d) \<Rightarrow> allowed_v4 a b c d allow_private
      | None \<Rightarrow>
          let link_local = ((s ! 0) AND 0xffc0 = 0xfe80);
              unique_local = ((s ! 0) AND 0xfe00 = 0xfc00)
          in s \<noteq> [0, 0, 0, 0, 0, 0, 0, 0] \<and> s \<noteq> [0, 0, 0, 0, 0, 0, 0, 1] \<and>
             (s ! 0) AND 0xff00 \<noteq> 0xff00 \<and>
             (allow_private \<or> \<not> (link_local \<or> unique_local)))"

text \<open>The resolver's addresses are an argument; \<open>None\<close> stands for a lookup
  failure or timeout.\<close>

definition resolve_target :: "ip_addr list option \<Rightarrow> bool \<Rightarrow> ip_addr option" where
  "resolve_target addresses allow_private =
     (case addresses of
        None \<Rightarrow> None
      | Some as \<Rightarrow> List.find (\<lambda>a. allowed_destination a allow_private) as)"

section \<open>SOCKS5 handshake\<close>

datatype handshake_error =
    ShortRead
  | InvalidGreeting
  | NoAuthUnsupported
  | OnlyConnect
  | EmptyDomain
  | UnsupportedAddressType

definition write_reply :: "u8 \<Rightarrow> bytes" where
  "write_reply code = [5, code, 0, 1, 0, 0, 0, 0, 0, 0]"

definition read_exact :: "nat \<Rightarrow> bytes \<Rightarrow> (bytes \<times> bytes) option" where
  "read_exact n inp = (if n \<le> length inp then Some (take n inp, drop n inp) else None)"

definition read_address :: "u8 \<Rightarrow> bytes \<Rightarrow> bytes \<times> (handshake_error + bytes)" where
  "read_address kind inp =
     (if kind = 1 then
        (case read_exact 6 inp of None \<Rightarrow> ([], Inl ShortRead) | Some (rest, _) \<Rightarrow> ([], Inr ([kind] @ rest)))
      else if kind = 4 then
        (case read_exact 18 inp of None \<Rightarrow> ([], Inl ShortRead) | Some (rest, _) \<Rightarrow> ([], Inr ([kind] @ rest)))
      else if kind = 3 then
        (case read_exact 1 inp of
           None \<Rightarrow> ([], Inl ShortRead)
         | Some (l, inp') \<Rightarrow>
             let len = unat (l ! 0)
             in if len = 0 then ([], Inl EmptyDomain)
                else case read_exact (len + 2) inp' of
                       None \<Rightarrow> ([], Inl ShortRead)
                     | Some (rest, _) \<Rightarrow> ([], Inr ([kind] @ [l ! 0] @ rest)))
      else (write_reply 8, Inl UnsupportedAddressType))"

text \<open>The handshake over the bytes the caller sends; the first component of the
  result is what is written back.\<close>

definition read_handshake :: "bytes \<Rightarrow> bytes \<times> (handshake_error + bytes)" where
  "read_handshake inp =
     (case read_exact 2 inp of
        None \<Rightarrow> ([], Inl ShortRead)
      | Some (greeting, inp1) \<Rightarrow>
          if greeting ! 0 \<noteq> 5 \<or> greeting ! 1 = 0 then ([], Inl InvalidGreeting)
          else case read_exact (unat (greeting ! 1)) inp1 of
                 None \<Rightarrow> ([], Inl ShortRead)
               | Some (methods, inp2) \<Rightarrow>
                   if 0 \<notin> set methods then ([5, 0xff], Inl NoAuthUnsupported)
                   else case read_exact 4 inp2 of
                          None \<Rightarrow> ([5, 0], Inl ShortRead)
                        | Some (request, inp3) \<Rightarrow>
                            if request ! 0 \<noteq> 5 \<or> request ! 1 \<noteq> 1 \<or> request ! 2 \<noteq> 0
                            then ([5, 0] @ write_reply 7, Inl OnlyConnect)
                            else map_prod (\<lambda>w. [5, 0] @ w) id (read_address (request ! 3) inp3))"

section \<open>Lemmas\<close>

definition frame_bytes :: "frame \<Rightarrow> bytes" where
  "frame_bytes f = encode_frame (fr_kind f) (fr_stream_id f) (fr_payload f)"

lemma length_MAGIC [simp]: "length MAGIC = 6"
  by (simp add: MAGIC_def)

lemma HEADER_LEN_15 [simp]: "HEADER_LEN = 15"
  by (simp add: HEADER_LEN_def)

lemma length_encode_frame [simp]: "length (encode_frame k i p) = 15 + length p"
  by (simp add: encode_frame_def)

lemma parse_encode_frame [simp]:
  "parse_frame (encode_frame k i p) = Some \<lparr>fr_kind = k, fr_stream_id = i, fr_payload = p\<rparr>"
  by (simp add: parse_frame_def is_frame_def encode_frame_def nth_append)

lemma encode_parse_frame:
  assumes "parse_frame bs = Some f"
  shows "frame_bytes f = bs"
proof -
  have len: "15 \<le> length bs" and "take 6 bs = MAGIC"
    and f: "f = \<lparr>fr_kind = bs ! 6, fr_stream_id = from_be (take 8 (drop 7 bs)), fr_payload = drop 15 bs\<rparr>"
    using assms by (auto simp: parse_frame_def is_frame_def starts_with_def split: if_splits)
  have "frame_bytes f = MAGIC @ bs ! 6 # take 8 (drop 7 bs) @ drop 15 bs"
  proof -
    have "to_be (from_be (take 8 (drop 7 bs)) :: u64) = take 8 (drop 7 bs)"
      using len by (intro to_be_from_be) simp
    then show ?thesis by (simp add: f frame_bytes_def encode_frame_def)
  qed
  also have "take 8 (drop 7 bs) @ drop 15 bs = drop 7 bs"
    using append_take_drop_id [of 8 "drop 7 bs"] by simp
  also have "bs ! 6 # drop 7 bs = drop 6 bs"
    using len Cons_nth_drop_Suc [of 6 bs] by simp
  also have "MAGIC @ drop 6 bs = bs"
    using \<open>take 6 bs = MAGIC\<close> append_take_drop_id [of 6 bs] by simp
  finally show ?thesis .
qed

interpretation frame_codec: canonical_codec frame_bytes parse_frame "\<lambda>_. True"
  by unfold_locales (simp_all add: frame_bytes_def encode_parse_frame [unfolded frame_bytes_def])

lemma read_exact_Some: "read_exact n inp = Some (a, b) \<longleftrightarrow> n \<le> length inp \<and> a = take n inp \<and> b = drop n inp"
  by (auto simp: read_exact_def)

lemma read_address_target:
  assumes "read_address kind inp = (w, Inr target)"
  shows "w = [] \<and> length target \<le> 259 \<and>
         (case parse_target target of
            Inr _ \<Rightarrow> True
          | Inl e \<Rightarrow> e = InvalidPort \<or> kind = 3 \<and> (e = InvalidDomain \<or> e = InvalidUtf8))"
proof -
  consider "kind = 1" | "kind = 4" | "kind = 3" | "kind \<notin> {1, 3, 4}" by auto
  then show ?thesis
  proof cases
    case 3
    with assms obtain l rest where t: "target = [3, l] @ rest" "length rest = unat l + 2" "w = []" "unat l \<noteq> 0"
      by (auto simp: read_address_def read_exact_Some Let_def split: option.splits if_splits)
    then show ?thesis using 3 unat_lt2p [of l]
      by (auto simp: parse_target_def Let_def split: option.splits if_splits)
  qed (use assms in \<open>auto simp: read_address_def read_exact_Some parse_target_def Let_def
        split: option.splits if_splits\<close>)
qed

definition addr_num :: "u8 \<Rightarrow> u8 \<Rightarrow> u8 \<Rightarrow> u8 \<Rightarrow> nat" where
  "addr_num a b c d = be_nat [a, b, c, d]"

lemma addr_num_expand: "addr_num a b c d = ((unat a * 256 + unat b) * 256 + unat c) * 256 + unat d"
  by (simp add: addr_num_def be_nat_def)

lemma octet_bound: "unat (x :: u8) < 256"
  using unat_lt2p [of x] by simp

lemma split_be16:
  "ucast (drop_bit 8 (from_be [a, b] :: u16)) = a" "ucast (from_be [a, b] :: u16) = b"
proof -
  have n: "unat (from_be [a, b] :: u16) = unat a * 256 + unat b"
    using octet_bound [of a] octet_bound [of b] be_nat_bound [of "[a, b]"]
    by (simp only: from_be_def unat_of_nat) (simp add: be_nat_def)
  show "ucast (drop_bit 8 (from_be [a, b] :: u16)) = a"
    using octet_bound [of a] octet_bound [of b]
    by (simp add: word_unat_eq_iff unsigned_ucast_eq unat_div_distrib take_bit_eq_mod drop_bit_eq_div n)
  show "ucast (from_be [a, b] :: u16) = b"
    using octet_bound [of a] octet_bound [of b] 
    by (simp add: word_unat_eq_iff unsigned_ucast_eq take_bit_eq_mod n)
qed

lemma allowed_v4_nat:
  "allowed_v4 a b c d False \<longleftrightarrow>
     \<not> (unat a = 0 \<and> unat b = 0 \<and> unat c = 0 \<and> unat d = 0) \<and> unat a \<noteq> 127 \<and>
     \<not> (224 \<le> unat a \<and> unat a \<le> 239) \<and>
     \<not> (unat a = 255 \<and> unat b = 255 \<and> unat c = 255 \<and> unat d = 255) \<and>
     \<not> (unat a = 169 \<and> unat b = 254) \<and>
     \<not> (unat a = 10 \<or> unat a = 172 \<and> 16 \<le> unat b \<and> unat b \<le> 31 \<or> unat a = 192 \<and> unat b = 168)"
  by (simp add: allowed_v4_def v4_unspecified_def v4_loopback_def v4_multicast_def v4_link_local_def
      v4_private_def word_unat_eq_iff word_le_nat_alt)

lemma addr_ranges:
  assumes "A < 256" "B < 256" "C < 256" "D < (256 :: nat)"
  defines "N \<equiv> ((A * 256 + B) * 256 + C) * 256 + D"
  shows "N = 0 \<longleftrightarrow> A = 0 \<and> B = 0 \<and> C = 0 \<and> D = 0"
    "0x0a000000 \<le> N \<and> N \<le> 0x0affffff \<longleftrightarrow> A = 10"
    "0x7f000000 \<le> N \<and> N \<le> 0x7fffffff \<longleftrightarrow> A = 127"
    "0xa9fe0000 \<le> N \<and> N \<le> 0xa9feffff \<longleftrightarrow> A = 169 \<and> B = 254"
    "0xac100000 \<le> N \<and> N \<le> 0xac1fffff \<longleftrightarrow> A = 172 \<and> 16 \<le> B \<and> B \<le> 31"
    "0xc0a80000 \<le> N \<and> N \<le> 0xc0a8ffff \<longleftrightarrow> A = 192 \<and> B = 168"
    "0xe0000000 \<le> N \<and> N \<le> 0xefffffff \<longleftrightarrow> 224 \<le> A \<and> A \<le> 239"
    "N = 0xffffffff \<longleftrightarrow> A = 255 \<and> B = 255 \<and> C = 255 \<and> D = 255"
proof -
  have A: "lo * 16777216 \<le> N \<and> N < (hi + 1) * 16777216 \<longleftrightarrow> lo \<le> A \<and> A \<le> hi" for lo hi
    using assms(2-4) unfolding N_def by auto
  have B: "k * 16777216 + lo * 65536 \<le> N \<and> N < k * 16777216 + (hi + 1) * 65536 \<longleftrightarrow> A = k \<and> lo \<le> B \<and> B \<le> hi"
    if "hi < 256" for k lo hi
  proof (cases "A = k")
    case True
    then show ?thesis using assms(3,4) unfolding N_def by auto
  next
    case False
    then show ?thesis using assms(2-4) that unfolding N_def by auto
  qed
  show "0x0a000000 \<le> N \<and> N \<le> 0x0affffff \<longleftrightarrow> A = 10" using A [of 10 10] by auto
  show "0x7f000000 \<le> N \<and> N \<le> 0x7fffffff \<longleftrightarrow> A = 127" using A [of 127 127] by auto
  show "0xe0000000 \<le> N \<and> N \<le> 0xefffffff \<longleftrightarrow> 224 \<le> A \<and> A \<le> 239" using A [of 224 239] by auto
  show "0xa9fe0000 \<le> N \<and> N \<le> 0xa9feffff \<longleftrightarrow> A = 169 \<and> B = 254" using B [of 254 169 254] by auto
  show "0xac100000 \<le> N \<and> N \<le> 0xac1fffff \<longleftrightarrow> A = 172 \<and> 16 \<le> B \<and> B \<le> 31" using B [of 31 172 16] by auto
  show "0xc0a80000 \<le> N \<and> N \<le> 0xc0a8ffff \<longleftrightarrow> A = 192 \<and> B = 168" using B [of 168 192 168] by auto
  show "N = 0 \<longleftrightarrow> A = 0 \<and> B = 0 \<and> C = 0 \<and> D = 0" unfolding N_def by auto
  show "N = 0xffffffff \<longleftrightarrow> A = 255 \<and> B = 255 \<and> C = 255 \<and> D = 255"
  proof
    assume N: "N = 0xffffffff"
    then have "A = 255 \<and> B = 255" using B [of 255 255 255] by auto
    then show "A = 255 \<and> B = 255 \<and> C = 255 \<and> D = 255" using N assms(3,4)
      unfolding N_def by (clarsimp, presburger)
  qed (simp add: N_def)
qed

section \<open>Properties\<close>

text \<open>The frame codec is canonical: a byte string parses as a frame exactly when it
  is the encoding of that frame, so encoding and parsing are inverse and no other
  byte string is accepted.\<close>

theorem frame_codec_canonical:
  "parse_frame bs = Some f \<longleftrightarrow> bs = encode_frame (fr_kind f) (fr_stream_id f) (fr_payload f)"
  using frame_codec.dec_iff by (simp add: frame_bytes_def)

text \<open>Client and server agree on targets: a target the SOCKS5 handshake accepts
  has been answered with the no-authentication reply only, fits in one frame, and the
  server's parser refuses it only for port zero or for a domain name that is not
  well-formed text without control characters.\<close>

theorem handshake_target_parses:
  assumes "read_handshake inp = (w, Inr target)"
  shows "w = [5, 0] \<and> length target \<le> MAX_DATA \<and>
         (case parse_target target of
            Inr _ \<Rightarrow> True
          | Inl e \<Rightarrow> e = InvalidPort \<or> e = InvalidDomain \<or> e = InvalidUtf8)"
proof -
  from assms obtain kind inp' w' where "read_address kind inp' = (w', Inr target)" "w = [5, 0] @ w'"
    by (auto simp: read_handshake_def map_prod_def split: option.splits if_splits prod.splits)
  then show ?thesis using read_address_target [of kind inp' w' target]
    by (auto simp: MAX_DATA_def split: sum.splits)
qed

theorem handshake_target_parses_witness:
  "read_handshake [5, 1, 0, 5, 1, 0, 3, 1, 97, 0, 80] = ([5, 0], Inr [3, 1, 97, 0, 80])
   \<and> length ([3, 1, 97, 0, 80] :: bytes) \<le> MAX_DATA"
proof -
  have run: "read_handshake [5, 1, 0, 5, 1, 0, 3, 1, 97, 0, 80] = ([5, 0], Inr [3, 1, 97, 0, 80])"
    by (simp add: read_handshake_def read_exact_def read_address_def Let_def)
  show ?thesis using handshake_target_parses [OF run] run by blast
qed

text \<open>Without the operator's permission for private ranges the server dials an
  IPv4 destination exactly when it is outside the unspecified, private, loopback,
  link-local, multicast and broadcast ranges, written as intervals of 32-bit
  addresses; and the IPv6-mapped form of an IPv4 address is treated alike.\<close>

theorem destination_policy:
  "(allowed_destination (V4 a b c d) False \<longleftrightarrow>
      addr_num a b c d \<notin> {0} \<union> {0x0a000000..0x0affffff} \<union> {0x7f000000..0x7fffffff}
        \<union> {0xa9fe0000..0xa9feffff} \<union> {0xac100000..0xac1fffff} \<union> {0xc0a80000..0xc0a8ffff}
        \<union> {0xe0000000..0xefffffff} \<union> {0xffffffff})
   \<and> allowed_destination (V6 [0, 0, 0, 0, 0, 0xffff, from_be [a, b], from_be [c, d]]) p
       = allowed_destination (V4 a b c d) p"
proof (intro conjI)
  show "allowed_destination (V4 a b c d) False \<longleftrightarrow>
      addr_num a b c d \<notin> {0} \<union> {0x0a000000..0x0affffff} \<union> {0x7f000000..0x7fffffff}
        \<union> {0xa9fe0000..0xa9feffff} \<union> {0xac100000..0xac1fffff} \<union> {0xc0a80000..0xc0a8ffff}
        \<union> {0xe0000000..0xefffffff} \<union> {0xffffffff}"
    using addr_ranges [OF octet_bound octet_bound octet_bound octet_bound, of a b c d]
    by (simp only: allowed_destination.simps allowed_v4_nat addr_num_expand Un_iff atLeastAtMost_iff
        insert_iff empty_iff) blast
  show "allowed_destination (V6 [0, 0, 0, 0, 0, 0xffff, from_be [a, b], from_be [c, d]]) p
       = allowed_destination (V4 a b c d) p"
    by (simp add: to_ipv4_mapped_def split_be16)
qed

end
