(* ===== verification/Stream_Server.thy ===== *)
theory Stream_Server
  imports Proxy_Sequence Stream_Frames
begin

text \<open>
  The server side of the proxied streams (\<open>src/rust-server/stream_proxy.rs\<close>):
  the table of live streams with its frame handler, and the task that serves one
  stream.

  The table is an association list from (session, stream) to the content of the
  stream's input channel, which holds 64 entries. Whether the command queue of the
  protocol engine accepts a frame, the bytes read from the target, the success of
  writes and the clock are arguments. Times are in milliseconds.
\<close>

section \<open>Stream table\<close>

definition MAX_GLOBAL_STREAMS :: nat where
  "MAX_GLOBAL_STREAMS = 1024"

definition MAX_SESSION_STREAMS :: nat where
  "MAX_SESSION_STREAMS = 256"

definition CHANNEL_CAPACITY :: nat where
  "CHANNEL_CAPACITY = 64"

datatype stream_input = InData bytes | InResend u64 | InClose

type_synonym stream_key = "u64 \<times> u64"
type_synonym stream_table = "(stream_key \<times> stream_input list) list"

text \<open>Effects: a frame handed to the protocol engine, a stream task started, and a
  channel whose sender is gone with the input its task will still drain.\<close>

datatype server_effect =
    SendPlain u64 bytes
  | SpawnStream stream_key "host \<times> u16"
  | Detached stream_key "stream_input list"

datatype handle_error = InvalidFrame | DataTooLarge | CommandQueueFull

text \<open>\<open>try_send\<close> on a bounded channel: \<open>None\<close> when it is full.\<close>

definition try_send :: "stream_input \<Rightarrow> stream_input list \<Rightarrow> stream_input list option" where
  "try_send x q = (if length q < CHANNEL_CAPACITY then Some (q @ [x]) else None)"

definition send_frame :: "bool \<Rightarrow> u64 \<Rightarrow> bytes \<Rightarrow> server_effect list \<times> (handle_error + unit)" where
  "send_frame accepted session_id fr =
     (if accepted then ([SendPlain session_id fr], Inr ()) else ([], Inl CommandQueueFull))"

text \<open>Deliver an input to a stream; a stream whose channel is full is removed, and
  keeps only what was queued before.\<close>

definition deliver :: "stream_table \<Rightarrow> stream_key \<Rightarrow> stream_input \<Rightarrow> stream_table \<times> server_effect list" where
  "deliver streams key x =
     (case map_of streams key of
        None \<Rightarrow> (streams, [])
      | Some q \<Rightarrow>
          (case try_send x q of
             Some q' \<Rightarrow> (AList.update key q' streams, [])
           | None \<Rightarrow> (AList.delete key streams, [Detached key q])))"

definition enqueue_data :: "stream_table \<Rightarrow> stream_key \<Rightarrow> bytes \<Rightarrow> stream_table \<times> server_effect list" where
  "enqueue_data streams key bs = deliver streams key (InData bs)"

text \<open>Remove a stream and tell its task to close, if the channel has room.\<close>

definition remove_stream :: "stream_table \<Rightarrow> stream_key \<Rightarrow> stream_table \<times> server_effect list" where
  "remove_stream streams key =
     (case map_of streams key of
        None \<Rightarrow> (streams, [])
      | Some q \<Rightarrow>
          (AList.delete key streams,
           [Detached key (case try_send InClose q of Some q' \<Rightarrow> q' | None \<Rightarrow> q)]))"

definition session_count :: "stream_table \<Rightarrow> u64 \<Rightarrow> nat" where
  "session_count streams session_id = length (filter (\<lambda>(k, _). fst k = session_id) streams)"

definition handle_frame ::
  "bool \<Rightarrow> stream_table \<Rightarrow> u64 \<Rightarrow> bytes \<Rightarrow> stream_table \<times> server_effect list \<times> (handle_error + unit)" where
  "handle_frame accepted streams session_id payload =
     (case parse_frame payload of
        None \<Rightarrow> (streams, [], Inl InvalidFrame)
      | Some fr \<Rightarrow>
          let key = (session_id, fr_stream_id fr)
          in if fr_kind fr = OPEN then
               (if map_of streams key \<noteq> None then (streams, [], Inr ())
                else if length streams \<ge> MAX_GLOBAL_STREAMS \<or>
                        session_count streams session_id \<ge> MAX_SESSION_STREAMS then
                  (streams, send_frame accepted session_id (encode_frame OPEN_ERR (fr_stream_id fr) [1]))
                else case parse_target (fr_payload fr) of
                       Inl _ \<Rightarrow>
                         (streams, send_frame accepted session_id (encode_frame OPEN_ERR (fr_stream_id fr) [8]))
                     | Inr target \<Rightarrow> ((key, []) # streams, [SpawnStream key target], Inr ()))
             else if fr_kind fr = DATA then
               (if length (fr_payload fr) > MAX_DATA + 8 then (streams, [], Inl DataTooLarge)
                else case enqueue_data streams key (fr_payload fr) of
                       (streams', overflow) \<Rightarrow>
                         if overflow \<noteq> []
                         then (streams', map_prod ((@) overflow) id
                                (send_frame accepted session_id (encode_frame CLOSE (fr_stream_id fr) [])))
                         else (streams', [], Inr ()))
             else if fr_kind fr = CLOSE then
               (case remove_stream streams key of (streams', gone) \<Rightarrow> (streams', gone, Inr ()))
             else if fr_kind fr = RESEND then
               (if length (fr_payload fr) \<noteq> 8 then (streams, [], Inr ())
                else case deliver streams key (InResend (from_be (fr_payload fr))) of
                       (streams', gone) \<Rightarrow> (streams', gone, Inr ()))
             else (streams, [], Inr ()))"

definition close_session :: "stream_table \<Rightarrow> u64 \<Rightarrow> stream_table \<times> server_effect list" where
  "close_session streams session_id =
     (let keys = map fst (filter (\<lambda>(k, _). fst k = session_id) streams)
      in fold (\<lambda>key (t, gone). case remove_stream t key of (t', g) \<Rightarrow> (t', gone @ g)) keys (streams, []))"

section \<open>One stream\<close>

definition DATA_HOLE_PATIENCE :: nat where
  "DATA_HOLE_PATIENCE = 6000"

definition DATA_QUIET_TIMEOUT :: nat where
  "DATA_QUIET_TIMEOUT = 60000"

definition RESEND_BUFFER_BYTES :: nat where
  "RESEND_BUFFER_BYTES = 128 * 1024"

definition RESEND_MAX_FRAMES :: nat where
  "RESEND_MAX_FRAMES = 128"

definition resend_range :: "u64 \<Rightarrow> u64 \<Rightarrow> u64 \<Rightarrow> nat option" where
  "resend_range out_tail_len out_total offset =
     (let oldest = saturating_sub out_total out_tail_len
      in if offset < oldest \<or> offset \<ge> out_total then None
         else let start = unat (offset - oldest)
              in if start > unat out_tail_len then None else Some start)"

text \<open>The replay loop: the payloads of at most \<open>n\<close> frames that cover the slice from
  the cursor on.\<close>

fun resend_payloads :: "nat \<Rightarrow> u64 \<Rightarrow> bytes \<Rightarrow> bytes list" where
  "resend_payloads 0 cursor rest = []"
| "resend_payloads (Suc n) cursor rest =
     (if rest = [] then []
      else let tk = min (length rest) MAX_DATA
           in encode_at cursor (take tk rest)
                # resend_payloads n (cursor + word_of_nat tk) (drop tk rest))"

record server_stream =
  sv_sent :: stream_sequence
  sv_received :: reorder_receiver
  sv_out_tail :: bytes
  sv_hole_deadline :: "nat option"
  sv_last_activity :: nat

definition server_stream_new :: "nat \<Rightarrow> server_stream" where
  "server_stream_new now =
     \<lparr>sv_sent = \<lparr>ss_offset = 0\<rparr>, sv_received = reorder_new, sv_out_tail = [],
      sv_hole_deadline = None, sv_last_activity = now\<rparr>"

text \<open>What wakes the \<open>select!\<close>: a read from the target (\<open>TargetRead []\<close> is end of
  stream), a read error, an input, the end of the input channel, or the stall
  timer.\<close>

datatype stream_event =
    TargetRead bytes
  | TargetError
  | Input stream_input
  | InputClosed
  | StallTimer

datatype stream_outcome = Running | CleanEnd | FailedEnd

record stream_step_result =
  rs_state :: server_stream
  rs_payloads :: "bytes list"
  rs_written :: bytes
  rs_outcome :: stream_outcome

definition refresh_hole :: "nat \<Rightarrow> server_stream \<Rightarrow> server_stream" where
  "refresh_hole now st =
     (if is_waiting (sv_received st) then
        (if sv_hole_deadline st = None
         then st\<lparr>sv_hole_deadline := Some (now + DATA_HOLE_PATIENCE)\<rparr> else st)
      else st\<lparr>sv_hole_deadline := None\<rparr>)"

definition stall_due :: "server_stream \<Rightarrow> nat" where
  "stall_due st =
     (let quiet_due = sv_last_activity st + DATA_QUIET_TIMEOUT
      in case sv_hole_deadline st of Some hole_due \<Rightarrow> min quiet_due hole_due | None \<Rightarrow> quiet_due)"

definition keep_tail :: "bytes \<Rightarrow> bytes \<Rightarrow> bytes" where
  "keep_tail old plaintext =
     (let out_tail = old @ plaintext;
          overflow = length out_tail - RESEND_BUFFER_BYTES
      in if overflow > 0 then drop (min overflow (length out_tail)) out_tail else out_tail)"

text \<open>One iteration of the loop. \<open>io\<close> is the number of sends or writes that succeed
  before one fails.\<close>

definition server_stream_step :: "nat \<Rightarrow> nat \<Rightarrow> stream_event \<Rightarrow> server_stream \<Rightarrow> stream_step_result" where
  "server_stream_step now io ev st0 =
     (let st = refresh_hole now st0;
          stop = (\<lambda>st out. \<lparr>rs_state = st, rs_payloads = [], rs_written = [], rs_outcome = out\<rparr>)
      in case ev of
           TargetRead plaintext \<Rightarrow>
             if plaintext = [] then stop st CleanEnd
             else let st1 = st\<lparr>sv_last_activity := now, sv_out_tail := keep_tail (sv_out_tail st) plaintext\<rparr>
                  in (case ss_encode (sv_sent st1) plaintext of
                        Inl _ \<Rightarrow> stop st1 FailedEnd
                      | Inr (payload, sent') \<Rightarrow>
                          let st2 = st1\<lparr>sv_sent := sent'\<rparr>
                          in if io \<ge> 1
                             then \<lparr>rs_state = st2, rs_payloads = [payload], rs_written = [], rs_outcome = Running\<rparr>
                             else stop st2 FailedEnd)
         | TargetError \<Rightarrow> stop st FailedEnd
         | Input (InData bs) \<Rightarrow>
             let st1 = st\<lparr>sv_last_activity := now\<rparr>
             in (case push (sv_received st1) bs of
                   (r, Inl _) \<Rightarrow> stop (st1\<lparr>sv_received := r\<rparr>) FailedEnd
                 | (r, Inr None) \<Rightarrow> stop (st1\<lparr>sv_received := r\<rparr>) Running
                 | (r, Inr (Some decoded)) \<Rightarrow>
                     if io \<ge> 1
                     then \<lparr>rs_state = st1\<lparr>sv_received := r\<rparr>, rs_payloads = [], rs_written = decoded,
                           rs_outcome = Running\<rparr>
                     else stop (st1\<lparr>sv_received := r\<rparr>) FailedEnd)
         | Input (InResend offset) \<Rightarrow>
             (case resend_range (word_of_nat (length (sv_out_tail st))) (ss_offset (sv_sent st)) offset of
                None \<Rightarrow> stop st Running
              | Some start \<Rightarrow>
                  let payloads = resend_payloads RESEND_MAX_FRAMES offset (drop start (sv_out_tail st))
                  in if io \<ge> length payloads
                     then \<lparr>rs_state = st\<lparr>sv_last_activity := now\<rparr>, rs_payloads = payloads, rs_written = [],
                           rs_outcome = Running\<rparr>
                     else \<lparr>rs_state = st, rs_payloads = take io payloads, rs_written = [],
                           rs_outcome = FailedEnd\<rparr>)
         | Input InClose \<Rightarrow> stop st CleanEnd
         | InputClosed \<Rightarrow> stop st CleanEnd
         | StallTimer \<Rightarrow> stop st FailedEnd)"

text \<open>The frames that end a stream: an error frame first when it failed, then the
  close frame.\<close>

definition end_frames :: "stream_outcome \<Rightarrow> u64 \<Rightarrow> bytes list" where
  "end_frames out stream_id =
     (if out = FailedEnd then [encode_frame OPEN_ERR stream_id [5]] else []) @ [encode_frame CLOSE stream_id []]"

text \<open>The task over the events of its life: the DATA payloads it sends and the bytes it
  writes to the target until it ends.\<close>

fun run_stream :: "(nat \<times> nat \<times> stream_event) list \<Rightarrow> server_stream \<Rightarrow> bytes list \<times> bytes \<times> stream_outcome" where
  "run_stream [] st = ([], [], Running)"
| "run_stream ((now, io, ev) # evs) st =
     (let r = server_stream_step now io ev st
      in if rs_outcome r = Running then
           (case run_stream evs (rs_state r) of
              (ps, ws, out) \<Rightarrow> (rs_payloads r @ ps, rs_written r @ ws, out))
         else (rs_payloads r, rs_written r, rs_outcome r))"

section \<open>Table invariant\<close>







lemma remove_stream_table: "fst (remove_stream t k) = AList.delete k t"
proof (cases "map_of t k")
  case None
  then have "AList.delete k t = t" by (simp add: delete_id map_of_eq_None_iff)
  then show ?thesis using None by (simp add: remove_stream_def)
qed (simp add: remove_stream_def)


section \<open>Table lookups\<close>

lemma map_of_deliver_other: "k' \<noteq> k \<Longrightarrow> map_of (fst (deliver t k x)) k' = map_of t k'"
  by (auto simp: deliver_def update_conv' delete_conv' split: option.split)

lemma handle_frame_table:
  assumes "parse_frame p = Some fr"
  shows "fst (handle_frame acc t sid p) \<in>
           {t, ((sid, fr_stream_id fr), []) # t, AList.delete (sid, fr_stream_id fr) t,
            fst (deliver t (sid, fr_stream_id fr) (InData (fr_payload fr))),
            fst (deliver t (sid, fr_stream_id fr) (InResend (from_be (fr_payload fr))))}"
proof -
  consider "fr_kind fr = OPEN" | "fr_kind fr = DATA" | "fr_kind fr = CLOSE" | "fr_kind fr = RESEND"
    | "fr_kind fr \<notin> {OPEN, DATA, CLOSE, RESEND}" by auto
  then show ?thesis
  proof cases
    case 1
    then show ?thesis using assms by (simp add: handle_frame_def Let_def split: sum.split)
  next
    case 2
    then show ?thesis using assms
      by (cases "enqueue_data t (sid, fr_stream_id fr) (fr_payload fr)")
        (auto simp: handle_frame_def Let_def enqueue_data_def frame_kind_defs)
  next
    case 3
    then show ?thesis using assms
      by (cases "remove_stream t (sid, fr_stream_id fr)")
        (auto simp: handle_frame_def Let_def frame_kind_defs remove_stream_table [symmetric])
  next
    case 4
    then show ?thesis using assms
      by (cases "deliver t (sid, fr_stream_id fr) (InResend (from_be (fr_payload fr)))")
        (auto simp: handle_frame_def Let_def frame_kind_defs)
  qed (use assms in \<open>simp_all add: handle_frame_def Let_def\<close>)
qed

lemma handle_frame_other_session:
  assumes "fst k \<noteq> sid"
  shows "map_of (fst (handle_frame acc t sid p)) k = map_of t k"
proof (cases "parse_frame p")
  case (Some fr)
  have ne: "k \<noteq> (sid, fr_stream_id fr)" using assms by auto
  show ?thesis using handle_frame_table [OF Some, of acc t sid] map_of_deliver_other [OF ne, of t] ne
    by (elim insertE) (simp_all add: delete_conv')
qed (simp add: handle_frame_def)

lemma fold_remove_map_of:
  "map_of (fst (fold (\<lambda>key (t, gone). case remove_stream t key of (t', g) \<Rightarrow> (t', gone @ g)) ks (t, gone))) k
     = (if k \<in> set ks then None else map_of t k)"
proof (induction ks arbitrary: t gone)
  case (Cons a ks)
  obtain t' g where r: "remove_stream t a = (t', g)" by fastforce
  have "t' = AList.delete a t" using r remove_stream_table [of t a] by simp
  then show ?case using Cons.IH [of t' "gone @ g"] r by (simp add: delete_conv')
qed simp

section \<open>Replay\<close>

lemma resend_payloads_pieces:
  assumes "rest = drop i S" "i \<le> length S" "length S < 2 ^ 64" "p \<in> set (resend_payloads n (word_of_nat i) rest)"
  shows "piece_of S p"
  using assms(1,2,4)
proof (induction n arbitrary: i rest)
  case (Suc n)
  define tk where "tk = min (length rest) MAX_DATA"
  show ?case
  proof (cases "p = encode_at (word_of_nat i) (take tk rest)")
    case True
    then show ?thesis using Suc.prems(1,2) unfolding piece_of_def tk_def
      by (intro exI [of _ i] exI [of _ "min (length rest) MAX_DATA"]) auto
  next
    case False
    then have "p \<in> set (resend_payloads n (word_of_nat (i + tk)) (drop tk rest))"
      using Suc.prems(3) by (auto simp: Let_def tk_def split: if_splits)
    then show ?thesis using Suc.IH [of "drop tk rest" "i + tk"] Suc.prems(1,2)
      by (auto simp: tk_def add.commute)
  qed
qed simp

lemma resend_payloads_cover:
  assumes "length rest \<le> n * MAX_DATA"
  shows "concat (map (drop 8) (resend_payloads n cursor rest)) = rest"
  using assms
proof (induction n arbitrary: cursor rest)
  case (Suc n)
  then show ?case
    by (cases "rest = []") (auto simp: Let_def min_def)
qed simp

definition tail_inv :: "bytes \<Rightarrow> server_stream \<Rightarrow> bool" where
  [inv_defs]: "tail_inv S st \<longleftrightarrow>
     ss_offset (sv_sent st) = word_of_nat (length S) \<and>
     sv_out_tail st = drop (length S - RESEND_BUFFER_BYTES) S"

lemma keep_tail_spec:
  "keep_tail (drop (length S - RESEND_BUFFER_BYTES) S) plain
     = drop (length (S @ plain) - RESEND_BUFFER_BYTES) (S @ plain)"
  by (cases "length S \<le> RESEND_BUFFER_BYTES") (auto simp: keep_tail_def Let_def min_def add.commute)

lemma resend_range_unat:
  assumes "unat t \<le> unat n"
  shows "resend_range t n off =
           (if unat n - unat t \<le> unat off \<and> unat off < unat n
            then Some (unat off - (unat n - unat t)) else None)"
proof -
  define old where "old = saturating_sub n t"
  have u: "unat old = unat n - unat t"
    using assms by (simp add: old_def saturating_sub_def word_le_nat_alt unat_sub)
  show ?thesis
  proof (cases "unat n - unat t \<le> unat off \<and> unat off < unat n")
    case True
    then have "unat (off - old) = unat off - (unat n - unat t)" using u
      by (subst unat_sub) (simp_all add: word_le_nat_alt)
    moreover have "unat off - (unat n - unat t) \<le> unat t" using True assms by linarith
    ultimately show ?thesis using True u
      by (simp add: resend_range_def Let_def old_def [symmetric] word_less_nat_alt word_le_nat_alt)
  next
    case False
    then have "off < old \<or> n \<le> off" using u by (auto simp: word_less_nat_alt word_le_nat_alt)
    then show ?thesis using False by (auto simp: resend_range_def Let_def old_def)
  qed
qed

lemma resend_range_spec:
  assumes "length S < 2 ^ 64" "B = length S - RESEND_BUFFER_BYTES"
  shows "resend_range (word_of_nat (length (drop B S))) (word_of_nat (length S)) off =
           (if B \<le> unat off \<and> unat off < length S then Some (unat off - B) else None)"
proof -
  have n: "unat (word_of_nat (length S) :: u64) = length S"
    "unat (word_of_nat (length (drop B S)) :: u64) = length S - B"
    using assms(1) by (simp_all only: unat_of_nat length_drop) simp_all
  moreover have "length S - (length S - B) = B" using assms(2) by simp
  ultimately show ?thesis
    using resend_range_unat [of "word_of_nat (length (drop B S))" "word_of_nat (length S)" off]
    unfolding n by simp
qed

section \<open>Runs of a stream\<close>

fun event_read :: "stream_event \<Rightarrow> bytes" where
  "event_read (TargetRead bs) = bs"
| "event_read _ = []"

fun event_data :: "stream_event \<Rightarrow> bytes list" where
  "event_data (Input (InData p)) = [p]"
| "event_data _ = []"

definition target_bytes :: "(nat \<times> nat \<times> stream_event) list \<Rightarrow> bytes" where
  "target_bytes evs = concat (map (\<lambda>(_, _, ev). event_read ev) evs)"

definition uplink_payloads :: "(nat \<times> nat \<times> stream_event) list \<Rightarrow> bytes list" where
  "uplink_payloads evs = concat (map (\<lambda>(_, _, ev). event_data ev) evs)"

fun stream_after :: "(nat \<times> nat \<times> stream_event) list \<Rightarrow> server_stream \<Rightarrow> server_stream option" where
  "stream_after [] st = Some st"
| "stream_after ((now, io, ev) # evs) st =
     (let r = server_stream_step now io ev st
      in if rs_outcome r = Running then stream_after evs (rs_state r) else None)"

lemma refresh_hole_simps [simp]:
  "sv_sent (refresh_hole now st) = sv_sent st" "sv_received (refresh_hole now st) = sv_received st"
  "sv_out_tail (refresh_hole now st) = sv_out_tail st"
  by (simp_all add: refresh_hole_def)

lemma piece_of_append: "piece_of S p \<Longrightarrow> piece_of (S @ T) p"
  unfolding piece_of_def by (elim exE, rename_tac i n, rule_tac x = i in exI, rule_tac x = n in exI) auto

lemma step_tail:
  assumes "tail_inv S st" "length (S @ event_read ev) < 2 ^ 64"
  shows "rs_outcome (server_stream_step now io ev st) = Running \<Longrightarrow>
           tail_inv (S @ event_read ev) (rs_state (server_stream_step now io ev st))"
    and "\<forall>p \<in> set (rs_payloads (server_stream_step now io ev st)). piece_of (S @ event_read ev) p"
proof -
  note inv = assms(1) [unfolded tail_inv_def]
  have read: "ss_encode (sv_sent st) bs = Inr (p, s') \<Longrightarrow> length (S @ bs) < 2 ^ 64 \<Longrightarrow>
      p = encode_at (word_of_nat (length S)) bs \<and> ss_offset s' = word_of_nat (length (S @ bs))" for bs p s'
    using inv by (auto simp: ss_encode_def advance_def checked_add_def split: sum.splits option.splits if_splits)
  have piece: "piece_of (S @ bs) (encode_at (word_of_nat (length S)) bs)" for bs
    unfolding piece_of_def by (intro exI [of _ "length S"] exI [of _ "length bs"]) simp
  have replay: "piece_of S p"
    if "p \<in> set (resend_payloads n off (drop (unat off - B) (drop B S)))" "B \<le> unat off" "unat off < length S"
      "length S < 2 ^ 64" for n off B p
    using resend_payloads_pieces [of "drop (unat off) S" "unat off" S p n] that by simp
  show "rs_outcome (server_stream_step now io ev st) = Running \<Longrightarrow>
           tail_inv (S @ event_read ev) (rs_state (server_stream_step now io ev st))"
  proof (cases ev)
    case (TargetRead bs)
    assume "rs_outcome (server_stream_step now io ev st) = Running"
    then show ?thesis using TargetRead inv assms(2) keep_tail_spec [of S bs] read [of bs]
      by (auto simp: server_stream_step_def Let_def tail_inv_def split: if_splits sum.splits)
  qed (use inv in \<open>auto simp: server_stream_step_def Let_def tail_inv_def
        split: if_splits stream_input.splits sum.splits option.splits prod.splits\<close>)
  show "\<forall>p \<in> set (rs_payloads (server_stream_step now io ev st)). piece_of (S @ event_read ev) p"
  proof (cases ev)
    case (TargetRead bs)
    then show ?thesis using inv assms(2) read [of bs] piece [of bs]
      by (auto simp: server_stream_step_def Let_def split: if_splits sum.splits)
  next
    case (Input x)
    then show ?thesis using inv assms(2) resend_range_spec [of S] replay
      by (cases x) (auto simp: server_stream_step_def Let_def dest: in_set_takeD
        split: if_splits sum.splits option.splits prod.splits)
  qed (auto simp: server_stream_step_def Let_def)
qed

lemma run_stream_pieces:
  assumes "tail_inv S st" "length (S @ target_bytes evs) < 2 ^ 64" "run_stream evs st = (ps, ws, out)"
  shows "\<forall>p \<in> set ps. piece_of (S @ target_bytes evs) p"
  using assms
proof (induction evs arbitrary: st S ps ws out)
  case (Cons e evs)
  obtain now io ev where e: "e = (now, io, ev)" by (cases e)
  let ?r = "server_stream_step now io ev st"
  have T: "target_bytes (e # evs) = event_read ev @ target_bytes evs"
    by (simp add: target_bytes_def e)
  have len: "length (S @ event_read ev) < 2 ^ 64" using Cons.prems(2) T by simp
  have here: "\<forall>p \<in> set (rs_payloads ?r). piece_of (S @ target_bytes (e # evs)) p"
    using step_tail(2) [OF Cons.prems(1) len, of now io] piece_of_append by (fastforce simp: T)
  show ?case
  proof (cases "rs_outcome ?r = Running")
    case True
    obtain ps1 ws1 out1 where rest: "run_stream evs (rs_state ?r) = (ps1, ws1, out1)" by (cases "run_stream evs (rs_state ?r)")
    have "\<forall>p \<in> set ps1. piece_of ((S @ event_read ev) @ target_bytes evs) p"
      using Cons.IH [OF step_tail(1) [OF Cons.prems(1) len True] _ rest] Cons.prems(2) T by simp
    then show ?thesis using here Cons.prems(3) True rest e T by (auto simp: Let_def)
  next
    case False
    then show ?thesis using here Cons.prems(3) e by (auto simp: Let_def)
  qed
qed simp

lemma step_received:
  assumes "length U < 2 ^ 64" "\<forall>p \<in> set (event_data ev). piece_of U p" "parked_pieces U (sv_received st)"
    and r: "r = server_stream_step now io ev st"
  shows "rs_outcome r = Running \<Longrightarrow> parked_pieces U (sv_received (rs_state r)) \<and>
           unat (expected (sv_received st)) \<le> unat (expected (sv_received (rs_state r))) \<and>
           rs_written r = take (unat (expected (sv_received (rs_state r))) - unat (expected (sv_received st)))
             (drop (unat (expected (sv_received st))) U)"
    and "rs_outcome r \<noteq> Running \<Longrightarrow> rs_written r = []"
proof -
  show "rs_outcome r \<noteq> Running \<Longrightarrow> rs_written r = []"
    by (auto simp: r server_stream_step_def Let_def
        split: stream_event.splits stream_input.splits if_splits sum.splits option.splits prod.splits)
  assume run: "rs_outcome r = Running"
  show "parked_pieces U (sv_received (rs_state r)) \<and>
           unat (expected (sv_received st)) \<le> unat (expected (sv_received (rs_state r))) \<and>
           rs_written r = take (unat (expected (sv_received (rs_state r))) - unat (expected (sv_received st)))
             (drop (unat (expected (sv_received st))) U)"
  proof (cases "\<exists>p. ev = Input (InData p)")
    case True
    then obtain p where ev: "ev = Input (InData p)" ..
    obtain r' res where push: "push (sv_received st) p = (r', res)" by fastforce
    with run ev obtain out where out: "res = Inr out" by (cases res) (auto simp: r server_stream_step_def Let_def)
    have "sv_received (rs_state r) = r' \<and> rs_written r = (case out of None \<Rightarrow> [] | Some bs \<Rightarrow> bs)"
      using run ev push out by (auto simp: r server_stream_step_def Let_def split: option.splits if_splits)
    then show ?thesis using push_pieces [OF assms(1) _ assms(3), of p r' out] push out ev assms(2) by simp
  next
    case False
    have "sv_received (rs_state r) = sv_received st \<and> rs_written r = []"
    proof (cases ev)
      case (Input x)
      then show ?thesis using False run
        by (cases x) (auto simp: r server_stream_step_def Let_def split: option.splits if_splits)
    qed (use run in \<open>auto simp: r server_stream_step_def Let_def split: sum.splits if_splits\<close>)
    then show ?thesis using assms(3) by simp
  qed
qed

lemma run_stream_written:
  assumes "length U < 2 ^ 64" "\<forall>p \<in> set (uplink_payloads evs). piece_of U p"
    and "parked_pieces U (sv_received st)" "run_stream evs st = (ps, ws, out)"
  shows "\<exists>n. ws = take n (drop (unat (expected (sv_received st))) U)"
  using assms(2-)
proof (induction evs arbitrary: st ps ws out)
  case (Cons e evs)
  obtain now io ev where e: "e = (now, io, ev)" by (cases e)
  let ?r = "server_stream_step now io ev st"
  have data: "\<forall>p \<in> set (event_data ev). piece_of U p" "\<forall>p \<in> set (uplink_payloads evs). piece_of U p"
    using Cons.prems(1) by (auto simp: uplink_payloads_def e)
  show ?case
  proof (cases "rs_outcome ?r = Running")
    case True
    note s = step_received(1) [OF assms(1) data(1) Cons.prems(2) refl True]
    obtain ps1 ws1 out1 where rest: "run_stream evs (rs_state ?r) = (ps1, ws1, out1)" by (cases "run_stream evs (rs_state ?r)")
    obtain n where n: "ws1 = take n (drop (unat (expected (sv_received (rs_state ?r)))) U)"
      using Cons.IH [OF data(2) _ rest] s by blast
    have "ws = rs_written ?r @ ws1" using Cons.prems(3) True rest e by (auto simp: Let_def)
    moreover have "rs_written ?r @ ws1 =
        take (unat (expected (sv_received (rs_state ?r))) + n - unat (expected (sv_received st)))
          (drop (unat (expected (sv_received st))) U)"
      using s n slice_append [of "unat (expected (sv_received st))" "unat (expected (sv_received (rs_state ?r)))"
          "unat (expected (sv_received (rs_state ?r))) + n" U] by simp
    ultimately show ?thesis by blast
  next
    case False
    then show ?thesis using step_received(2) [OF assms(1) data(1) Cons.prems(2) refl False] Cons.prems(3) e
      by (auto simp: Let_def)
  qed
qed simp

lemma tail_inv_new: "tail_inv [] (server_stream_new t0)"
  by (simp add: tail_inv_def server_stream_new_def)

lemma stream_after_tail:
  assumes "tail_inv S st" "length (S @ target_bytes evs) < 2 ^ 64" "stream_after evs st = Some st'"
  shows "tail_inv (S @ target_bytes evs) st'"
  using assms
proof (induction evs arbitrary: st S)
  case (Cons e evs)
  obtain now io ev where e: "e = (now, io, ev)" by (cases e)
  have T: "target_bytes (e # evs) = event_read ev @ target_bytes evs" by (simp add: target_bytes_def e)
  from Cons.prems(3) e have run: "rs_outcome (server_stream_step now io ev st) = Running"
    and rest: "stream_after evs (rs_state (server_stream_step now io ev st)) = Some st'"
    by (auto simp: Let_def split: if_splits)
  have "length (S @ event_read ev) < 2 ^ 64" using Cons.prems(2) T by simp
  from Cons.IH [OF step_tail(1) [OF Cons.prems(1) this run] _ rest] Cons.prems(2) T
  show ?case by simp
qed (simp add: target_bytes_def)

section \<open>Properties\<close>


text \<open>C29: Sessions are isolated: a frame of one session leaves every stream of every
  other session, with its queued input, as it was; a repeated OPEN of a live stream
  changes nothing and is not answered; closing a session removes its streams and no
  other.\<close>

theorem sessions_are_isolated:
  "(fst k \<noteq> sid \<longrightarrow> map_of (fst (handle_frame acc t sid p)) k = map_of t k)
   \<and> (map_of t (sid, i) \<noteq> None \<longrightarrow> handle_frame acc t sid (encode_frame OPEN i target) = (t, [], Inr ()))
   \<and> map_of (fst (close_session t sid)) k = (if fst k = sid then None else map_of t k)"
proof (intro conjI impI)
  show "fst k \<noteq> sid \<Longrightarrow> map_of (fst (handle_frame acc t sid p)) k = map_of t k"
    by (rule handle_frame_other_session)
  show "map_of t (sid, i) \<noteq> None \<Longrightarrow> handle_frame acc t sid (encode_frame OPEN i target) = (t, [], Inr ())"
    by (simp add: handle_frame_def)
  have "set (map fst (filter (\<lambda>(k, _). fst k = sid) t)) = {k \<in> fst ` set t. fst k = sid}" by force
  then show "map_of (fst (close_session t sid)) k = (if fst k = sid then None else map_of t k)"
    by (auto simp: close_session_def fold_remove_map_of map_of_eq_None_iff)
qed

theorem sessions_are_isolated_witness:
  "map_of (fst (handle_frame True [((2, 7), [InClose])] 1 (encode_frame CLOSE 7 []))) (2, 7) = Some [InClose]"
  using sessions_are_isolated [of "(2, 7)" 1 True "[((2, 7), [InClose])]" "encode_frame CLOSE 7 []" 7 "[]"]
  by simp

text \<open>C3: A stream relays both directions faithfully: every DATA payload it sends, first
  copies and replays alike, is a piece of the bytes read from the target at the offset
  it names; and when the client's payloads are pieces of the caller's bytes, what is
  written to the target is a prefix of the caller's bytes.\<close>

theorem stream_relays_both_directions:
  assumes "length (target_bytes evs) < 2 ^ 64" "length U < 2 ^ 64"
    and "\<forall>p \<in> set (uplink_payloads evs). piece_of U p"
    and "run_stream evs (server_stream_new t0) = (ps, ws, out)"
  shows "(\<forall>p \<in> set ps. piece_of (target_bytes evs) p) \<and> (\<exists>n. ws = take n U)"
proof -
  have "parked_pieces U (sv_received (server_stream_new t0))"
    by (simp add: server_stream_new_def parked_pieces_new)
  from run_stream_written [OF assms(2,3) this assms(4)] have "\<exists>n. ws = take n U"
    by (simp add: server_stream_new_def reorder_new_def)
  then show ?thesis using run_stream_pieces [OF tail_inv_new _ assms(4)] assms(1) by simp
qed

theorem stream_relays_both_directions_witness:
  "run_stream [(0, 1, TargetRead [1, 2]), (1, 1, Input (InData (encode_at 0 [9])))] (server_stream_new 0)
     = ([encode_at 0 [1, 2]], [9], Running)
   \<and> piece_of [1, 2] (encode_at 0 [1, 2])"
proof -
  let ?evs = "[(0, 1, TargetRead [1, 2]), (1, 1, Input (InData (encode_at 0 [9])))]"
  have "piece_of [9] (encode_at 0 [9])"
    unfolding piece_of_def by (intro exI [of _ 0] exI [of _ 1]) simp
  then have up: "\<forall>p \<in> set (uplink_payloads ?evs). piece_of [9] p" by (simp add: uplink_payloads_def)
  have run: "run_stream ?evs (server_stream_new 0) = ([encode_at 0 [1, 2]], [9], Running)"
    by (simp add: server_stream_step_def server_stream_new_def refresh_hole_def is_waiting_def reorder_new_def
        Let_def ss_encode_def advance_def checked_add_def keep_tail_def push_encode_at flush_pending.simps)
  show ?thesis
    using stream_relays_both_directions [OF _ _ up run] run by (simp add: target_bytes_def)
qed

text \<open>C5: A replay request is answered in full: for a live stream and an offset still in
  the retained tail, the replayed payloads carry, one after the other, exactly the bytes
  read from the target from that offset on; the frame limit never cuts the answer.\<close>

theorem resend_replays_missing_suffix:
  assumes "length (target_bytes evs) < 2 ^ 64" "stream_after evs (server_stream_new t0) = Some st"
    and "length (target_bytes evs) - RESEND_BUFFER_BYTES \<le> unat off" "unat off < length (target_bytes evs)"
    and "RESEND_MAX_FRAMES \<le> io"
  shows "concat (map (drop 8) (rs_payloads (server_stream_step now io (Input (InResend off)) st)))
           = drop (unat off) (target_bytes evs)
       \<and> rs_outcome (server_stream_step now io (Input (InResend off)) st) = Running"
proof -
  let ?S = "target_bytes evs"
  define B where "B = length ?S - RESEND_BUFFER_BYTES"
  have inv: "tail_inv ?S st" using stream_after_tail [OF tail_inv_new _ assms(2)] assms(1) by simp
  let ?ps = "resend_payloads RESEND_MAX_FRAMES off (drop (unat off) ?S)"
  have len: "length (resend_payloads n c r) \<le> n" for n c r
    by (induction n arbitrary: c r) (auto simp: Let_def)
  have "server_stream_step now io (Input (InResend off)) st =
      \<lparr>rs_state = (refresh_hole now st)\<lparr>sv_last_activity := now\<rparr>, rs_payloads = ?ps, rs_written = [],
       rs_outcome = Running\<rparr>"
    using inv resend_range_spec [OF assms(1) B_def, of off] assms(3-5) len [of RESEND_MAX_FRAMES off "drop (unat off) ?S"]
    by (simp add: server_stream_step_def Let_def tail_inv_def B_def)
  moreover have "length (drop (unat off) ?S) \<le> RESEND_MAX_FRAMES * MAX_DATA"
    using assms(3,4) by (simp add: RESEND_BUFFER_BYTES_def RESEND_MAX_FRAMES_def MAX_DATA_def)
  ultimately show ?thesis by (simp add: resend_payloads_cover)
qed

theorem resend_replays_missing_suffix_witness:
  "concat (map (drop 8) (rs_payloads (server_stream_step 5 200 (Input (InResend 1))
     (rs_state (server_stream_step 0 1 (TargetRead [7, 8, 9]) (server_stream_new 0)))))) = [8, 9]"
proof -
  let ?st = "rs_state (server_stream_step 0 1 (TargetRead [7, 8, 9]) (server_stream_new 0))"
  have "stream_after [(0, 1, TargetRead [7, 8, 9])] (server_stream_new 0) = Some ?st"
    by (simp add: server_stream_step_def server_stream_new_def refresh_hole_def is_waiting_def reorder_new_def
        Let_def ss_encode_def advance_def checked_add_def)
  from resend_replays_missing_suffix [OF _ this, of 1 200 5] show ?thesis
    by (simp add: target_bytes_def RESEND_BUFFER_BYTES_def RESEND_MAX_FRAMES_def)
qed

end
