(* ===== verification/Stream_Client.thy ===== *)
theory Stream_Client
  imports Proxy_Sequence Stream_Frames
begin

text \<open>
  The client side of the proxied streams (\<open>src/rust-client/stream_proxy.rs\<close>): the
  table of inbound channels, the negotiation of a tunnel generation
  (\<open>open_tunnel\<close>) and the loop of \<open>handle_client\<close>, with its switch to another
  carrier before the first payload.

  The clock, the caller's socket, the answers of the carriers and whether the
  dispatcher accepts a frame are arguments. Times are in milliseconds.
\<close>

section \<open>Inbound channels\<close>

datatype inbound = Opened | OpenError u8 | InboundData bytes | Closed

type_synonym inbound_table = "(u64 \<times> inbound list) list"

definition INBOUND_CAPACITY :: nat where
  "INBOUND_CAPACITY = 64"

definition deliver_inbound :: "inbound_table \<Rightarrow> u64 \<Rightarrow> inbound \<Rightarrow> inbound_table" where
  "deliver_inbound streams i ev =
     (case map_of streams i of
        None \<Rightarrow> streams
      | Some q \<Rightarrow>
          if length q < INBOUND_CAPACITY then AList.update i (q @ [ev]) streams
          else AList.delete i streams)"

definition inbound_event :: "frame \<Rightarrow> inbound option" where
  "inbound_event fr =
     (if fr_kind fr = OPEN_OK then Some Opened
      else if fr_kind fr = OPEN_ERR then
        Some (OpenError (case fr_payload fr of [] \<Rightarrow> 1 | b # _ \<Rightarrow> b))
      else if fr_kind fr = DATA \<and> length (fr_payload fr) \<le> MAX_DATA + 8 then
        Some (InboundData (fr_payload fr))
      else if fr_kind fr = CLOSE then Some Closed
      else None)"

definition handle_inbound :: "inbound_table \<Rightarrow> bytes \<Rightarrow> inbound_table" where
  "handle_inbound streams payload =
     (case parse_frame payload of
        None \<Rightarrow> streams
      | Some fr \<Rightarrow>
          (case inbound_event fr of
             None \<Rightarrow> streams
           | Some ev \<Rightarrow> deliver_inbound streams (fr_stream_id fr) ev))"

section \<open>Opening a tunnel generation\<close>

definition OPEN_ATTEMPTS :: nat where
  "OPEN_ATTEMPTS = 4"

text \<open>What one attempt meets: the dispatcher refuses the OPEN frame, the channel
  yields an event or ends, or the deadline passes.\<close>

datatype attempt = SendFailed | Answer "inbound option" | AttemptTimeout

datatype tunnel_effect =
    Register u64
  | SendOpen u64 bytes u64
  | Unregister u64
  | SendClose u64

definition next_error :: "attempt \<Rightarrow> u8 \<Rightarrow> u8" where
  "next_error outcome last_error =
     (case outcome of
        Answer (Some (OpenError code)) \<Rightarrow> if code = 0 then 1 else code
      | _ \<Rightarrow> last_error)"

text \<open>The loop of \<open>open_tunnel\<close>. \<open>env n\<close> says for attempt \<open>n\<close> whether the overall
  budget has expired and what the attempt meets. \<open>ids\<close> is the shared counter. The
  result is the counter, the effects in order, and an error code or the stream id.\<close>

function open_tunnel ::
  "bytes \<Rightarrow> (nat \<Rightarrow> bool \<times> attempt) \<Rightarrow> nat \<Rightarrow> u8 \<Rightarrow> u64 \<Rightarrow> u64 \<times> tunnel_effect list \<times> (u8 + u64)" where
  "open_tunnel target env attempt last_error ids =
     (if attempt \<ge> OPEN_ATTEMPTS \<or> fst (env attempt) then (ids, [], Inl last_error)
      else let sid = max ids 1;
               worker_hint = sid + word_of_nat attempt;
               start = [Register sid, SendOpen sid (encode_frame OPEN sid target) worker_hint]
           in if snd (env attempt) = Answer (Some Opened) then (ids + 1, start, Inr sid)
              else case open_tunnel target env (attempt + 1) (next_error (snd (env attempt)) last_error) (ids + 1) of
                     (ids', effs, res) \<Rightarrow> (ids', start @ [Unregister sid, SendClose sid] @ effs, res))"
  by pat_completeness auto
termination
  by (relation "measure (\<lambda>(_, _, n, _, _). OPEN_ATTEMPTS - n)") auto

declare open_tunnel.simps [simp del]

section \<open>The stream loop\<close>

definition CL_DATA_HOLE_PATIENCE :: nat where
  "CL_DATA_HOLE_PATIENCE = 6000"

definition CL_DATA_QUIET_TIMEOUT :: nat where
  "CL_DATA_QUIET_TIMEOUT = 60000"

definition RESEND_INTERVAL :: nat where
  "RESEND_INTERVAL = 500"

definition FIRST_DATA_TIMEOUT :: nat where
  "FIRST_DATA_TIMEOUT = 2500"

definition UNPROVEN_UPLINK_CAP :: nat where
  "UNPROVEN_UPLINK_CAP = 16 * 1024"

definition replayable :: "bytes \<Rightarrow> bool" where
  "replayable parked \<longleftrightarrow>
     parked = [] \<or>
     list_ex (\<lambda>verb. starts_with parked (ascii verb)) [''GET '', ''HEAD '', ''OPTIONS '', ''TRACE '']"

record client_stream =
  cl_stream_id :: u64
  cl_generations :: nat
  cl_sent :: stream_sequence
  cl_received :: reorder_receiver
  cl_unproven_up :: bytes
  cl_proven :: bool
  cl_proof_deadline :: nat
  cl_hole_deadline :: "nat option"
  cl_last_down_activity :: nat
  cl_last_resend :: "nat option"
  cl_switch :: bool

definition client_stream_new :: "nat \<Rightarrow> u64 \<Rightarrow> client_stream" where
  "client_stream_new now opened_id =
     \<lparr>cl_stream_id = opened_id, cl_generations = 1, cl_sent = \<lparr>ss_offset = 0\<rparr>, cl_received = reorder_new,
      cl_unproven_up = [], cl_proven = False, cl_proof_deadline = now + FIRST_DATA_TIMEOUT,
      cl_hole_deadline = None, cl_last_down_activity = now, cl_last_resend = None, cl_switch = False\<rparr>"

datatype client_event =
    CallerRead bytes
  | CallerError
  | InboundEvent "inbound option"
  | Cancelled
  | Stalled

datatype client_outcome = ClRunning | ClClean | ClFailed

record client_step_result =
  cr_state :: client_stream
  cr_frames :: "bytes list"
  cr_written :: bytes
  cr_outcome :: client_outcome

text \<open>The environment of one iteration: the clock, how many frames or writes with
  error propagation succeed, whether a RESEND request is queued, and the result of
  \<open>open_tunnel\<close> if it is called.\<close>

record client_env =
  ce_now :: nat
  ce_io :: nat
  ce_resend_ok :: bool
  ce_opened :: "u8 + u64"

function replay_chunks :: "stream_sequence \<Rightarrow> bytes \<Rightarrow> sequence_error + (bytes list \<times> stream_sequence)" where
  "replay_chunks s replay =
     (if replay = [] then Inr ([], s)
      else let tk = min (length replay) MAX_DATA
           in case ss_encode s (take tk replay) of
                Inl e \<Rightarrow> Inl e
              | Inr (payload, s') \<Rightarrow>
                  (case replay_chunks s' (drop tk replay) of
                     Inl e \<Rightarrow> Inl e
                   | Inr (ps, s'') \<Rightarrow> Inr (payload # ps, s'')))"
  by pat_completeness auto
termination
  by (relation "measure (\<lambda>(_, replay). length replay)") (auto simp: MAX_DATA_def)

declare replay_chunks.simps [simp del]

text \<open>The switch to another carrier.\<close>

definition client_switch :: "client_env \<Rightarrow> client_stream \<Rightarrow> client_step_result" where
  "client_switch env st0 =
     (let st = st0\<lparr>cl_switch := False\<rparr>;
          close = encode_frame CLOSE (cl_stream_id st) [];
          stop = (\<lambda>st fs out. \<lparr>cr_state = st, cr_frames = fs, cr_written = [], cr_outcome = out\<rparr>)
      in if cl_generations st \<ge> OPEN_ATTEMPTS then stop st [] ClFailed
         else case ce_opened env of
                Inl _ \<Rightarrow> stop st [close] ClFailed
              | Inr next_id \<Rightarrow>
                  let st1 = st\<lparr>cl_generations := cl_generations st + 1, cl_stream_id := next_id,
                              cl_sent := \<lparr>ss_offset = 0\<rparr>, cl_received := reorder_new,
                              cl_hole_deadline := None, cl_last_resend := None,
                              cl_last_down_activity := ce_now env,
                              cl_proof_deadline := ce_now env + FIRST_DATA_TIMEOUT\<rparr>
                  in if \<not> replayable (cl_unproven_up st1) then stop st1 [close] ClFailed
                     else let st2 = st1\<lparr>cl_unproven_up := []\<rparr>
                          in case replay_chunks (cl_sent st2) (cl_unproven_up st1) of
                               Inl _ \<Rightarrow> stop st2 [close] ClFailed
                             | Inr (ps, sent') \<Rightarrow>
                                 let frames = map (encode_frame DATA next_id) ps
                                 in if ce_io env \<ge> length frames
                                    then stop (st2\<lparr>cl_sent := sent'\<rparr>) (close # frames) ClRunning
                                    else stop st2 (close # take (ce_io env) frames) ClFailed)"

text \<open>The request for a replay while a hole is open.\<close>

definition client_hole :: "client_env \<Rightarrow> client_stream \<Rightarrow> client_stream \<times> bytes list" where
  "client_hole env st =
     (if is_waiting (cl_received st) then
        let now = ce_now env;
            st1 = (if cl_hole_deadline st = None
                   then st\<lparr>cl_hole_deadline := Some (now + CL_DATA_HOLE_PATIENCE)\<rparr> else st);
            due = (case cl_last_resend st1 of None \<Rightarrow> True | Some l \<Rightarrow> now - l \<ge> RESEND_INTERVAL)
        in (case missing_offset (cl_received st1) of
              Some offset \<Rightarrow>
                if due \<and> ce_resend_ok env
                then (st1\<lparr>cl_last_resend := Some now, cl_hole_deadline := Some (now + CL_DATA_HOLE_PATIENCE)\<rparr>,
                      [encode_frame RESEND (cl_stream_id st1) (to_be offset)])
                else (st1, [])
            | None \<Rightarrow> (st1, []))
      else (st\<lparr>cl_hole_deadline := None\<rparr>, []))"

definition client_due :: "client_stream \<Rightarrow> nat" where
  "client_due st =
     (let quiet_due = (if cl_proven st then cl_last_down_activity st + CL_DATA_QUIET_TIMEOUT
                       else cl_proof_deadline st)
      in case cl_hole_deadline st of Some hole_due \<Rightarrow> min quiet_due hole_due | None \<Rightarrow> quiet_due)"

definition client_select :: "client_env \<Rightarrow> client_event \<Rightarrow> client_stream \<Rightarrow> client_step_result" where
  "client_select env ev st =
     (let stop = (\<lambda>st out. \<lparr>cr_state = st, cr_frames = [], cr_written = [], cr_outcome = out\<rparr>)
      in case ev of
           Cancelled \<Rightarrow> stop st ClClean
         | CallerError \<Rightarrow> stop st ClFailed
         | CallerRead bs \<Rightarrow>
             if bs = [] then stop st ClClean
             else (case ss_encode (cl_sent st) bs of
                     Inl _ \<Rightarrow> stop st ClFailed
                   | Inr (payload, sent') \<Rightarrow>
                       let st1 = st\<lparr>cl_sent := sent'\<rparr>
                       in if ce_io env = 0 then stop st1 ClFailed
                          else let fr = [encode_frame DATA (cl_stream_id st1) payload]
                               in if cl_proven st1
                                  then \<lparr>cr_state = st1, cr_frames = fr, cr_written = [], cr_outcome = ClRunning\<rparr>
                                  else let st2 = st1\<lparr>cl_unproven_up := cl_unproven_up st1 @ bs\<rparr>
                                       in \<lparr>cr_state = st2, cr_frames = fr, cr_written = [],
                                           cr_outcome = (if length (cl_unproven_up st2) > UNPROVEN_UPLINK_CAP
                                                         then ClFailed else ClRunning)\<rparr>)
         | InboundEvent (Some (InboundData bs)) \<Rightarrow>
             let st1 = st\<lparr>cl_last_down_activity := ce_now env\<rparr>;
                 st2 = (if cl_proven st1 then st1
                        else st1\<lparr>cl_proven := True, cl_unproven_up := [], cl_hole_deadline := None,
                                 cl_last_resend := None\<rparr>)
             in (case push (cl_received st2) bs of
                   (r, Inl _) \<Rightarrow> stop (st2\<lparr>cl_received := r\<rparr>) ClFailed
                 | (r, Inr None) \<Rightarrow> stop (st2\<lparr>cl_received := r\<rparr>) ClRunning
                 | (r, Inr (Some decoded)) \<Rightarrow>
                     if ce_io env = 0 then stop (st2\<lparr>cl_received := r\<rparr>) ClFailed
                     else \<lparr>cr_state = st2\<lparr>cl_received := r\<rparr>, cr_frames = [], cr_written = decoded,
                           cr_outcome = ClRunning\<rparr>)
         | InboundEvent (Some Opened) \<Rightarrow> stop st ClRunning
         | InboundEvent _ \<Rightarrow> stop st ClClean
         | Stalled \<Rightarrow>
             if \<not> cl_proven st then stop (st\<lparr>cl_switch := True\<rparr>) ClRunning else stop st ClFailed)"

definition client_step :: "client_env \<Rightarrow> client_event \<Rightarrow> client_stream \<Rightarrow> client_step_result" where
  "client_step env ev st =
     (if cl_switch st then client_switch env st
      else case client_hole env st of
             (st1, fs) \<Rightarrow> let r = client_select env ev st1 in r\<lparr>cr_frames := fs @ cr_frames r\<rparr>)"


section \<open>Lemmas on opening\<close>

fun live_after :: "u64 set \<Rightarrow> tunnel_effect list \<Rightarrow> u64 set" where
  "live_after A [] = A"
| "live_after A (Register i # es) = live_after (insert i A) es"
| "live_after A (Unregister i # es) = live_after (A - {i}) es"
| "live_after A (_ # es) = live_after A es"

fun is_open :: "tunnel_effect \<Rightarrow> bool" where
  "is_open (SendOpen _ _ _) = True"
| "is_open _ = False"

lemma live_after_append: "live_after A (es @ fs) = live_after (live_after A es) fs"
  by (induction A es rule: live_after.induct) auto

lemma open_tunnel_effects:
  assumes "last_error \<noteq> 0" "open_tunnel target env attempt last_error ids = (ids', effs, res)"
  shows "length (filter is_open effs) \<le> OPEN_ATTEMPTS - attempt \<and>
         live_after {} effs = (case res of Inl _ \<Rightarrow> {} | Inr sid \<Rightarrow> {sid}) \<and>
         (\<forall>code. res = Inl code \<longrightarrow> code \<noteq> 0)"
  using assms
proof (induction target env attempt last_error ids arbitrary: ids' effs res rule: open_tunnel.induct)
  case (1 target env attempt last_error ids)
  let ?sid = "max ids 1" and ?last = "next_error (snd (env attempt)) last_error"
  have nxt: "?last \<noteq> 0" using "1.prems"(1)
    by (simp add: next_error_def split: attempt.split option.split inbound.split)
  consider "attempt \<ge> OPEN_ATTEMPTS \<or> fst (env attempt)"
    | "\<not> (attempt \<ge> OPEN_ATTEMPTS \<or> fst (env attempt))" "snd (env attempt) = Answer (Some Opened)"
    | "\<not> (attempt \<ge> OPEN_ATTEMPTS \<or> fst (env attempt))" "snd (env attempt) \<noteq> Answer (Some Opened)" by blast
  then show ?case
  proof cases
    case 3
    obtain ids1 effs1 res1 where rec: "open_tunnel target env (attempt + 1) ?last (ids + 1) = (ids1, effs1, res1)"
      by (cases "open_tunnel target env (attempt + 1) ?last (ids + 1)")
    have eq: "effs = [Register ?sid, SendOpen ?sid (encode_frame OPEN ?sid target) (?sid + word_of_nat attempt),
                    Unregister ?sid, SendClose ?sid] @ effs1" "res = res1"
      using "1.prems"(2) 3 rec by (simp_all add: open_tunnel.simps [of target env attempt] Let_def)
    show ?thesis using "1.IH" [OF 3(1) refl refl refl 3(2) nxt rec] eq 3(1) by auto
  qed (use "1.prems" in \<open>auto simp: open_tunnel.simps [of target env attempt] Let_def\<close>)
qed

section \<open>Lemmas on the loop\<close>

lemma client_hole_simps [simp]:
  "cl_proven (fst (client_hole env st)) = cl_proven st"
  "cl_switch (fst (client_hole env st)) = cl_switch st"
  "cl_received (fst (client_hole env st)) = cl_received st"
  "cl_sent (fst (client_hole env st)) = cl_sent st"
  "cl_unproven_up (fst (client_hole env st)) = cl_unproven_up st"
  "cl_generations (fst (client_hole env st)) = cl_generations st"
  "cl_stream_id (fst (client_hole env st)) = cl_stream_id st"
  by (auto simp: client_hole_def Let_def split: option.splits)

lemma client_step_select:
  "\<not> cl_switch st \<Longrightarrow> client_step env ev st =
     (let r = client_select env ev (fst (client_hole env st))
      in r\<lparr>cr_frames := snd (client_hole env st) @ cr_frames r\<rparr>)"
  by (simp add: client_step_def split: prod.split)

lemma client_step_switch: "cl_switch st \<Longrightarrow> client_step env ev st = client_switch env st"
  by (simp add: client_step_def)








subsection \<open>The parked request\<close>







section \<open>Properties\<close>

text \<open>Opening a tunnel makes at most four attempts, leaves exactly the stream it
  returns registered (none when it fails), and a failure is always reported to the
  caller with a non-zero SOCKS5 code.\<close>

theorem open_tunnel_is_clean:
  assumes "open_tunnel target env 0 4 ids = (ids', effs, res)"
  shows "length (filter is_open effs) \<le> 4 \<and>
         live_after {} effs = (case res of Inl _ \<Rightarrow> {} | Inr sid \<Rightarrow> {sid}) \<and>
         (\<forall>code. res = Inl code \<longrightarrow> code \<noteq> 0)"
  using open_tunnel_effects [OF _ assms] by (simp add: OPEN_ATTEMPTS_def)

theorem open_tunnel_is_clean_witness:
  "live_after {} [Register 1, SendOpen 1 (encode_frame OPEN 1 [9]) 1, Unregister 1, SendClose 1,
                  Register 2, SendOpen 2 (encode_frame OPEN 2 [9]) 3] = {2}"
proof -
  let ?env = "\<lambda>n. (False, if n = 0 then Answer (Some (OpenError 0)) else Answer (Some Opened))"
  have "open_tunnel [9] ?env 0 4 1 = (3, [Register 1, SendOpen 1 (encode_frame OPEN 1 [9]) 1, Unregister 1, SendClose 1,
                  Register 2, SendOpen 2 (encode_frame OPEN 2 [9]) 3], Inr 2)"
    by (simp add: open_tunnel.simps OPEN_ATTEMPTS_def Let_def max_def word_le_nat_alt)
  from open_tunnel_is_clean [OF this] show ?thesis by simp
qed





text \<open>The parked request survives one switch only: when the replacement carrier
  stays silent too and the caller has sent nothing more, the second switch sends the
  close frame and no data, so the request never reaches the third carrier.\<close>

theorem second_switch_replays_nothing:
  assumes "cl_switch st" "\<not> cl_proven st" "s1 = cr_state (client_step e1 ev1 st)"
    and "cr_outcome (client_step e1 ev1 st) = ClRunning"
    and "s2 = cr_state (client_step e2 Stalled s1)"
    and "cr_outcome (client_step e3 ev3 s2) = ClRunning"
  shows "cr_frames (client_step e3 ev3 s2) = [encode_frame CLOSE (cl_stream_id s1) []]"
proof -
  have s1: "cl_unproven_up s1 = []" "\<not> cl_proven s1" "\<not> cl_switch s1"
    using assms(1-4) by (auto simp: client_step_switch client_switch_def Let_def split: if_splits sum.splits)
  have s2: "cl_unproven_up s2 = []" "cl_switch s2" "cl_stream_id s2 = cl_stream_id s1"
    using s1 assms(5) by (simp_all add: client_step_select client_select_def Let_def)
  show ?thesis using s2 assms(6)
    by (auto simp: client_step_switch client_switch_def Let_def replay_chunks.simps split: if_splits sum.splits)
qed

theorem second_switch_replays_nothing_witness:
  "cr_frames (client_step \<lparr>ce_now = 9000, ce_io = 9, ce_resend_ok = True, ce_opened = Inr 9\<rparr> Cancelled
     (cr_state (client_step \<lparr>ce_now = 6000, ce_io = 9, ce_resend_ok = True, ce_opened = Inl 4\<rparr> Stalled
       (cr_state (client_step \<lparr>ce_now = 3000, ce_io = 9, ce_resend_ok = True, ce_opened = Inr 8\<rparr> Cancelled
         ((client_stream_new 0 7)\<lparr>cl_switch := True, cl_unproven_up := ascii ''GET /''\<rparr>))))))
   = [encode_frame CLOSE 8 []]"
proof -
  let ?st = "(client_stream_new 0 7)\<lparr>cl_switch := True, cl_unproven_up := ascii ''GET /''\<rparr>"
  let ?s1 = "cr_state (client_step \<lparr>ce_now = 3000, ce_io = 9, ce_resend_ok = True, ce_opened = Inr 8\<rparr> Cancelled ?st)"
  let ?s2 = "cr_state (client_step \<lparr>ce_now = 6000, ce_io = 9, ce_resend_ok = True, ce_opened = Inl 4\<rparr> Stalled ?s1)"
  note run = client_step_switch client_switch_def client_step_select client_hole_def client_select_def
    client_stream_new_def is_waiting_def reorder_new_def Let_def replayable_def starts_with_def ascii_def
    replay_chunks.simps ss_encode_def advance_def checked_add_def OPEN_ATTEMPTS_def MAX_DATA_def
  have a: "cr_outcome (client_step \<lparr>ce_now = 3000, ce_io = 9, ce_resend_ok = True, ce_opened = Inr 8\<rparr> Cancelled ?st) = ClRunning"
    by (simp add: run)
  have b: "cr_outcome (client_step \<lparr>ce_now = 9000, ce_io = 9, ce_resend_ok = True, ce_opened = Inr 9\<rparr> Cancelled ?s2) = ClRunning"
    by (simp add: run)
  have "cl_stream_id ?s1 = 8" by (simp add: run)
  then show ?thesis
    using second_switch_replays_nothing [OF _ _ refl a refl b] by (simp add: client_stream_new_def)
qed

end
