(* ===== verification/Packet_Pool.thy ===== *)
theory Packet_Pool
  imports Prelude
begin

text \<open>
  The packet buffers of both programs. \<open>rust-client/packet.rs\<close> has a pool of
  fixed-size storages and a \<open>PacketBuf\<close> that keeps a movable range inside its
  storage, so that headers are prepended without copying;
  \<open>rust-server/packet.rs\<close> has the same pool with other bounds, a \<open>PacketBuf\<close>
  that only keeps a length, and the inline \<open>PacketBuffer\<close> of the downlink
  queue. The pool interface is a locale, interpreted on both pools.
\<close>

section \<open>Constants\<close>

definition PACKET_HEADROOM :: nat where
  "PACKET_HEADROOM = 64"

definition PACKET_CAPACITY :: nat where
  "PACKET_CAPACITY = 2304"

definition PACKET_POOL_PER_WORKER :: nat where
  "PACKET_POOL_PER_WORKER = 256"

definition PACKET_POOL_SHARED :: nat where
  "PACKET_POOL_SHARED = 512"

definition PACKET_POOL_RETAINED_MAX :: nat where
  "PACKET_POOL_RETAINED_MAX = 2048"

definition usize_max :: nat where
  "usize_max = 2 ^ 64 - 1"

definition client_packet_pool_size :: "nat \<Rightarrow> nat" where
  "client_packet_pool_size workers =
     min usize_max (min usize_max (workers * PACKET_POOL_PER_WORKER) + PACKET_POOL_SHARED)"

definition SERVER_PACKET_CAPACITY :: nat where
  "SERVER_PACKET_CAPACITY = 1600"

definition UDP_TX_SLOTS :: nat where
  "UDP_TX_SLOTS = 4096"

definition TUN_TX_SLOTS :: nat where
  "TUN_TX_SLOTS = 1024"

definition SERVER_PACKET_POOL_RETAINED_MAX :: nat where
  "SERVER_PACKET_POOL_RETAINED_MAX = 256"

definition server_packet_pool_size :: nat where
  "server_packet_pool_size = UDP_TX_SLOTS + TUN_TX_SLOTS"

section \<open>The pool\<close>

record packet_pool =
  pp_queue :: "bytes list"
  pp_capacity :: nat
  pp_allocated :: nat
  pp_retained :: nat
  pp_retained_limit :: nat

definition pool_new :: "nat \<Rightarrow> nat \<Rightarrow> packet_pool" where
  "pool_new retained_max buffers =
     (let capacity = max buffers 1 in
      \<lparr>pp_queue = [], pp_capacity = capacity, pp_allocated = 0, pp_retained = 0,
       pp_retained_limit = min capacity retained_max\<rparr>)"

text \<open>A pooled storage when there is one, a new zeroed one while fewer than
  \<open>capacity\<close> are allocated, nothing otherwise.\<close>

definition acquire_storage :: "nat \<Rightarrow> packet_pool \<Rightarrow> (bytes \<times> packet_pool) option" where
  "acquire_storage size_of p =
     (case pp_queue p of
        storage # rest \<Rightarrow>
          Some (storage, p\<lparr>pp_queue := rest, pp_retained := pp_retained p - 1\<rparr>)
      | [] \<Rightarrow>
          if pp_allocated p < pp_capacity p
          then Some (replicate size_of 0, p\<lparr>pp_allocated := pp_allocated p + 1\<rparr>)
          else None)"

definition release_storage :: "nat \<Rightarrow> bytes \<Rightarrow> packet_pool \<Rightarrow> packet_pool" where
  "release_storage size_of storage p =
     (if length storage \<noteq> size_of then p\<lparr>pp_allocated := pp_allocated p - 1\<rparr>
      else if \<not> pp_retained p < pp_retained_limit p then p\<lparr>pp_allocated := pp_allocated p - 1\<rparr>
      else let p = p\<lparr>pp_retained := pp_retained p + 1\<rparr> in
        if length (pp_queue p) < pp_capacity p then p\<lparr>pp_queue := pp_queue p @ [storage]\<rparr>
        else p\<lparr>pp_retained := pp_retained p - 1, pp_allocated := pp_allocated p - 1\<rparr>)"

record pool_snapshot =
  snap_capacity :: nat
  snap_allocated :: nat
  snap_retained :: nat

definition snapshot :: "packet_pool \<Rightarrow> pool_snapshot" where
  "snapshot p = \<lparr>snap_capacity = pp_capacity p, snap_allocated = pp_allocated p,
                 snap_retained = pp_retained p\<rparr>"

section \<open>The client's buffer\<close>

datatype buf_error =
    ReadLengthExceedsCapacity
  | PrependExceedsHeadroom
  | TailLengthOverflow
  | TailExceedsCapacity
  | TrimExceedsLength
  | TruncateExceedsLength
  | RangeInvalid

record packet_buf =
  pb_storage :: bytes
  pb_start :: nat
  pb_end :: nat

definition buf_len :: "packet_buf \<Rightarrow> nat" where
  "buf_len b = pb_end b - pb_start b"

definition as_slice :: "packet_buf \<Rightarrow> bytes" where
  "as_slice b = take (pb_end b - pb_start b) (drop (pb_start b) (pb_storage b))"

text \<open>Writing through a \<open>&mut [u8]\<close> of the storage that starts at \<open>pos\<close>.\<close>

definition write_at :: "nat \<Rightarrow> bytes \<Rightarrow> packet_buf \<Rightarrow> packet_buf" where
  "write_at pos bs b =
     b\<lparr>pb_storage := take pos (pb_storage b) @ bs @ drop (pos + length bs) (pb_storage b)\<rparr>"

definition read_area :: "packet_buf \<Rightarrow> bytes" where
  "read_area b = take (PACKET_CAPACITY - PACKET_HEADROOM) (drop PACKET_HEADROOM (pb_storage b))"

definition set_read_len :: "nat \<Rightarrow> packet_buf \<Rightarrow> buf_error + packet_buf" where
  "set_read_len len b =
     (if PACKET_CAPACITY - PACKET_HEADROOM < len then Inl ReadLengthExceedsCapacity
      else Inr (b\<lparr>pb_start := PACKET_HEADROOM, pb_end := PACKET_HEADROOM + len\<rparr>))"

definition prepend :: "nat \<Rightarrow> packet_buf \<Rightarrow> buf_error + packet_buf" where
  "prepend len b =
     (if pb_start b < len then Inl PrependExceedsHeadroom
      else Inr (b\<lparr>pb_start := pb_start b - len\<rparr>))"

definition extend_tail :: "nat \<Rightarrow> packet_buf \<Rightarrow> buf_error + packet_buf" where
  "extend_tail len b =
     (if usize_max < pb_end b + len then Inl TailLengthOverflow
      else if PACKET_CAPACITY < pb_end b + len then Inl TailExceedsCapacity
      else Inr (b\<lparr>pb_end := pb_end b + len\<rparr>))"

definition trim_front :: "nat \<Rightarrow> packet_buf \<Rightarrow> buf_error + packet_buf" where
  "trim_front len b =
     (if buf_len b < len then Inl TrimExceedsLength
      else Inr (b\<lparr>pb_start := pb_start b + len\<rparr>))"

definition truncate_buf :: "nat \<Rightarrow> packet_buf \<Rightarrow> buf_error + packet_buf" where
  "truncate_buf len b =
     (if buf_len b < len then Inl TruncateExceedsLength
      else Inr (b\<lparr>pb_end := pb_start b + len\<rparr>))"

definition set_range :: "nat \<Rightarrow> nat \<Rightarrow> packet_buf \<Rightarrow> buf_error + packet_buf" where
  "set_range lo hi b =
     (if hi < lo \<or> PACKET_CAPACITY < hi then Inl RangeInvalid
      else Inr (b\<lparr>pb_start := lo, pb_end := hi\<rparr>))"

definition client_try_acquire :: "packet_pool \<Rightarrow> (packet_buf \<times> packet_pool) option" where
  "client_try_acquire p =
     (case acquire_storage PACKET_CAPACITY p of
        Some (storage, p') \<Rightarrow>
          Some (\<lparr>pb_storage = storage, pb_start = PACKET_HEADROOM, pb_end = PACKET_HEADROOM\<rparr>, p')
      | None \<Rightarrow> None)"

definition client_pool_new :: "nat \<Rightarrow> packet_pool" where
  "client_pool_new buffers = pool_new PACKET_POOL_RETAINED_MAX buffers"

definition client_drop_buf :: "packet_buf \<Rightarrow> packet_pool \<Rightarrow> packet_pool" where
  "client_drop_buf b p = release_storage PACKET_CAPACITY (pb_storage b) p"

section \<open>The server's buffers\<close>

record server_packet_buf =
  sb_storage :: bytes
  sb_len :: nat

definition server_as_slice :: "server_packet_buf \<Rightarrow> bytes" where
  "server_as_slice b = take (sb_len b) (sb_storage b)"

definition server_set_len :: "nat \<Rightarrow> server_packet_buf \<Rightarrow> bool \<times> server_packet_buf" where
  "server_set_len len b =
     (if SERVER_PACKET_CAPACITY < len then (False, b) else (True, b\<lparr>sb_len := len\<rparr>))"

definition server_copy_from :: "bytes \<Rightarrow> server_packet_buf \<Rightarrow> bool \<times> server_packet_buf" where
  "server_copy_from data b =
     (if SERVER_PACKET_CAPACITY < length data then (False, b)
      else (True, b\<lparr>sb_storage := data @ drop (length data) (sb_storage b), sb_len := length data\<rparr>))"

definition server_pool_new :: "nat \<Rightarrow> packet_pool" where
  "server_pool_new buffers = pool_new SERVER_PACKET_POOL_RETAINED_MAX buffers"

definition server_release :: "bytes \<Rightarrow> packet_pool \<Rightarrow> packet_pool" where
  "server_release storage p = release_storage SERVER_PACKET_CAPACITY storage p"

definition server_try_acquire :: "packet_pool \<Rightarrow> (server_packet_buf \<times> packet_pool) option" where
  "server_try_acquire p =
     (case acquire_storage SERVER_PACKET_CAPACITY p of
        Some (storage, p') \<Rightarrow> Some (\<lparr>sb_storage = storage, sb_len = 0\<rparr>, p')
      | None \<Rightarrow> None)"

definition server_drop_buf :: "server_packet_buf \<Rightarrow> packet_pool \<Rightarrow> packet_pool" where
  "server_drop_buf b p = server_release (sb_storage b) p"

record packet_buffer =
  buffer_bytes :: bytes
  buffer_len :: nat

definition packet_buffer_new :: packet_buffer where
  "packet_buffer_new = \<lparr>buffer_bytes = replicate SERVER_PACKET_CAPACITY 0, buffer_len = 0\<rparr>"

definition buffer_slice :: "packet_buffer \<Rightarrow> bytes" where
  "buffer_slice b = take (buffer_len b) (buffer_bytes b)"

definition buffer_set_len :: "nat \<Rightarrow> packet_buffer \<Rightarrow> bool \<times> packet_buffer" where
  "buffer_set_len len b =
     (if SERVER_PACKET_CAPACITY < len then (False, b) else (True, b\<lparr>buffer_len := len\<rparr>))"

definition buffer_copy_from :: "bytes \<Rightarrow> packet_buffer \<Rightarrow> bool \<times> packet_buffer" where
  "buffer_copy_from data b =
     (if SERVER_PACKET_CAPACITY < length data then (False, b)
      else (True, b\<lparr>buffer_bytes := data @ drop (length data) (buffer_bytes b),
                    buffer_len := length data\<rparr>))"

section \<open>Packet headers\<close>

text \<open>The client accepts a datagram for its network device only when the
  declared IP packet fits in it.\<close>

definition is_ip_packet :: "bytes \<Rightarrow> bool" where
  "is_ip_packet packet =
     (case packet of
        [] \<Rightarrow> False
      | byte # _ \<Rightarrow>
          if drop_bit 4 byte = 4 \<and> 20 \<le> length packet then
            let header = unat (byte mod 16) * 4; total = unat (be16 packet 2) in
            20 \<le> header \<and> header \<le> total \<and> total \<le> length packet
          else if drop_bit 4 byte = 6 \<and> 40 \<le> length packet then
            40 + unat (be16 packet 4) \<le> length packet
          else False)"

definition extract_dst_ipv4 :: "bytes \<Rightarrow> bytes option" where
  "extract_dst_ipv4 packet =
     (if length packet < 20 \<or> drop_bit 4 (packet ! 0) \<noteq> 4 then None
      else Some [packet ! 16, packet ! 17, packet ! 18, packet ! 19])"

section \<open>Use of a buffer while it is held\<close>

datatype client_buf_op =
    SetReadLen nat | Prepend nat | ExtendTail nat | TrimFront nat | TruncateTo nat
  | SetRange nat nat | WriteAt nat bytes

fun buf_step :: "client_buf_op \<Rightarrow> packet_buf \<Rightarrow> buf_error + packet_buf" where
  "buf_step (SetReadLen n) b = set_read_len n b"
| "buf_step (Prepend n) b = prepend n b"
| "buf_step (ExtendTail n) b = extend_tail n b"
| "buf_step (TrimFront n) b = trim_front n b"
| "buf_step (TruncateTo n) b = truncate_buf n b"
| "buf_step (SetRange s e) b = set_range s e b"
| "buf_step (WriteAt pos bs) b =
     (if pos + length bs \<le> PACKET_CAPACITY then Inr (write_at pos bs b) else Inr b)"

definition client_use :: "client_buf_op \<Rightarrow> packet_buf \<Rightarrow> packet_buf" where
  "client_use oper b = (case buf_step oper b of Inl e \<Rightarrow> b | Inr b' \<Rightarrow> b')"

datatype server_buf_op = SetLen nat | CopyFrom bytes

fun server_use :: "server_buf_op \<Rightarrow> server_packet_buf \<Rightarrow> server_packet_buf" where
  "server_use (SetLen n) b = snd (server_set_len n b)"
| "server_use (CopyFrom bs) b = snd (server_copy_from bs b)"

text \<open>A program over a pool: buffers are acquired, used and dropped in any
  order. The held buffers are a list; an index outside it does nothing.\<close>

datatype 'u pool_event = Acquire | Use nat 'u | Drop nat

fun pool_apply :: "('p \<Rightarrow> ('b \<times> 'p) option) \<Rightarrow> ('b \<Rightarrow> 'p \<Rightarrow> 'p) \<Rightarrow> ('u \<Rightarrow> 'b \<Rightarrow> 'b) \<Rightarrow> 'u pool_event
    \<Rightarrow> 'b list \<times> 'p \<Rightarrow> 'b list \<times> 'p" where
  "pool_apply acquire release work Acquire (held, p) =
     (case acquire p of Some (b, p') \<Rightarrow> (held @ [b], p') | None \<Rightarrow> (held, p))"
| "pool_apply acquire release work (Use i u) (held, p) =
     (if i < length held then (held[i := work u (held ! i)], p) else (held, p))"
| "pool_apply acquire release work (Drop i) (held, p) =
     (if i < length held then (take i held @ drop (Suc i) held, release (held ! i) p)
      else (held, p))"

definition pool_run :: "('p \<Rightarrow> ('b \<times> 'p) option) \<Rightarrow> ('b \<Rightarrow> 'p \<Rightarrow> 'p) \<Rightarrow> ('u \<Rightarrow> 'b \<Rightarrow> 'b)
    \<Rightarrow> 'u pool_event list \<Rightarrow> 'p \<Rightarrow> 'b list \<times> 'p" where
  "pool_run acquire release work evs p = fold (pool_apply acquire release work) evs ([], p)"

section \<open>The pool interface\<close>

locale buffer_pool =
  fixes acquire :: "'p \<Rightarrow> ('b \<times> 'p) option"
    and release :: "'b \<Rightarrow> 'p \<Rightarrow> 'p"
    and work :: "'u \<Rightarrow> 'b \<Rightarrow> 'b"
    and accounted :: "nat \<Rightarrow> 'p \<Rightarrow> bool"
    and good :: "'b \<Rightarrow> bool"
  assumes acquire_accounted:
      "accounted n p \<Longrightarrow> acquire p = Some (b, p') \<Longrightarrow> accounted (Suc n) p' \<and> good b"
    and release_accounted: "accounted (Suc n) p \<Longrightarrow> good b \<Longrightarrow> accounted n (release b p)"
    and work_good: "good b \<Longrightarrow> good (work u b)"
begin

lemma event_accounted:
  assumes "accounted (length held) p" and "\<forall>b \<in> set held. good b"
    and "pool_apply acquire release work ev (held, p) = (held', p')"
  shows "accounted (length held') p' \<and> (\<forall>b \<in> set held'. good b)"
proof (cases ev)
  case Acquire
  show ?thesis
  proof (cases "acquire p")
    case None
    then show ?thesis using assms Acquire by auto
  next
    case (Some bp)
    then obtain b q where bq: "acquire p = Some (b, q)" by (cases bp) auto
    then show ?thesis using assms Acquire acquire_accounted [OF assms(1) bq] by auto
  qed
next
  case (Use i u)
  have "set (held[i := work u (held ! i)]) \<subseteq> insert (work u (held ! i)) (set held)"
    by (rule set_update_subset_insert)
  moreover have "i < length held \<Longrightarrow> good (work u (held ! i))"
    using assms(2) by (simp add: work_good)
  ultimately show ?thesis using assms Use by (cases "i < length held") auto
next
  case (Drop i)
  show ?thesis
  proof (cases "i < length held")
    case True
    then have len: "length held = Suc (length (take i held @ drop (Suc i) held))" by simp
    have "good (held ! i)" using True assms(2) by simp
    then have "accounted (length (take i held @ drop (Suc i) held)) (release (held ! i) p)"
      using assms(1) len by (metis release_accounted)
    moreover have "set (take i held @ drop (Suc i) held) \<subseteq> set held"
      by (simp add: set_take_subset set_drop_subset)
    then have "\<forall>b \<in> set (take i held @ drop (Suc i) held). good b"
      using assms(2) by blast
    ultimately show ?thesis using assms(3) True Drop by auto
  next
    case False
    then show ?thesis using assms Drop by auto
  qed
qed

lemma run_accounted:
  assumes "accounted 0 p" and "pool_run acquire release work evs p = (held, q)"
  shows "accounted (length held) q \<and> (\<forall>b \<in> set held. good b)"
proof -
  have "accounted (length (fst s)) (snd s) \<Longrightarrow> \<forall>b \<in> set (fst s). good b \<Longrightarrow>
      accounted (length (fst (fold (pool_apply acquire release work) evs s)))
        (snd (fold (pool_apply acquire release work) evs s))
      \<and> (\<forall>b \<in> set (fst (fold (pool_apply acquire release work) evs s)). good b)" for s
  proof (induction evs arbitrary: s)
    case Nil
    then show ?case by simp
  next
    case (Cons ev evs)
    obtain held p where s: "s = (held, p)" by (cases s)
    obtain held' p' where e: "pool_apply acquire release work ev (held, p) = (held', p')"
      by (cases "pool_apply acquire release work ev (held, p)")
    have "accounted (length held') p' \<and> (\<forall>b \<in> set held'. good b)"
      by (rule event_accounted [OF _ _ e]) (use Cons.prems s in simp_all)
    then show ?case using Cons.IH [of "(held', p')"] s e by simp
  qed
  from this [of "([], p)"] show ?thesis using assms by (simp add: pool_run_def)
qed

end

section \<open>Accounting of the storages\<close>

text \<open>With \<open>n\<close> buffers held: every allocated storage is held or queued, the
  counter of retained storages is the length of the queue, and neither bound is
  exceeded.\<close>

definition pool_accounted :: "nat \<Rightarrow> nat \<Rightarrow> packet_pool \<Rightarrow> bool" where
  "pool_accounted size_of n p \<longleftrightarrow>
     pp_allocated p = n + length (pp_queue p) \<and> pp_allocated p \<le> pp_capacity p \<and>
     pp_retained p = length (pp_queue p) \<and> pp_retained p \<le> pp_retained_limit p \<and>
     pp_retained_limit p \<le> pp_capacity p \<and> (\<forall>s \<in> set (pp_queue p). length s = size_of)"

lemma pool_new_accounted: "pool_accounted size_of 0 (pool_new r n)"
  by (simp add: pool_accounted_def pool_new_def Let_def)

lemma acquire_storage_accounted:
  assumes "pool_accounted size_of n p" and "acquire_storage size_of p = Some (s, p')"
  shows "pool_accounted size_of (Suc n) p' \<and> length s = size_of"
  using assms
  by (auto simp: pool_accounted_def acquire_storage_def split: list.splits if_splits)

lemma release_storage_accounted:
  assumes "pool_accounted size_of (Suc n) p" and "length s = size_of"
  shows "pool_accounted size_of n (release_storage size_of s p)"
  using assms by (auto simp: pool_accounted_def release_storage_def Let_def)

lemma acquire_storage_None:
  assumes "pool_accounted size_of n p"
  shows "acquire_storage size_of p = None \<longleftrightarrow> n = pp_capacity p"
  using assms by (auto simp: pool_accounted_def acquire_storage_def split: list.splits)

lemma acquire_capacity:
  "acquire_storage size_of p = Some (s, p') \<Longrightarrow>
   pp_capacity p' = pp_capacity p \<and> pp_retained_limit p' = pp_retained_limit p"
  by (auto simp: acquire_storage_def split: list.splits if_splits)

lemma release_capacity [simp]:
  "pp_capacity (release_storage size_of s p) = pp_capacity p"
  "pp_retained_limit (release_storage size_of s p) = pp_retained_limit p"
  by (simp_all add: release_storage_def Let_def)

section \<open>The client's buffer stays in its frame\<close>

definition buf_ok :: "packet_buf \<Rightarrow> bool" where
  "buf_ok b \<longleftrightarrow> length (pb_storage b) = PACKET_CAPACITY \<and> pb_start b \<le> pb_end b
     \<and> pb_end b \<le> PACKET_CAPACITY"

lemma buf_step_ok:
  assumes "buf_ok b" and "buf_step oper b = Inr b'"
  shows "buf_ok b'"
  using assms
  by (cases oper) (auto simp: buf_ok_def set_read_len_def prepend_def extend_tail_def
      trim_front_def truncate_buf_def set_range_def write_at_def buf_len_def PACKET_HEADROOM_def
      PACKET_CAPACITY_def split: if_splits)

lemma client_use_ok: "buf_ok b \<Longrightarrow> buf_ok (client_use oper b)"
  using buf_step_ok by (auto simp: client_use_def split: sum.split)

lemma length_as_slice: "buf_ok b \<Longrightarrow> length (as_slice b) = buf_len b"
  by (auto simp: buf_ok_def as_slice_def buf_len_def)

definition server_buf_ok :: "server_packet_buf \<Rightarrow> bool" where
  "server_buf_ok b \<longleftrightarrow> length (sb_storage b) = SERVER_PACKET_CAPACITY \<and> sb_len b \<le> SERVER_PACKET_CAPACITY"

lemma server_use_ok: "server_buf_ok b \<Longrightarrow> server_buf_ok (server_use oper b)"
  by (cases oper) (auto simp: server_buf_ok_def server_set_len_def server_copy_from_def)

definition client_accounted :: "nat \<Rightarrow> nat \<Rightarrow> packet_pool \<Rightarrow> bool" where
  "client_accounted capacity n p \<longleftrightarrow> 
     pool_accounted PACKET_CAPACITY n p \<and> pp_capacity p = capacity
     \<and> pp_retained_limit p \<le> PACKET_POOL_RETAINED_MAX"

definition server_accounted :: "nat \<Rightarrow> nat \<Rightarrow> packet_pool \<Rightarrow> bool" where
  "server_accounted capacity n p \<longleftrightarrow>
     pool_accounted SERVER_PACKET_CAPACITY n p \<and> pp_capacity p = capacity
     \<and> pp_retained_limit p \<le> SERVER_PACKET_POOL_RETAINED_MAX"

interpretation client_pool: buffer_pool client_try_acquire client_drop_buf client_use
  "client_accounted capacity" buf_ok for capacity
proof unfold_locales
  fix n p b p'
  assume "client_accounted capacity n p" "client_try_acquire p = Some (b, p')"
  then show "client_accounted capacity (Suc n) p' \<and> buf_ok b"
    using acquire_storage_accounted [of PACKET_CAPACITY n p] acquire_capacity [of PACKET_CAPACITY p]
    by (auto simp: client_accounted_def client_try_acquire_def buf_ok_def PACKET_HEADROOM_def
        PACKET_CAPACITY_def split: option.splits)
next
  fix n p b
  assume "client_accounted capacity (Suc n) p" "buf_ok b"
  then show "client_accounted capacity n (client_drop_buf b p)"
    by (simp add: client_accounted_def client_drop_buf_def buf_ok_def release_storage_accounted)
qed (rule client_use_ok)

interpretation server_pool: buffer_pool server_try_acquire server_drop_buf server_use
  "server_accounted capacity" server_buf_ok for capacity
proof unfold_locales
  fix n p b p'
  assume "server_accounted capacity n p" "server_try_acquire p = Some (b, p')"
  then show "server_accounted capacity (Suc n) p' \<and> server_buf_ok b"
    using acquire_storage_accounted [of SERVER_PACKET_CAPACITY n p]
      acquire_capacity [of SERVER_PACKET_CAPACITY p]
    by (auto simp: server_accounted_def server_try_acquire_def server_buf_ok_def split: option.splits)
next
  fix n p b
  assume "server_accounted capacity (Suc n) p" "server_buf_ok b"
  then show "server_accounted capacity n (server_drop_buf b p)"
    by (simp add: server_accounted_def server_drop_buf_def server_release_def server_buf_ok_def release_storage_accounted)
qed (rule server_use_ok)

section \<open>Headers and trailers\<close>

lemma as_slice_write_front:
  assumes "buf_ok b" and "length h \<le> pb_start b"
  shows "as_slice (write_at (pb_start b - length h) h (b\<lparr>pb_start := pb_start b - length h\<rparr>))
    = h @ as_slice b"
  using assms by (auto simp: buf_ok_def as_slice_def write_at_def take_append drop_append)

lemma as_slice_write_back:
  assumes "buf_ok b" and "pb_end b + length t \<le> PACKET_CAPACITY"
  shows "as_slice (write_at (pb_end b) t (b\<lparr>pb_end := pb_end b + length t\<rparr>)) = as_slice b @ t"
proof -
  let ?x = "drop (pb_start b) (take (pb_end b) (pb_storage b))"
  have ok: "length (pb_storage b) = PACKET_CAPACITY" "pb_start b \<le> pb_end b"
    "pb_end b \<le> PACKET_CAPACITY" using assms(1) by (simp_all add: buf_ok_def)
  then have "length ?x = pb_end b - pb_start b" by simp
  moreover have "?x = as_slice b" by (simp add: as_slice_def drop_take)
  moreover have "pb_end b + length t - pb_start b = (pb_end b - pb_start b) + length t"
    using ok by simp
  ultimately show ?thesis using ok by (simp add: as_slice_def write_at_def)
qed

lemma as_slice_trim:
  assumes "buf_ok b" and "n \<le> buf_len b"
  shows "as_slice (b\<lparr>pb_start := pb_start b + n\<rparr>) = drop n (as_slice b)"
  using assms by (auto simp: buf_ok_def as_slice_def buf_len_def drop_take add.commute)

lemma as_slice_truncate:
  assumes "buf_ok b" and "n \<le> buf_len b"
  shows "as_slice (b\<lparr>pb_end := pb_start b + n\<rparr>) = take n (as_slice b)"
  using assms by (auto simp: buf_ok_def as_slice_def buf_len_def min_def)

text \<open>Sealing writes a header in front of the payload and a tag behind it;
  opening trims them off again.\<close>

definition put_header :: "bytes \<Rightarrow> packet_buf \<Rightarrow> buf_error + packet_buf" where
  "put_header h b = (case prepend (length h) b of Inl e \<Rightarrow> Inl e | Inr b' \<Rightarrow> Inr (write_at (pb_start b') h b'))"

definition put_trailer :: "bytes \<Rightarrow> packet_buf \<Rightarrow> buf_error + packet_buf" where
  "put_trailer t b =
     (case extend_tail (length t) b of Inl e \<Rightarrow> Inl e | Inr b' \<Rightarrow> Inr (write_at (pb_end b) t b'))"

lemma put_header_slice:
  assumes "buf_ok b" and "length h \<le> pb_start b"
  obtains b' where "put_header h b = Inr b'" and "buf_ok b'" and "as_slice b' = h @ as_slice b"
    and "pb_end b' = pb_end b"
proof -
  let ?b = "b\<lparr>pb_start := pb_start b - length h\<rparr>"
  have "put_header h b = Inr (write_at (pb_start b - length h) h ?b)"
    using assms by (simp add: put_header_def prepend_def)
  moreover have "buf_ok (write_at (pb_start b - length h) h ?b)"
    using assms by (auto simp: buf_ok_def write_at_def)
  ultimately show thesis
    using that assms as_slice_write_front by (simp add: write_at_def)
qed

lemma put_trailer_slice:
  assumes "buf_ok b" and "pb_end b + length t \<le> PACKET_CAPACITY"
  obtains b' where "put_trailer t b = Inr b'" and "buf_ok b'" and "as_slice b' = as_slice b @ t"
proof -
  let ?b = "write_at (pb_end b) t (b\<lparr>pb_end := pb_end b + length t\<rparr>)"
  have "pb_end b + length t \<le> usize_max"
    using assms(2) by (simp add: PACKET_CAPACITY_def usize_max_def)
  then have "put_trailer t b = Inr ?b"
    using assms by (simp add: put_trailer_def extend_tail_def)
  moreover have "buf_ok ?b" using assms by (auto simp: buf_ok_def write_at_def)
  ultimately show thesis using that assms as_slice_write_back by blast
qed

lemma trim_front_slice:
  assumes "buf_ok b" and "n \<le> buf_len b"
  shows "trim_front n b = Inr (b\<lparr>pb_start := pb_start b + n\<rparr>)"
    and "buf_ok (b\<lparr>pb_start := pb_start b + n\<rparr>)"
  using assms by (auto simp: trim_front_def buf_ok_def buf_len_def)

lemma truncate_slice:
  assumes "buf_ok b" and "n \<le> buf_len b"
  shows "truncate_buf n b = Inr (b\<lparr>pb_end := pb_start b + n\<rparr>)"
    and "buf_ok (b\<lparr>pb_end := pb_start b + n\<rparr>)"
  using assms by (auto simp: truncate_buf_def buf_ok_def buf_len_def)

lemma sealed_payload_is_recovered:
  assumes ok: "buf_ok b" and "length h \<le> pb_start b"
    and "pb_end b + length t \<le> PACKET_CAPACITY"
  shows "\<exists>b1 b2 b3 b4. put_header h b = Inr b1 \<and> put_trailer t b1 = Inr b2
    \<and> as_slice b2 = h @ as_slice b @ t \<and> trim_front (length h) b2 = Inr b3
    \<and> truncate_buf (buf_len b) b3 = Inr b4 \<and> as_slice b4 = as_slice b \<and> buf_ok b4"
proof -
  obtain b1 where b1: "put_header h b = Inr b1" "buf_ok b1" "as_slice b1 = h @ as_slice b"
    "pb_end b1 = pb_end b"
    using put_header_slice [OF ok] assms(2) by blast
  then have "pb_end b1 + length t \<le> PACKET_CAPACITY" using assms(3) by simp
  then obtain b2 where b2: "put_trailer t b1 = Inr b2" "buf_ok b2" "as_slice b2 = as_slice b1 @ t"
    using put_trailer_slice [OF b1(2)] by blast
  define b3 where "b3 = b2\<lparr>pb_start := pb_start b2 + length h\<rparr>"
  have len2: "buf_len b2 = length h + buf_len b + length t"
    using length_as_slice [OF b2(2)] length_as_slice [OF ok] b1(3) b2(3) by simp
  then have "length h \<le> buf_len b2" by simp
  note trim = trim_front_slice [OF b2(2) this, folded b3_def]
  have s3: "as_slice b3 = as_slice b @ t"
    unfolding b3_def using as_slice_trim [OF b2(2)] \<open>length h \<le> buf_len b2\<close> b1(3) b2(3) by simp
  have "buf_len b \<le> buf_len b3"
    using length_as_slice [OF trim(2)] length_as_slice [OF ok] s3 by simp
  then show ?thesis
    using b1(1) b2(1) trim(1) truncate_slice [OF trim(2)] as_slice_truncate [OF trim(2)] b1(3) b2(3)
      s3 length_as_slice [OF ok] by auto
qed

lemma client_bounds:
  assumes "client_accounted c n p"
  shows "pp_allocated p = n + length (pp_queue p) \<and> pp_allocated p \<le> c
    \<and> length (pp_queue p) \<le> PACKET_POOL_RETAINED_MAX \<and> (client_try_acquire p = None \<longleftrightarrow> n = c)"
  using assms acquire_storage_None [of PACKET_CAPACITY n p]
  by (auto simp: client_accounted_def pool_accounted_def client_try_acquire_def split: option.split)

lemma server_bounds:
  assumes "server_accounted c n p"
  shows "pp_allocated p = n + length (pp_queue p) \<and> pp_allocated p \<le> c
    \<and> length (pp_queue p) \<le> SERVER_PACKET_POOL_RETAINED_MAX \<and> (server_try_acquire p = None \<longleftrightarrow> n = c)"
  using assms acquire_storage_None [of SERVER_PACKET_CAPACITY n p]
  by (auto simp: server_accounted_def pool_accounted_def server_try_acquire_def split: option.split)

section \<open>Properties\<close>

text \<open>C23: Whatever program runs over a packet pool of \<open>n\<close> buffers (acquiring, using and
  dropping buffers in any order), on the client and on the server: every allocated storage is held
  by a buffer or retained in the queue, at most \<open>max n 1\<close> are allocated and at most the retained
  limit stay in the queue, an acquire fails exactly when \<open>max n 1\<close> buffers are held, so no storage
  is ever leaked, and the range of every held buffer stays inside a storage of full capacity.\<close>

theorem pools_are_bounded:
  "(case pool_run client_try_acquire client_drop_buf client_use evs
      (client_pool_new n) of (held, p) \<Rightarrow>
      pp_allocated p = length held + length (pp_queue p) \<and> pp_allocated p \<le> max n 1
      \<and> length (pp_queue p) \<le> PACKET_POOL_RETAINED_MAX
      \<and> (client_try_acquire p = None \<longleftrightarrow> length held = max n 1) \<and> list_all buf_ok held)
   \<and> (case pool_run server_try_acquire server_drop_buf server_use sevs
      (server_pool_new m) of (held, p) \<Rightarrow>
      pp_allocated p = length held + length (pp_queue p) \<and> pp_allocated p \<le> max m 1
      \<and> length (pp_queue p) \<le> SERVER_PACKET_POOL_RETAINED_MAX
      \<and> (server_try_acquire p = None \<longleftrightarrow> length held = max m 1) \<and> list_all server_buf_ok held)"
proof -
  have "client_accounted (max n 1) 0 (client_pool_new n)"
    by (simp add: client_accounted_def client_pool_new_def pool_new_accounted)
      (simp add: pool_new_def Let_def)
  note client = client_pool.run_accounted [OF this, of evs]
  have "server_accounted (max m 1) 0 (server_pool_new m)"
    by (simp add: server_accounted_def server_pool_new_def pool_new_accounted)
      (simp add: pool_new_def Let_def)
  note server = server_pool.run_accounted [OF this, of sevs]
  obtain held p where c: "pool_run client_try_acquire client_drop_buf client_use evs
      (client_pool_new n) = (held, p)" by (rule prod.exhaust)
  obtain sheld q where s: "pool_run server_try_acquire server_drop_buf server_use sevs
      (server_pool_new m) = (sheld, q)" by (rule prod.exhaust)
  show ?thesis
    unfolding c s list_all_iff prod.case
    using client_bounds [of "max n 1"] server_bounds [of "max m 1"] client [OF c] server [OF s]
    by blast
qed

end
