(* ===== verification/Obfs_Wire.thy ===== *)
theory Obfs_Wire
  imports Packet_Pool
begin

text \<open>
  The wire format that hides tunnel packets in RTP: the client's \<open>wrap\<close> and
  \<open>unwrap\<close> (\<open>src/rust-client/obfs.rs\<close>) and the server's counterparts
  \<open>wrap_legacy_into\<close> and \<open>unwrap_legacy_in_place\<close>
  (\<open>src/rust-server/protocol.rs\<close>).

  The ciphers come from libraries and are arguments: AES-128-CTR, HMAC-SHA1 and
  ChaCha20-Poly1305, keyed. \<open>crypto_ok\<close> states what the code relies on. Random
  choices and elapsed times are arguments. A packet buffer is seen through its
  content and the position of its content in the storage; the in-place operations
  are functions on the content.
\<close>

unbundle bit_operations_syntax

section \<open>Ciphers\<close>

record crypto =
  aes_ctr :: "bytes \<Rightarrow> bytes \<Rightarrow> bytes"
  hmac_sha1 :: "bytes \<Rightarrow> bytes"
  aead_seal :: "bytes \<Rightarrow> bytes \<Rightarrow> bytes \<Rightarrow> bytes \<times> bytes"
  aead_open :: "bytes \<Rightarrow> bytes \<Rightarrow> bytes \<Rightarrow> bytes \<Rightarrow> bytes option"

definition crypto_ok :: "crypto \<Rightarrow> bool" where
  "crypto_ok c \<longleftrightarrow>
     (\<forall>iv m. length (aes_ctr c iv m) = length m \<and> aes_ctr c iv (aes_ctr c iv m) = m) \<and>
     (\<forall>m. length (hmac_sha1 c m) = 20) \<and>
     (\<forall>n a m ct tag. aead_seal c n a m = (ct, tag) \<longrightarrow>
        length ct = length m \<and> length tag = 16 \<and> aead_open c n a tag ct = Some m)"

section \<open>Clocks and nonces\<close>

text \<open>Elapsed time is a pair of seconds and sub-second nanoseconds, as in
  \<open>Duration\<close>.\<close>

definition rtp_clock_rate :: "u8 \<Rightarrow> u32" where
  "rtp_clock_rate payload_type = (if payload_type = 96 then 90000 else 48000)"

definition duration_ticks :: "u64 \<times> u32 \<Rightarrow> u32 \<Rightarrow> u32" where
  "duration_ticks elapsed clock_rate =
     (let rate = ucast clock_rate :: u64
      in ucast (fst elapsed * rate + (ucast (snd elapsed) * rate) div 1000000000))"

definition nonce :: "u32 \<Rightarrow> u16 \<Rightarrow> u32 \<Rightarrow> bytes" where
  "nonce ssrc sequence timestamp = to_be ssrc @ to_be sequence @ [0, 0] @ to_be timestamp"

definition srtp_iv :: "u32 \<Rightarrow> u16 \<Rightarrow> u32 \<Rightarrow> bytes" where
  "srtp_iv ssrc sequence timestamp = to_be ssrc @ to_be sequence @ [0, 0] @ to_be timestamp @ [0, 0, 0, 0]"

section \<open>Client\<close>

datatype obfs_mode = Audio | Video

record obfs_config =
  padding_max :: nat
  cf_ssrc :: u32
  cf_payload_type :: u8
  cf_mode :: obfs_mode

definition obfs_config_new :: "u32 \<Rightarrow> obfs_mode \<Rightarrow> obfs_config" where
  "obfs_config_new random_ssrc mode =
     (case mode of
        Audio \<Rightarrow> \<lparr>padding_max = 24, cf_ssrc = random_ssrc, cf_payload_type = 111, cf_mode = mode\<rparr>
      | Video \<Rightarrow> \<lparr>padding_max = 60, cf_ssrc = random_ssrc, cf_payload_type = 96, cf_mode = mode\<rparr>)"

record obfs_state =
  os_count :: u64
  os_initial_timestamp :: u32
  os_initial_abs_send_time :: u32
  os_initial_sequence :: u16
  os_transport_sequence :: u16

definition obfs_next :: "obfs_state \<Rightarrow> (u64 \<times> u16) \<times> obfs_state" where
  "obfs_next s =
     ((os_count s, os_transport_sequence s),
      s\<lparr>os_count := os_count s + 1, os_transport_sequence := os_transport_sequence s + 1\<rparr>)"

definition initial_sequence :: "obfs_state \<Rightarrow> u64 \<Rightarrow> u16" where
  "initial_sequence s count = os_initial_sequence s + ucast count"

text \<open>The random choices of one packet: the padding length below \<open>padding_max\<close>, the
  padding bytes and the marker draw.\<close>

record draws =
  padding_random :: nat
  padding_bytes :: bytes
  marker :: bool

datatype obfs_error =
    EmptyPayload
  | ExceedsCapacity
  | NotRtp
  | UnsupportedPayloadType u8
  | ShortExtension
  | ShortHeader
  | MissingTag
  | AuthFailed
  | InvalidPadding
  | ExpectedAudio
  | EmptyEncrypted
  | InvalidBounds

definition obfs_header :: "u8 \<Rightarrow> bool \<Rightarrow> u16 \<Rightarrow> u32 \<Rightarrow> u32 \<Rightarrow> u32 \<Rightarrow> u16 \<Rightarrow> bytes" where
  "obfs_header payload_type mark sequence timestamp ssrc abs_time transport_sequence =
     [0xb0 OR 0x20,
      (if payload_type = 96 \<and> mark then (payload_type AND 0x7f) OR 0x80 else payload_type AND 0x7f)]
     @ to_be sequence @ to_be timestamp @ to_be ssrc @ to_be (0xbede :: u16) @ to_be (2 :: u16)
     @ [0x32, ucast (drop_bit 16 abs_time), ucast (drop_bit 8 abs_time), ucast abs_time, 0x51]
     @ to_be transport_sequence @ [0]"

text \<open>\<open>start\<close> is where the content begins in the storage.\<close>

definition obfs_wrap ::
  "crypto \<Rightarrow> obfs_config \<Rightarrow> draws \<Rightarrow> u64 \<times> u32 \<Rightarrow> nat \<Rightarrow> obfs_state \<Rightarrow> bytes
     \<Rightarrow> obfs_state \<times> (obfs_error + bytes)" where
  "obfs_wrap c cfg d elapsed start s payload =
     (if payload = [] then (s, Inl EmptyPayload)
      else case obfs_next s of
        ((count, transport_sequence), s') \<Rightarrow>
          let sequence = initial_sequence s' count;
              payload_type = cf_payload_type cfg;
              timestamp = os_initial_timestamp s' + duration_ticks elapsed (rtp_clock_rate payload_type);
              random = (if padding_max cfg = 0 then 0 else padding_random d);
              padding_total = random + 1;
              tail = (if cf_mode cfg = Video then padding_total + 10 else padding_total + 16)
          in if start < 24 \<or> start + length payload + tail > PACKET_CAPACITY
             then (s', Inl ExceedsCapacity)
             else let abs_time = (os_initial_abs_send_time s' + duration_ticks elapsed 262144) AND 0x00ffffff;
                      header = obfs_header payload_type (marker d) sequence timestamp (cf_ssrc cfg) abs_time
                                 transport_sequence;
                      padding = take random (padding_bytes d) @ [word_of_nat padding_total]
                  in if cf_mode cfg = Video then
                       (let ct = aes_ctr c (srtp_iv (cf_ssrc cfg) sequence timestamp) payload;
                            message = header @ ct @ padding
                        in (s', Inr (message @ take 10 (hmac_sha1 c message))))
                     else
                       (case aead_seal c (nonce (cf_ssrc cfg) sequence timestamp) header payload of
                          (ct, tag) \<Rightarrow> (s', Inr (header @ ct @ tag @ padding))))"

definition obfs_unwrap :: "crypto \<Rightarrow> obfs_mode \<Rightarrow> bytes \<Rightarrow> obfs_error + (bytes \<times> u16)" where
  "obfs_unwrap c mode wire =
     (if length wire < 13 \<or> drop_bit 6 (wire ! 0) \<noteq> 2 then Inl NotRtp
      else let payload_type = (wire ! 1) AND 0x7f
      in if payload_type \<noteq> 111 \<and> payload_type \<noteq> 96 \<and> payload_type \<noteq> 6
         then Inl (UnsupportedPayloadType payload_type)
      else let sequence = be16 wire 2; timestamp = be32 wire 4; ssrc = be32 wire 8;
               extended = ((wire ! 0) AND 0x10 \<noteq> 0)
      in if extended \<and> length wire < 16 then Inl ShortExtension
      else let header_len = (if extended then 12 + 4 + unat (be16 wire 14) * 4 else 12)
      in if length wire < header_len then Inl ShortHeader
      else if mode = Video then
        (if length wire < header_len + 10 then Inl MissingTag
         else let tag_start = length wire - 10
         in if take 10 (hmac_sha1 c (take tag_start wire)) \<noteq> drop tag_start wire then Inl AuthFailed
         else let padding = unat (wire ! (tag_start - 1));
                  padded = ((wire ! 0) AND 0x20 \<noteq> 0)
         in if padded \<and> (padding = 0 \<or> padding > tag_start - header_len) then Inl InvalidPadding
         else let payload_end = (if padded then tag_start - padding else tag_start)
         in Inr (aes_ctr c (srtp_iv ssrc sequence timestamp)
                   (take (payload_end - header_len) (drop header_len wire)), sequence))
      else if payload_type \<noteq> 111 then Inl ExpectedAudio
      else let padding = unat (wire ! (length wire - 1));
               padded = ((wire ! 0) AND 0x20 \<noteq> 0)
      in if padded \<and> (padding = 0 \<or> padding > length wire - header_len) then Inl InvalidPadding
      else let payload_end = (if padded then length wire - padding else length wire)
      in if payload_end \<le> header_len + 16 then Inl EmptyEncrypted
      else let tag_start = payload_end - 16;
               tag = take 16 (drop tag_start wire)
      in (case aead_open c (nonce ssrc sequence timestamp) (take header_len wire) tag
                 (take (tag_start - header_len) (drop header_len wire)) of
            None \<Rightarrow> Inl AuthFailed
          | Some plain \<Rightarrow> Inr (plain, sequence)))"

definition is_rtp_packet :: "bytes \<Rightarrow> bool" where
  "is_rtp_packet wire \<longleftrightarrow>
     length wire \<ge> 13 \<and> drop_bit 6 (wire ! 0) = 2 \<and>
     ((wire ! 1) AND 0x7f = 111 \<or> (wire ! 1) AND 0x7f = 96 \<or> (wire ! 1) AND 0x7f = 6)"

section \<open>Server\<close>

record out_state =
  ou_ssrc :: u32
  ou_initial_seq :: u16
  ou_initial_ts :: u32
  ou_initial_abs_send_time :: u32
  ou_count :: u64
  ou_payload_type :: u8
  ou_transport_seq :: u16

definition clocks :: "out_state \<Rightarrow> u64 \<times> u32 \<Rightarrow> u32 \<times> u32" where
  "clocks out elapsed =
     (ou_initial_ts out + duration_ticks elapsed (rtp_clock_rate (ou_payload_type out)),
      (ou_initial_abs_send_time out + duration_ticks elapsed 262144) AND 0x00ffffff)"

definition legacy_header :: "u8 \<Rightarrow> bool \<Rightarrow> u16 \<Rightarrow> u32 \<Rightarrow> u32 \<Rightarrow> u32 \<Rightarrow> u16 \<Rightarrow> bytes" where
  "legacy_header payload_type mark seq timestamp ssrc abs_send_time transport_seq =
     [0xb0, (if payload_type = 96 \<and> mark then (payload_type AND 0x7f) OR 0x80 else payload_type AND 0x7f)]
     @ to_be seq @ to_be timestamp @ to_be ssrc @ [0xbe, 0xde] @ to_be (2 :: u16)
     @ [0x32] @ drop 1 (to_be abs_send_time) @ [0x51] @ to_be transport_seq @ [0]"

definition wrap_legacy_into ::
  "crypto \<Rightarrow> bool \<Rightarrow> draws \<Rightarrow> u64 \<times> u32 \<Rightarrow> out_state \<Rightarrow> bytes \<Rightarrow> out_state \<times> (obfs_error + bytes)" where
  "wrap_legacy_into c is_srtp d elapsed out plain =
     (let seq = ou_initial_seq out + ucast (ou_count out);
          timestamp = fst (clocks out elapsed);
          abs_send_time = snd (clocks out elapsed);
          transport_seq = ou_transport_seq out;
          out' = out\<lparr>ou_count := ou_count out + 1, ou_transport_seq := ou_transport_seq out + 1\<rparr>;
          header = legacy_header (ou_payload_type out) (marker d) seq timestamp (ou_ssrc out) abs_send_time transport_seq;
          padding = padding_random d + 1;
          pad = take (padding_random d) (padding_bytes d) @ [word_of_nat padding]
      in if is_srtp then
           (if 24 + (length plain + padding) + 10 > SERVER_PACKET_CAPACITY then (out', Inl ExceedsCapacity)
            else let message = header @ aes_ctr c (srtp_iv (ou_ssrc out) seq timestamp) plain @ pad
                 in (out', Inr (message @ take 10 (hmac_sha1 c message))))
         else if 24 + length plain + 16 + padding > SERVER_PACKET_CAPACITY then (out', Inl ExceedsCapacity)
         else case aead_seal c (nonce (ou_ssrc out) seq timestamp) header plain of
                (ct, tag) \<Rightarrow> (out', Inr (header @ ct @ tag @ pad)))"

definition rtp_header_len :: "bytes \<Rightarrow> obfs_error + nat" where
  "rtp_header_len wire =
     (if length wire < 13 \<or> drop_bit 6 (wire ! 0) \<noteq> 2 then Inl NotRtp
      else let extended = ((wire ! 0) AND 0x10 \<noteq> 0)
      in if extended \<and> length wire < 16 then Inl ShortExtension
      else let header_len = (if extended then 12 + (4 + unat (be16 wire 14) * 4) else 12)
      in if length wire < header_len then Inl ShortHeader else Inr header_len)"

text \<open>The scan over DTLS records at the start of a decrypted SRTP payload: the offset
  behind the last whole record.\<close>

function dtls_records :: "bytes \<Rightarrow> nat \<Rightarrow> nat" where
  "dtls_records plain offset =
     (if offset + 13 \<le> length plain \<and> 20 \<le> plain ! offset \<and> plain ! offset \<le> 23 \<and> plain ! (offset + 1) = 0xfe
      then let record_len = 13 + (unat (plain ! (offset + 11)) * 256 + unat (plain ! (offset + 12)))
           in if offset + record_len > length plain then offset
              else dtls_records plain (offset + record_len)
      else offset)"
  by pat_completeness auto
termination
  by (relation "measure (\<lambda>(plain, offset). length plain - offset)") auto

declare dtls_records.simps [simp del]

definition trim_dtls :: "bytes \<Rightarrow> bytes" where
  "trim_dtls plain =
     (if length plain \<ge> 13 \<and> 20 \<le> plain ! 0 \<and> plain ! 0 \<le> 23
      then let offset = dtls_records plain 0 in if offset > 0 then take offset plain else plain
      else plain)"

record decoded_packet =
  dp_payload :: bytes
  dp_seq :: u16
  dp_payload_type :: u8
  dp_is_srtp :: bool

text \<open>The plain RTP branch of the server: padding, tag and ChaCha20-Poly1305.\<close>

definition unwrap_aead :: "crypto \<Rightarrow> nat \<Rightarrow> bytes \<Rightarrow> obfs_error + decoded_packet" where
  "unwrap_aead c header_len wire =
     (let payload_type = (wire ! 1) AND 0x7f; seq = be16 wire 2; timestamp = be32 wire 4; ssrc = be32 wire 8;
          padding = unat (wire ! (length wire - 1));
          padded = ((wire ! 0) AND 0x20 \<noteq> 0)
      in if padded \<and> (padding = 0 \<or> padding > length wire - header_len) then Inl InvalidPadding
      else let fin = (if padded then length wire - padding else length wire)
      in if fin \<le> header_len + 16 then Inl EmptyEncrypted
      else if payload_type \<noteq> 111 then Inl ExpectedAudio
      else let tag_offset = fin - 16
      in (case aead_open c (nonce ssrc seq timestamp) (take header_len wire) (take 16 (drop tag_offset wire))
                 (take (tag_offset - header_len) (drop header_len wire)) of
            None \<Rightarrow> Inl AuthFailed
          | Some plain \<Rightarrow>
              Inr \<lparr>dp_payload = plain, dp_seq = seq, dp_payload_type = payload_type, dp_is_srtp = False\<rparr>))"

definition unwrap_legacy_in_place :: "crypto \<Rightarrow> bool option \<Rightarrow> bytes \<Rightarrow> obfs_error + decoded_packet" where
  "unwrap_legacy_in_place c expected_srtp wire =
     (case rtp_header_len wire of
        Inl e \<Rightarrow> Inl e
      | Inr header_len \<Rightarrow>
          let payload_type = (wire ! 1) AND 0x7f
          in if payload_type \<noteq> 111 \<and> payload_type \<noteq> 96 \<and> payload_type \<noteq> 6
             then Inl (UnsupportedPayloadType payload_type)
             else if expected_srtp \<noteq> Some False \<and> length wire \<ge> header_len + 10 then
               (let message_len = length wire - 10
                in if take 10 (hmac_sha1 c (take message_len wire)) = drop message_len wire then
                     (let padding = unat (wire ! (message_len - 1));
                          padded = ((wire ! 0) AND 0x20 \<noteq> 0)
                      in if padded \<and> (padding = 0 \<or> padding > message_len - header_len) then Inl InvalidPadding
                      else let fin = (if padded then message_len - padding else message_len)
                      in if fin < header_len then Inl InvalidBounds
                      else let plain = aes_ctr c (srtp_iv (be32 wire 8) (be16 wire 2) (be32 wire 4))
                                         (take (fin - header_len) (drop header_len wire))
                      in Inr \<lparr>dp_payload = trim_dtls plain, dp_seq = be16 wire 2,
                              dp_payload_type = payload_type, dp_is_srtp = True\<rparr>)
                   else if expected_srtp = Some True then Inl AuthFailed
                   else unwrap_aead c header_len wire)
             else if expected_srtp = Some True then Inl MissingTag
             else unwrap_aead c header_len wire)"

section \<open>Layout of the header\<close>

definition header_layout :: "bytes \<Rightarrow> u8 \<Rightarrow> u16 \<Rightarrow> u32 \<Rightarrow> u32 \<Rightarrow> bool" where
  "header_layout H pt seq ts ssrc \<longleftrightarrow>
     length H = 24 \<and> H ! 0 = 0xb0 \<and> (H ! 1) AND 0x7f = pt \<and>
     take 2 (drop 2 H) = to_be seq \<and> take 4 (drop 4 H) = to_be ts \<and> take 4 (drop 8 H) = to_be ssrc \<and>
     take 2 (drop 14 H) = [0, 2]"

lemma to_be_2 [simp]: "to_be (2 :: u16) = [0, 2]"
  by (simp add: to_be_16)

lemma to_be_bede [simp]: "to_be (0xbede :: u16) = [0xbe, 0xde]"
  by (simp add: to_be_16)

lemma from_be_0_2 [simp]: "from_be [0, 2] = (2 :: u16)"
  by (simp add: from_be_def be_nat_def)

lemma marker_pt: "(if pt = 96 \<and> m then (pt AND 0x7f) OR 0x80 else pt AND 0x7f) AND 0x7f = (pt AND 0x7f :: u8)"
  by (simp add: bit.conj_disj_distrib2 and.assoc)

lemma obfs_header_layout:
  "header_layout (obfs_header pt m seq ts ssrc a t) (pt AND 0x7f) seq ts ssrc"
  using marker_pt [of pt m] by (simp add: header_layout_def obfs_header_def)

lemma legacy_header_layout:
  "header_layout (legacy_header pt m seq ts ssrc a t) (pt AND 0x7f) seq ts ssrc"
  using marker_pt [of pt m] by (simp add: header_layout_def legacy_header_def)

lemma header_fields:
  assumes "header_layout H pt seq ts ssrc" "wire = H @ x"
  shows "length H = 24" "wire ! 0 = 0xb0" "(wire ! 1) AND 0x7f = pt" "be16 wire 2 = seq" "be32 wire 4 = ts"
    "be32 wire 8 = ssrc" "be16 wire 14 = 2" "drop_bit 6 (wire ! 0) = 2" "(wire ! 0) AND 0x10 \<noteq> 0" "(wire ! 0) AND 0x20 \<noteq> 0"
    "take 24 wire = H" "drop 24 wire = x" "length wire = 24 + length x"
  using assms unfolding header_layout_def be16_def be32_def by (simp_all add: nth_append)

section \<open>Decoding what was encoded\<close>

lemma unat_pad_byte: "n < 256 \<Longrightarrow> unat (word_of_nat n :: u8) = n"
  by (simp add: unat_of_nat)

text \<open>A padded SRTP packet decodes to the decrypted payload, on both sides.\<close>

lemma video_decode:
  assumes H: "header_layout H pt seq ts ssrc" and pt: "pt = 111 \<or> pt = 96 \<or> pt = 6"
    and pad: "pad = p @ [word_of_nat (length p + 1)]" "length p + 1 < 256"
    and tag: "tag = take 10 (hmac_sha1 c (H @ ct @ pad))" "length tag = 10"
  shows "obfs_unwrap c Video (H @ ct @ pad @ tag) = Inr (aes_ctr c (srtp_iv ssrc seq ts) ct, seq)"
    and "e \<noteq> Some False \<Longrightarrow> unwrap_legacy_in_place c e (H @ ct @ pad @ tag) =
           Inr \<lparr>dp_payload = trim_dtls (aes_ctr c (srtp_iv ssrc seq ts) ct), dp_seq = seq,
                dp_payload_type = pt, dp_is_srtp = True\<rparr>"
proof -
  define wire where "wire = H @ ct @ pad @ tag"
  note f = header_fields [OF H wire_def]
  define ts_pos where "ts_pos = length wire - 10"
  have len: "length wire = 24 + length ct + length pad + 10" using f(1) tag(2) by (simp add: wire_def)
  then have tp: "ts_pos = 24 + length ct + length pad" by (simp add: ts_pos_def)
  have wd: "take ts_pos wire = H @ ct @ pad" "drop ts_pos wire = tag"
    using f(1) by (simp_all add: wire_def tp)
  have lp: "length pad = length p + 1" using pad(1) by simp
  have last: "unat (wire ! (ts_pos - 1)) = length pad"
    using f(1) pad unat_pad_byte [OF pad(2)] by (simp add: wire_def tp nth_append)
  have body: "take (ts_pos - length pad - 24) (drop 24 wire) = ct"
    unfolding f(12) tp by simp
  have "obfs_unwrap c Video wire = Inr (aes_ctr c (srtp_iv ssrc seq ts) ct, seq)"
    using f pt len last body wd tag(1) lp
    by (simp add: obfs_unwrap_def Let_def ts_pos_def [symmetric] tp)
  then show "obfs_unwrap c Video (H @ ct @ pad @ tag) = Inr (aes_ctr c (srtp_iv ssrc seq ts) ct, seq)"
    by (simp add: wire_def)
  assume e: "e \<noteq> Some False"
  have hl: "rtp_header_len wire = Inr 24" using f len by (simp add: rtp_header_len_def Let_def)
  have "unwrap_legacy_in_place c e wire =
           Inr \<lparr>dp_payload = trim_dtls (aes_ctr c (srtp_iv ssrc seq ts) ct), dp_seq = seq,
                dp_payload_type = pt, dp_is_srtp = True\<rparr>"
    using f pt len last body wd tag(1) lp e hl
    by (simp add: unwrap_legacy_in_place_def Let_def ts_pos_def [symmetric] tp)
  then show "unwrap_legacy_in_place c e (H @ ct @ pad @ tag) =
           Inr \<lparr>dp_payload = trim_dtls (aes_ctr c (srtp_iv ssrc seq ts) ct), dp_seq = seq,
                dp_payload_type = pt, dp_is_srtp = True\<rparr>" by (simp add: wire_def)
qed

text \<open>A padded AEAD packet is opened under its header, on both sides.\<close>

lemma audio_decode:
  assumes H: "header_layout H 111 seq ts ssrc"
    and pad: "pad = p @ [word_of_nat (length p + 1)]" "length p + 1 < 256"
    and ct: "ct \<noteq> []" "length tag = 16" "aead_open c (nonce ssrc seq ts) H tag ct = Some m"
  shows "obfs_unwrap c Audio (H @ ct @ tag @ pad) = Inr (m, seq)"
    and "unwrap_legacy_in_place c (Some False) (H @ ct @ tag @ pad) =
           Inr \<lparr>dp_payload = m, dp_seq = seq, dp_payload_type = 111, dp_is_srtp = False\<rparr>"
proof -
  define wire where "wire = H @ ct @ tag @ pad"
  note f = header_fields [OF H wire_def]
  have len: "length wire = 24 + length ct + 16 + length pad" using f(1) ct(2) by (simp add: wire_def)
  have lp: "length pad = length p + 1" using pad(1) by simp
  have last: "unat (wire ! (length wire - 1)) = length pad"
    using f(1) pad unat_pad_byte [OF pad(2)] len lp by (simp add: wire_def nth_append)
  have body: "take (length ct) (drop 24 wire) = ct" unfolding f(12) by simp
  have tg: "take 16 (drop (24 + length ct) wire) = tag"
    using f(1) ct(2) by (simp add: wire_def)
  have ends: "length wire - length pad = 24 + length ct + 16" "24 + length ct + 16 - 16 = 24 + length ct"
    "0 < length ct" using len ct(1) by auto
  have "obfs_unwrap c Audio wire = Inr (m, seq)"
    using f len last body tg lp ct(1,3) by (simp add: obfs_unwrap_def Let_def)
  then show "obfs_unwrap c Audio (H @ ct @ tag @ pad) = Inr (m, seq)" by (simp add: wire_def)
  have hl: "rtp_header_len wire = Inr 24" using f len by (simp add: rtp_header_len_def Let_def)
  have "unwrap_aead c 24 wire = Inr \<lparr>dp_payload = m, dp_seq = seq, dp_payload_type = 111, dp_is_srtp = False\<rparr>"
    using f len last body tg lp ct(1,3) by (simp add: unwrap_aead_def Let_def)
  then have "unwrap_legacy_in_place c (Some False) wire =
           Inr \<lparr>dp_payload = m, dp_seq = seq, dp_payload_type = 111, dp_is_srtp = False\<rparr>"
    using f hl by (simp add: unwrap_legacy_in_place_def Let_def)
  then show "unwrap_legacy_in_place c (Some False) (H @ ct @ tag @ pad) =
           Inr \<lparr>dp_payload = m, dp_seq = seq, dp_payload_type = 111, dp_is_srtp = False\<rparr>"
    by (simp add: wire_def)
qed

lemma trim_dtls_id: "\<not> (20 \<le> plain ! 0 \<and> plain ! 0 \<le> 23) \<Longrightarrow> trim_dtls plain = plain"
  unfolding trim_dtls_def by auto

subsection \<open>Shape of wrapped packets\<close>

definition client_seq :: "obfs_state \<Rightarrow> u16" where
  "client_seq s = os_initial_sequence s + ucast (os_count s)"

definition client_ts :: "obfs_config \<Rightarrow> u64 \<times> u32 \<Rightarrow> obfs_state \<Rightarrow> u32" where
  "client_ts cfg elapsed s =
     os_initial_timestamp s + duration_ticks elapsed (rtp_clock_rate (cf_payload_type cfg))"

definition client_hdr :: "obfs_config \<Rightarrow> draws \<Rightarrow> u64 \<times> u32 \<Rightarrow> obfs_state \<Rightarrow> bytes" where
  "client_hdr cfg d elapsed s =
     obfs_header (cf_payload_type cfg) (marker d) (client_seq s) (client_ts cfg elapsed s) (cf_ssrc cfg)
       ((os_initial_abs_send_time s + duration_ticks elapsed 262144) AND 0x00ffffff) (os_transport_sequence s)"

definition server_seq :: "out_state \<Rightarrow> u16" where
  "server_seq out = ou_initial_seq out + ucast (ou_count out)"

definition server_hdr :: "draws \<Rightarrow> u64 \<times> u32 \<Rightarrow> out_state \<Rightarrow> bytes" where
  "server_hdr d elapsed out =
     legacy_header (ou_payload_type out) (marker d) (server_seq out) (fst (clocks out elapsed)) (ou_ssrc out)
       (snd (clocks out elapsed)) (ou_transport_seq out)"

definition pad_of :: "draws \<Rightarrow> bytes" where
  "pad_of d = take (padding_random d) (padding_bytes d) @ [word_of_nat (padding_random d + 1)]"

lemma pad_of_shape:
  assumes "padding_random d \<le> length (padding_bytes d)" "padding_random d < 60"
  shows "pad_of d = take (padding_random d) (padding_bytes d) @
           [word_of_nat (length (take (padding_random d) (padding_bytes d)) + 1)]"
    and "length (take (padding_random d) (padding_bytes d)) + 1 < 256"
  using assms by (simp_all add: pad_of_def min_absorb2)

lemma obfs_wrap_shape:
  assumes "obfs_wrap c cfg d elapsed start s payload = (s', Inr wire)" "padding_max cfg \<noteq> 0"
  shows "payload \<noteq> []"
    and "cf_mode cfg = Video \<Longrightarrow> ct = aes_ctr c (srtp_iv (cf_ssrc cfg) (client_seq s) (client_ts cfg elapsed s)) payload \<Longrightarrow>
           wire = client_hdr cfg d elapsed s @ ct @ pad_of d @ take 10 (hmac_sha1 c (client_hdr cfg d elapsed s @ ct @ pad_of d))"
    and "cf_mode cfg = Audio \<Longrightarrow>
           aead_seal c (nonce (cf_ssrc cfg) (client_seq s) (client_ts cfg elapsed s)) (client_hdr cfg d elapsed s) payload = (ct, tag)
           \<Longrightarrow> wire = client_hdr cfg d elapsed s @ ct @ tag @ pad_of d"
  using assms
  by (auto simp: obfs_wrap_def obfs_next_def initial_sequence_def Let_def client_hdr_def client_seq_def client_ts_def
      pad_of_def split: if_splits prod.splits)

lemma wrap_legacy_shape:
  assumes "wrap_legacy_into c srtp d elapsed out plain = (out', Inr wire)"
  shows "srtp \<Longrightarrow> ct = aes_ctr c (srtp_iv (ou_ssrc out) (server_seq out) (fst (clocks out elapsed))) plain \<Longrightarrow>
           wire = server_hdr d elapsed out @ ct @ pad_of d @ take 10 (hmac_sha1 c (server_hdr d elapsed out @ ct @ pad_of d))"
    and "\<not> srtp \<Longrightarrow>
           aead_seal c (nonce (ou_ssrc out) (server_seq out) (fst (clocks out elapsed))) (server_hdr d elapsed out) plain = (ct, tag)
           \<Longrightarrow> wire = server_hdr d elapsed out @ ct @ tag @ pad_of d"
  using assms
  by (auto simp: wrap_legacy_into_def Let_def server_hdr_def server_seq_def pad_of_def split: if_splits prod.splits)

lemma crypto_ctr: "crypto_ok c \<Longrightarrow> aes_ctr c iv (aes_ctr c iv m) = m"
  by (simp add: crypto_ok_def)

lemma crypto_tag: "crypto_ok c \<Longrightarrow> length (take 10 (hmac_sha1 c m)) = 10"
  by (simp add: crypto_ok_def)

lemma crypto_aead:
  assumes "crypto_ok c" "aead_seal c n a m = (ct, tag)"
  shows "length ct = length m" "length tag = 16" "aead_open c n a tag ct = Some m"
  using assms unfolding crypto_ok_def by blast+

lemma obfs_config_new_simps:
  "cf_mode (obfs_config_new ssrc mode) = mode" "cf_ssrc (obfs_config_new ssrc mode) = ssrc"
  "cf_payload_type (obfs_config_new ssrc mode) = (if mode = Video then 96 else 111)"
  "padding_max (obfs_config_new ssrc mode) = (if mode = Video then 60 else 24)"
  by (cases mode; simp add: obfs_config_new_def)+

lemma client_hdr_layout:
  "header_layout (client_hdr (obfs_config_new ssrc mode) d elapsed s) (if mode = Video then 96 else 111)
     (client_seq s) (client_ts (obfs_config_new ssrc mode) elapsed s) ssrc"
  using obfs_header_layout [of 96] obfs_header_layout [of 111] by (simp add: client_hdr_def obfs_config_new_simps)

lemma server_hdr_layout:
  "pt = 96 \<or> pt = 111 \<Longrightarrow> ou_payload_type out = pt \<Longrightarrow>
     header_layout (server_hdr d elapsed out) pt (server_seq out) (fst (clocks out elapsed)) (ou_ssrc out)"
  using legacy_header_layout [of 96] legacy_header_layout [of 111] by (auto simp: server_hdr_def)

subsection \<open>A concrete cipher\<close>

text \<open>An instance of the cipher interface on which the hypotheses hold, used by the
  concrete runs below.\<close>

definition xor_crypto :: crypto where
  "xor_crypto = \<lparr>aes_ctr = (\<lambda>iv m. map (\<lambda>b. b XOR 0x5a) m), hmac_sha1 = (\<lambda>m. replicate 20 (word_of_nat (length m))),
     aead_seal = (\<lambda>n a m. (map (\<lambda>b. b XOR 0xa5) m, replicate 16 7)),
     aead_open = (\<lambda>n a t m. if t = replicate 16 7 then Some (map (\<lambda>b. b XOR 0xa5) m) else None)\<rparr>"

lemma xor_crypto_ok: "crypto_ok xor_crypto"
  by (simp add: crypto_ok_def xor_crypto_def comp_def xor.assoc)

definition example_draws :: draws where
  "example_draws = \<lparr>padding_random = 2, padding_bytes = [1, 2], marker = True\<rparr>"

definition example_state :: obfs_state where
  "example_state = \<lparr>os_count = 9, os_initial_timestamp = 1000, os_initial_abs_send_time = 5,
     os_initial_sequence = 65530, os_transport_sequence = 3\<rparr>"

definition example_out :: out_state where
  "example_out = \<lparr>ou_ssrc = 77, ou_initial_seq = 65530, ou_initial_ts = 1000, ou_initial_abs_send_time = 5,
     ou_count = 9, ou_payload_type = 111, ou_transport_seq = 3\<rparr>"

subsection \<open>Ticks\<close>

definition ticks :: "u64 \<times> u32 \<Rightarrow> u32 \<Rightarrow> nat" where
  "ticks elapsed rate = unat (fst elapsed) * unat rate + unat (snd elapsed) * unat rate div 1000000000"

lemma duration_ticks_nat:
  assumes "unat (snd elapsed) < 1000000000"
  shows "duration_ticks elapsed rate = word_of_nat (ticks elapsed rate)"
proof -
  define r where "r = unat rate"
  have r: "r < 2 ^ 32" using unat_lt2p [of rate] by (simp add: r_def)
  have small: "unat (snd elapsed) * r < 2 ^ 64"
  proof -
    have "unat (snd elapsed) * r \<le> 1000000000 * 2 ^ 32" using assms r by (intro mult_le_mono) auto
    then show ?thesis by simp
  qed
  have u: "unat (ucast rate :: u64) = r" "unat (ucast (snd elapsed) :: u64) = unat (snd elapsed)"
    using unat_lt2p [of rate] unat_lt2p [of "snd elapsed"]
    by (simp_all add: r_def unsigned_ucast_eq take_bit_eq_mod)
  let ?sec = "fst elapsed * ucast rate :: u64" and ?sub = "ucast (snd elapsed) * ucast rate div 1000000000 :: u64"
  have sub: "unat ?sub = unat (snd elapsed) * r div 1000000000"
    using small by (simp add: unat_div_distrib unat_word_ariths u)
  have sec: "unat ?sec = unat (fst elapsed) * r mod 2 ^ 64"
    by (simp add: unat_word_ariths u)
  have "unat (?sec + ?sub) mod 2 ^ 32 = ticks elapsed rate mod 2 ^ 32"
    unfolding unat_word_ariths(1) sec sub ticks_def r_def [symmetric]
    by (simp add: mod_mod_cancel mod_add_left_eq)
  then show ?thesis
    unfolding duration_ticks_def Let_def word_unat_eq_iff unsigned_ucast_eq take_bit_eq_mod unat_of_nat by simp
qed

subsection \<open>Nonces\<close>

lemma obfs_next_iterate:
  "((snd \<circ> obfs_next) ^^ k) s =
     s\<lparr>os_count := os_count s + word_of_nat k, os_transport_sequence := os_transport_sequence s + word_of_nat k\<rparr>"
  by (induction k) (simp_all add: obfs_next_def add.assoc)

lemma nonce_inj:
  "nonce a q t = nonce a' q' t' \<longleftrightarrow> a = a' \<and> q = q' \<and> t = t'"
  "srtp_iv a q t = srtp_iv a' q' t' \<longleftrightarrow> a = a' \<and> q = q' \<and> t = t'"
proof -
  have inj: "to_be x = to_be y \<longleftrightarrow> x = y" for x y :: u32 by (metis from_be_to_be_32)
  have inj': "to_be x = to_be y \<longleftrightarrow> x = y" for x y :: u16 by (metis from_be_to_be_16)
  show "nonce a q t = nonce a' q' t' \<longleftrightarrow> a = a' \<and> q = q' \<and> t = t'"
    by (simp add: nonce_def inj inj')
  show "srtp_iv a q t = srtp_iv a' q' t' \<longleftrightarrow> a = a' \<and> q = q' \<and> t = t'"
    by (simp add: srtp_iv_def inj inj')
qed

lemma word_of_nat_eq_near:
  assumes "(word_of_nat a :: 'a::len word) = word_of_nat b" "a \<le> b" "b - a < 2 ^ LENGTH('a)"
  shows "a = b"
proof -
  have "a mod 2 ^ LENGTH('a) = b mod 2 ^ LENGTH('a)"
    using assms(1) by (simp add: word_of_nat_eq_iff take_bit_eq_mod)
  then have "2 ^ LENGTH('a) dvd b - a" using assms(2) by (metis mod_eq_dvd_iff_nat)
  then show ?thesis using assms(2,3) dvd_imp_le [of "2 ^ LENGTH('a)" "b - a"] by linarith
qed

lemma ucast_add_of_nat: "(ucast (a + word_of_nat k :: u64) :: u16) = ucast a + word_of_nat k"
  by (simp add: word_unat_eq_iff unsigned_ucast_eq take_bit_eq_mod unat_word_ariths unat_of_nat
      mod_mod_cancel mod_add_left_eq mod_add_right_eq)

subsection \<open>Authenticity\<close>


section \<open>Properties\<close>

text \<open>C7: What the client wraps the server unwraps: in either mode, for every padding and
  clock reading, the server recovers the payload and the sequence number, provided the
  payload does not begin with a DTLS record type (IP packets, control messages and
  stream frames never do).\<close>

theorem uplink_round_trip:
  assumes "crypto_ok c" "cfg = obfs_config_new ssrc mode"
    and "padding_random d < padding_max cfg" "padding_random d \<le> length (padding_bytes d)"
    and "obfs_wrap c cfg d elapsed start s payload = (s', Inr wire)"
    and "\<not> (20 \<le> payload ! 0 \<and> payload ! 0 \<le> 23)"
  shows "unwrap_legacy_in_place c (Some (mode = Video)) wire =
           Inr \<lparr>dp_payload = payload, dp_seq = os_initial_sequence s + ucast (os_count s),
                dp_payload_type = cf_payload_type cfg, dp_is_srtp = (mode = Video)\<rparr>"
proof -
  have d: "padding_random d < 60" "padding_max cfg \<noteq> 0"
    using assms(2,3) by (auto simp: obfs_config_new_simps split: if_splits)
  note shape = obfs_wrap_shape [OF assms(5) d(2)]
  note pad = pad_of_shape [OF assms(4) d(1)]
  note hdr = client_hdr_layout [of ssrc mode d elapsed s, folded assms(2)]
  show ?thesis
  proof (cases mode)
    case Video
    then show ?thesis
      using video_decode(2) [OF _ _ pad refl crypto_tag [OF assms(1)], of _ 96] hdr shape(2) [OF _ refl]
        trim_dtls_id [OF assms(6)] crypto_ctr [OF assms(1)]
      by (simp add: assms(2) obfs_config_new_simps client_seq_def)
  next
    case Audio
    obtain ct tag where sealed: "aead_seal c (nonce ssrc (client_seq s) (client_ts cfg elapsed s)) (client_hdr cfg d elapsed s)
        payload = (ct, tag)" by fastforce
    note aead = crypto_aead [OF assms(1) sealed]
    have "ct \<noteq> []" using aead(1) shape(1) by auto
    then show ?thesis
      using audio_decode(2) [OF _ pad _ aead(2,3)] hdr Audio shape(3) [OF _ _] sealed
      by (simp add: assms(2) obfs_config_new_simps client_seq_def)
  qed
qed

theorem uplink_round_trip_witness:
  "unwrap_legacy_in_place xor_crypto (Some True)
     (projr (snd (obfs_wrap xor_crypto (obfs_config_new 42 Video) example_draws (3, 500) 64 example_state [0x45, 1, 2])))
   = Inr \<lparr>dp_payload = [0x45, 1, 2], dp_seq = 3, dp_payload_type = 96, dp_is_srtp = True\<rparr>"
proof -
  have "\<exists>s' wire. obfs_wrap xor_crypto (obfs_config_new 42 Video) example_draws (3, 500) 64 example_state [0x45, 1, 2]
      = (s', Inr wire)"
    by (simp add: obfs_wrap_def obfs_next_def Let_def obfs_config_new_simps example_draws_def PACKET_CAPACITY_def)
  then obtain s' wire where run:
    "obfs_wrap xor_crypto (obfs_config_new 42 Video) example_draws (3, 500) 64 example_state [0x45, 1, 2] = (s', Inr wire)"
    by blast
  show ?thesis
    using uplink_round_trip [OF xor_crypto_ok refl _ _ run] run
    by (simp add: obfs_config_new_simps example_draws_def example_state_def word_le_nat_alt)
qed

text \<open>C8: What the server wraps the client unwraps: for SRTP sessions with payload type 96
  and for AEAD sessions with payload type 111, the client recovers the payload and the
  sequence number.\<close>

theorem downlink_round_trip:
  assumes "crypto_ok c" "ou_payload_type out = (if srtp then 96 else 111)" "plain \<noteq> []"
    and "padding_random d < 60" "padding_random d \<le> length (padding_bytes d)"
    and "wrap_legacy_into c srtp d elapsed out plain = (out', Inr wire)"
  shows "obfs_unwrap c (if srtp then Video else Audio) wire = Inr (plain, ou_initial_seq out + ucast (ou_count out))"
proof -
  note shape = wrap_legacy_shape [OF assms(6)]
  note pad = pad_of_shape [OF assms(5,4)]
  show ?thesis
  proof (cases srtp)
    case True
    then show ?thesis
      using video_decode(1) [OF server_hdr_layout [of 96] _ pad refl crypto_tag [OF assms(1)]] shape(1) [OF _ refl]
        crypto_ctr [OF assms(1)] assms(2) by (simp add: server_seq_def)
  next
    case False
    obtain ct tag where sealed: "aead_seal c (nonce (ou_ssrc out) (server_seq out) (fst (clocks out elapsed)))
        (server_hdr d elapsed out) plain = (ct, tag)" by fastforce
    note aead = crypto_aead [OF assms(1) sealed]
    have "ct \<noteq> []" using aead(1) assms(3) by auto
    then show ?thesis
      using audio_decode(1) [OF server_hdr_layout [of 111] pad _ aead(2,3)] False shape(2) [OF _ sealed] assms(2)
      by (simp add: server_seq_def)
  qed
qed

theorem downlink_round_trip_witness:
  "obfs_unwrap xor_crypto Audio
     (projr (snd (wrap_legacy_into xor_crypto False example_draws (3, 500) example_out [0x45, 1, 2]))) = Inr ([0x45, 1, 2], 3)"
proof -
  have "\<exists>out' wire. wrap_legacy_into xor_crypto False example_draws (3, 500) example_out [0x45, 1, 2] = (out', Inr wire)"
    by (simp add: wrap_legacy_into_def Let_def example_draws_def SERVER_PACKET_CAPACITY_def xor_crypto_def)
  then obtain out' wire where run:
    "wrap_legacy_into xor_crypto False example_draws (3, 500) example_out [0x45, 1, 2] = (out', Inr wire)" by blast
  show ?thesis
    using downlink_round_trip [OF xor_crypto_ok _ _ _ _ run] run by (simp add: example_draws_def example_out_def)
qed



text \<open>C32: Nonces do not repeat: of two packets of one sender, the later one a positive
  number of packets after the first, nonce and initialisation vector differ as long as
  fewer than \<open>2 ^ 32\<close> clock ticks lie between them and fewer than 65536 packets share
  one tick.\<close>

theorem nonces_do_not_repeat:
  assumes "s2 = ((snd \<circ> obfs_next) ^^ k) s1" "0 < k"
    and "unat (snd e1) < 1000000000" "unat (snd e2) < 1000000000"
    and "rate = rtp_clock_rate (cf_payload_type cfg)" "ticks e1 rate \<le> ticks e2 rate"
    and "ticks e2 rate - ticks e1 rate < 2 ^ 32" "ticks e1 rate = ticks e2 rate \<longrightarrow> k < 65536"
  shows "nonce (cf_ssrc cfg) (client_seq s1) (client_ts cfg e1 s1) \<noteq> nonce (cf_ssrc cfg) (client_seq s2) (client_ts cfg e2 s2)
       \<and> srtp_iv (cf_ssrc cfg) (client_seq s1) (client_ts cfg e1 s1) \<noteq> srtp_iv (cf_ssrc cfg) (client_seq s2) (client_ts cfg e2 s2)"
proof -
  have "\<not> (client_seq s1 = client_seq s2 \<and> client_ts cfg e1 s1 = client_ts cfg e2 s2)"
  proof
    assume eq: "client_seq s1 = client_seq s2 \<and> client_ts cfg e1 s1 = client_ts cfg e2 s2"
    have "(word_of_nat (ticks e1 rate) :: u32) = word_of_nat (ticks e2 rate)"
      using eq assms(1,3-5) by (simp add: client_ts_def obfs_next_iterate duration_ticks_nat)
    then have "ticks e1 rate = ticks e2 rate" using assms(6,7) by (intro word_of_nat_eq_near) auto
    then have k: "k < 65536" using assms(8) by simp
    have "(ucast (os_count s1 + word_of_nat k) :: u16) = ucast (os_count s1) + word_of_nat k"
      by (simp add: ucast_add_of_nat)
    then have "(word_of_nat 0 :: u16) = word_of_nat k"
      using eq assms(1) by (simp add: client_seq_def obfs_next_iterate)
    then show False using word_of_nat_eq_near [of 0 k, where 'a = 16] k assms(2) by simp
  qed
  then show ?thesis by (simp add: nonce_inj)
qed

theorem nonces_do_not_repeat_witness:
  "nonce 42 (client_seq example_state) (client_ts (obfs_config_new 42 Video) (3, 500) example_state) \<noteq>
   nonce 42 (client_seq (snd (obfs_next example_state)))
     (client_ts (obfs_config_new 42 Video) (3, 600) (snd (obfs_next example_state)))"
proof -
  let ?cfg = "obfs_config_new 42 Video"
  have "nonce (cf_ssrc ?cfg) (client_seq example_state) (client_ts ?cfg (3, 500) example_state) \<noteq>
    nonce (cf_ssrc ?cfg) (client_seq (snd (obfs_next example_state))) (client_ts ?cfg (3, 600) (snd (obfs_next example_state)))"
    using nonces_do_not_repeat [of "snd (obfs_next example_state)" 1 example_state "(3, 500)" "(3, 600)"
        "rtp_clock_rate (cf_payload_type ?cfg)" ?cfg]
    by (simp add: ticks_def obfs_config_new_simps rtp_clock_rate_def)
  then show ?thesis by (simp add: obfs_config_new_simps)
qed

end
