(* ===== verification/Replay_Window.thy ===== *)
theory Replay_Window
  imports Prelude
begin

text \<open>
  The replay filter of a server session, \<open>ReplayState\<close> of
  \<open>rust-server/protocol.rs\<close>: a bitmap of 16384 RTP sequence numbers kept as 256
  64-bit words, addressed modulo its size, with the highest number seen.  The bit
  operations are kept as the code has them; the window is then related to a set of
  unbounded extended sequence numbers, over which its contract is stated.
\<close>

unbundle bit_operations_syntax

record replay_state =
  rp_initialized :: bool
  rp_highest :: u16
  rp_bitmap :: "u64 list option"

definition replay_new :: replay_state where
  "replay_new = \<lparr>rp_initialized = False, rp_highest = 0, rp_bitmap = None\<rparr>"

definition set_srtp_bit :: "u16 \<Rightarrow> replay_state \<Rightarrow> replay_state" where
  "set_srtp_bit counter r =
     (let index = unat (counter mod 16384)
      in case rp_bitmap r of
           None \<Rightarrow> r
         | Some bm \<Rightarrow> r\<lparr>rp_bitmap := Some (bm[index div 64 := (bm ! (index div 64)) OR push_bit (index mod 64) 1])\<rparr>)"

definition clear_srtp_bit :: "u16 \<Rightarrow> replay_state \<Rightarrow> replay_state" where
  "clear_srtp_bit counter r =
     (let index = unat (counter mod 16384)
      in case rp_bitmap r of
           None \<Rightarrow> r
         | Some bm \<Rightarrow>
             r\<lparr>rp_bitmap := Some (bm[index div 64 := (bm ! (index div 64)) AND NOT (push_bit (index mod 64) 1)])\<rparr>)"

definition test_srtp_bit :: "replay_state \<Rightarrow> u16 \<Rightarrow> bool" where
  "test_srtp_bit r counter =
     (let index = unat (counter mod 16384)
      in case rp_bitmap r of
           None \<Rightarrow> False
         | Some bm \<Rightarrow> (bm ! (index div 64)) AND push_bit (index mod 64) 1 \<noteq> 0)"

definition get_or_insert_bitmap :: "replay_state \<Rightarrow> replay_state" where
  "get_or_insert_bitmap r =
     (case rp_bitmap r of None \<Rightarrow> r\<lparr>rp_bitmap := Some (replicate 256 0)\<rparr> | Some _ \<Rightarrow> r)"

definition replay_accept :: "u16 \<Rightarrow> replay_state \<Rightarrow> bool \<times> replay_state" where
  "replay_accept seq r0 =
     (let r = get_or_insert_bitmap r0
      in if \<not> rp_initialized r then
           (True, set_srtp_bit seq (r\<lparr>rp_initialized := True, rp_highest := seq\<rparr>))
         else let forward = seq - rp_highest r
         in if forward \<noteq> 0 \<and> forward < 32768 then
              (let r' = (if forward \<ge> 16384
                         then r\<lparr>rp_bitmap := map_option (\<lambda>bm. replicate (length bm) 0) (rp_bitmap r)\<rparr>
                         else fold (\<lambda>offset. clear_srtp_bit (rp_highest r + word_of_nat offset))
                                [1..<Suc (unat forward)] r)
               in (True, set_srtp_bit seq (r'\<lparr>rp_highest := seq\<rparr>)))
            else let behind = rp_highest r - seq
            in if behind \<ge> 16384 \<or> test_srtp_bit r seq then (False, r)
               else (True, set_srtp_bit seq r))"

fun replay_run :: "u16 list \<Rightarrow> replay_state \<Rightarrow> bool list" where
  "replay_run [] r = []"
| "replay_run (seq # seqs) r = (let (ok, r') = replay_accept seq r in ok # replay_run seqs r')"

section \<open>The bitmap as a set of residues\<close>

definition slot :: "u16 \<Rightarrow> nat" where
  "slot counter = unat (counter mod 16384)"

definition bitmap_ok :: "replay_state \<Rightarrow> bool" where
  "bitmap_ok r \<longleftrightarrow> (case rp_bitmap r of None \<Rightarrow> False | Some bm \<Rightarrow> length bm = 256)"

lemma slot_less: "slot c < 16384"
  unfolding slot_def by (simp add: unat_mod)

lemma test_srtp_bit_iff:
  "test_srtp_bit r c \<longleftrightarrow> (\<exists>bm. rp_bitmap r = Some bm \<and> bit (bm ! (slot c div 64)) (slot c mod 64))"
  unfolding test_srtp_bit_def Let_def bit_iff_and_push_bit_not_eq_0 slot_def by (auto split: option.splits)

lemma slot_split: "slot c = slot d \<longleftrightarrow> slot c div 64 = slot d div 64 \<and> slot c mod 64 = slot d mod 64"
  by (metis div_mult_mod_eq)

lemma test_set [simp]:
  assumes "bitmap_ok r"
  shows "test_srtp_bit (set_srtp_bit c r) d \<longleftrightarrow> slot c = slot d \<or> test_srtp_bit r d"
proof -
  obtain bm where bm: "rp_bitmap r = Some bm" "length bm = 256" using assms by (auto simp: bitmap_ok_def split: option.splits)
  have "slot c div 64 < 256" using slot_less [of c] by auto
  then show ?thesis
    using bm unfolding slot_split test_srtp_bit_iff
    by (auto simp: set_srtp_bit_def Let_def bit_simps nth_list_update simp flip: slot_def)
qed

lemma test_clear [simp]:
  assumes "bitmap_ok r"
  shows "test_srtp_bit (clear_srtp_bit c r) d \<longleftrightarrow> slot c \<noteq> slot d \<and> test_srtp_bit r d"
proof -
  obtain bm where bm: "rp_bitmap r = Some bm" "length bm = 256" using assms by (auto simp: bitmap_ok_def split: option.splits)
  have "slot c div 64 < 256" using slot_less [of c] by auto
  then show ?thesis
    using bm unfolding slot_split test_srtp_bit_iff
    by (auto simp: clear_srtp_bit_def Let_def bit_simps nth_list_update simp flip: slot_def)
qed

lemma bitmap_ok_simps [simp]:
  "bitmap_ok (set_srtp_bit c r) = bitmap_ok r"
  "bitmap_ok (clear_srtp_bit c r) = bitmap_ok r"
  "bitmap_ok (r\<lparr>rp_highest := h\<rparr>) = bitmap_ok r"
  "bitmap_ok (r\<lparr>rp_initialized := b\<rparr>) = bitmap_ok r"
  by (auto simp: bitmap_ok_def set_srtp_bit_def clear_srtp_bit_def Let_def split: option.splits)

lemma replay_fields [simp]:
  "rp_highest (set_srtp_bit c r) = rp_highest r" "rp_initialized (set_srtp_bit c r) = rp_initialized r"
  "rp_highest (clear_srtp_bit c r) = rp_highest r" "rp_initialized (clear_srtp_bit c r) = rp_initialized r"
  by (auto simp: set_srtp_bit_def clear_srtp_bit_def Let_def split: option.splits)

lemma test_fields [simp]:
  "test_srtp_bit (r\<lparr>rp_highest := h\<rparr>) c = test_srtp_bit r c"
  "test_srtp_bit (r\<lparr>rp_initialized := b\<rparr>) c = test_srtp_bit r c"
  by (simp_all add: test_srtp_bit_iff)

lemma clear_loop:
  assumes "bitmap_ok r"
  shows "bitmap_ok (fold (\<lambda>k. clear_srtp_bit (f k)) ks r)"
    and "rp_initialized (fold (\<lambda>k. clear_srtp_bit (f k)) ks r) = rp_initialized r"
    and "test_srtp_bit (fold (\<lambda>k. clear_srtp_bit (f k)) ks r) d \<longleftrightarrow>
           (\<forall>k\<in>set ks. slot (f k) \<noteq> slot d) \<and> test_srtp_bit r d"
  using assms by (induction ks arbitrary: r) auto

lemma slot_of_int: "int (slot (word_of_int n)) = n mod 16384"
proof -
  have "int (slot (word_of_int n)) = uint ((word_of_int n :: u16) mod 16384)"
    by (simp add: slot_def)
  also have "\<dots> = (n mod 65536) mod 16384"
    by (simp add: uint_mod uint_word_of_int)
  also have "\<dots> = n mod 16384" by (rule mod_mod_cancel) simp
  finally show ?thesis .
qed

lemma slot_eq_near:
  assumes "\<bar>a - b\<bar> < 16384"
  shows "slot (word_of_int a) = slot (word_of_int b) \<longleftrightarrow> a = b"
proof
  assume "slot (word_of_int a) = slot (word_of_int b)"
  then have "a mod 16384 = b mod 16384" by (metis slot_of_int)
  then have "16384 dvd a - b" by (simp add: mod_eq_dvd_iff)
  then show "a = b" using assms zdvd_imp_le [of 16384 "\<bar>a - b\<bar>"] by (cases "a = b") auto
qed simp

section \<open>The window over extended sequence numbers\<close>

definition window_rel :: "replay_state \<Rightarrow> int set \<Rightarrow> bool" where
  "window_rel r seen \<longleftrightarrow>
     rp_initialized r \<and> bitmap_ok r \<and> finite seen \<and> seen \<noteq> {} \<and> rp_highest r = word_of_int (Max seen) \<and>
     (\<forall>n. Max seen - 16384 < n \<and> n \<le> Max seen \<longrightarrow> test_srtp_bit r (word_of_int n) = (n \<in> seen))"

lemma window_relD:
  assumes "window_rel r seen"
  shows "rp_initialized r" "bitmap_ok r" "finite seen" "seen \<noteq> {}" "rp_highest r = word_of_int (Max seen)"
    "Max seen - 16384 < n \<Longrightarrow> n \<le> Max seen \<Longrightarrow> test_srtp_bit r (word_of_int n) = (n \<in> seen)"
  using assms by (auto simp: window_rel_def)

lemma get_or_insert_ok: "bitmap_ok r \<Longrightarrow> get_or_insert_bitmap r = r"
  by (auto simp: get_or_insert_bitmap_def bitmap_ok_def split: option.splits)

lemma first_accept:
  "\<exists>r'. replay_accept (word_of_int n) replay_new = (True, r') \<and> window_rel r' {n}"
proof -
  define r where "r = (get_or_insert_bitmap replay_new)\<lparr>rp_initialized := True, rp_highest := word_of_int n\<rparr>"
  have ok: "bitmap_ok r" by (simp add: r_def get_or_insert_bitmap_def replay_new_def bitmap_ok_def)
  have empty: "\<not> test_srtp_bit r c" for c
    using slot_less [of c] by (auto simp: r_def get_or_insert_bitmap_def replay_new_def test_srtp_bit_iff)
  have "window_rel (set_srtp_bit (word_of_int n) r) {n}"
    using ok slot_eq_near [of n] by (auto simp: window_rel_def r_def [symmetric] empty) (auto simp: r_def)
  moreover have "replay_accept (word_of_int n) replay_new = (True, set_srtp_bit (word_of_int n) r)"
    by (simp add: replay_accept_def Let_def r_def get_or_insert_bitmap_def replay_new_def)
  ultimately show ?thesis by blast
qed

lemma word_diff_mod: "uint (word_of_int a - word_of_int b :: u16) = (a - b) mod 65536"
  by (simp add: uint_word_ariths uint_word_of_int mod_diff_eq)

lemma word_gap:
  assumes "0 \<le> a - b" "a - b < 65536"
  shows "uint (word_of_int a - word_of_int b :: u16) = a - b"
  using assms word_diff_mod [of a b] by simp

text \<open>A number ahead of the window: cleared bits and the new one.\<close>

lemma window_advance:
  assumes rel: "window_rel r seen" and H: "H = Max seen" and n: "H < n" "n < H + 32768"
    and ok: "bitmap_ok r'" "rp_initialized r'"
    and bits: "\<And>m. n - 16384 < m \<Longrightarrow> m < n \<Longrightarrow> test_srtp_bit r' (word_of_int m) = (m \<in> seen)"
  shows "window_rel (set_srtp_bit (word_of_int n) (r'\<lparr>rp_highest := word_of_int n\<rparr>)) (insert n seen)"
proof -
  have "Max seen \<le> n" using H n by linarith
  then have max: "Max (insert n seen) = n"
    by (simp only: Max_insert [OF window_relD(3,4) [OF rel]] max_absorb1)
  have "test_srtp_bit (set_srtp_bit (word_of_int n) (r'\<lparr>rp_highest := word_of_int n\<rparr>)) (word_of_int m) = (m \<in> insert n seen)"
    if m: "n - 16384 < m" "m \<le> n" for m
    using bits [of m] ok slot_eq_near [of n m] m by (cases "m = n") auto
  then show ?thesis using max ok window_relD(3) [OF rel] by (simp add: window_rel_def)
qed

lemma accept_ahead:
  assumes rel: "window_rel r seen" and H: "H = Max seen" and n: "H < n" "n < H + 32768"
  shows "\<exists>r'. replay_accept (word_of_int n) r = (True, r') \<and> window_rel r' (insert n seen)"
proof -
  note rd = window_relD [OF rel]
  define fw where "fw = (word_of_int n - rp_highest r :: u16)"
  have fw: "uint fw = n - H" using n word_gap [of n H] rd(5) H by (simp add: fw_def)
  then have ufw: "unat fw = nat (n - H)" by (metis nat_uint_eq)
  have small: "fw \<noteq> 0" "fw < 32768" using fw n by (auto simp: word_less_def)
  define r' where "r' = (if fw \<ge> 16384 then r\<lparr>rp_bitmap := map_option (\<lambda>bm. replicate (length bm) 0) (rp_bitmap r)\<rparr>
      else fold (\<lambda>k. clear_srtp_bit (rp_highest r + word_of_nat k)) [1..<Suc (unat fw)] r)"
  have blank: "bitmap_ok (r\<lparr>rp_bitmap := map_option (\<lambda>bm. replicate (length bm) 0) (rp_bitmap r)\<rparr>)"
    using rd(2) by (auto simp: bitmap_ok_def split: option.splits)
  have ok: "bitmap_ok r'" "rp_initialized r'"
    using rd(1,2) clear_loop(1,2) [OF rd(2), of "\<lambda>k. rp_highest r + word_of_nat k"] by (simp_all add: r'_def blank del: upt_Suc)
  have above: "m \<notin> seen" if "H < m" for m using that H Max_ge [OF rd(3), of m] by linarith
  have bits: "test_srtp_bit r' (word_of_int m) = (m \<in> seen)" if m: "n - 16384 < m" "m < n" for m
  proof (cases "fw \<ge> 16384")
    case True
    then have "m > H" using m fw by (simp add: word_le_def)
    moreover have "\<not> test_srtp_bit r' (word_of_int m)"
      using True slot_less [of "word_of_int m"] rd(2) by (auto simp: r'_def test_srtp_bit_iff bitmap_ok_def split: option.splits)
    ultimately show ?thesis using above by blast
  next
    case False
    have at: "rp_highest r + word_of_nat k = word_of_int (H + int k)" for k by (simp add: rd(5) H)
    have "test_srtp_bit r' (word_of_int m) \<longleftrightarrow>
        (\<forall>k\<in>{1..nat (n - H)}. slot (word_of_int (H + int k)) \<noteq> slot (word_of_int m)) \<and> test_srtp_bit r (word_of_int m)"
      using False clear_loop(3) [OF rd(2), of "\<lambda>k. rp_highest r + word_of_nat k"] ufw
      by (simp add: r'_def at atLeastLessThanSuc_atLeastAtMost del: upt_Suc)
    moreover have "slot (word_of_int (H + int k)) \<noteq> slot (word_of_int m)" if "k \<in> {1..nat (n - H)}" "m \<le> H" for k
    proof -
      have "int k \<le> n - H" "0 < k" using that(1) n(1) by (simp_all add: le_nat_iff)
      then show ?thesis using slot_eq_near [of "H + int k" m] that(2) m by force
    qed
    moreover have "\<exists>k\<in>{1..nat (n - H)}. slot (word_of_int (H + int k)) = slot (word_of_int m)" if "H < m"
      using that m by (intro bexI [of _ "nat (m - H)"]) auto
    moreover note above [of m]
    ultimately show ?thesis using rd(6) [of m] H m n by (cases "m \<le> H") force+
  qed
  have "replay_accept (word_of_int n) r = (True, set_srtp_bit (word_of_int n) (r'\<lparr>rp_highest := word_of_int n\<rparr>))"
    by (simp only: replay_accept_def Let_def get_or_insert_ok [OF rd(2)] rd(1) fw_def [symmetric] r'_def [symmetric]
        small simp_thms if_True if_False)
  then show ?thesis using window_advance [OF rel H n ok bits] by auto
qed

lemma accept_behind:
  assumes rel: "window_rel r seen" and H: "H = Max seen" and n: "n \<le> H" "H - 32768 \<le> n"
  shows "\<exists>r'. replay_accept (word_of_int n) r = (H - 16384 < n \<and> n \<notin> seen, r') \<and> window_rel r' (insert n seen)"
proof -
  note rd = window_relD [OF rel]
  have max: "Max (insert n seen) = H" using rd(3,4) H n by (simp add: max_def)
  have "uint (rp_highest r - word_of_int n) = H - n" using word_gap [of H n] rd(5) H n by simp
  then have behind: "rp_highest r - word_of_int n \<ge> 16384 \<longleftrightarrow> n \<le> H - 16384" by (auto simp: word_le_def)
  have forward: "\<not> (word_of_int n - rp_highest r \<noteq> 0 \<and> word_of_int n - rp_highest r < (32768 :: u16))"
  proof (cases "n = H")
    case False
    have "(n - H) mod 65536 = (n - H + 65536) mod 65536" by simp
    also have "\<dots> = n - H + 65536" using False n by (intro mod_pos_pos_trivial) auto
    finally have "uint (word_of_int n - word_of_int H :: u16) = n - H + 65536" by (simp add: word_diff_mod)
    then show ?thesis using n rd(5) H by (simp add: word_less_def)
  qed (simp add: rd(5) H)
  have bits: "test_srtp_bit (set_srtp_bit (word_of_int n) r) (word_of_int m) = (m \<in> insert n seen)"
    if "H - 16384 < m" "m \<le> H" "H - 16384 < n" for m
    using rd(2) rd(6) [of m] slot_eq_near [of n m] that n H by auto
  have step: "replay_accept (word_of_int n) r = (if n \<le> H - 16384 \<or> test_srtp_bit r (word_of_int n) then (False, r)
      else (True, set_srtp_bit (word_of_int n) r))"
    by (simp only: replay_accept_def Let_def get_or_insert_ok [OF rd(2)] rd(1) forward behind simp_thms if_False)
  consider "n \<le> H - 16384" | "H - 16384 < n" "n \<in> seen" | "H - 16384 < n" "n \<notin> seen" by linarith
  then show ?thesis
  proof cases
    case 1
    then show ?thesis using step rd max H by (auto simp: window_rel_def)
  next
    case 2
    then show ?thesis using step rel rd(6) [of n] n H by (auto simp: insert_absorb)
  next
    case 3
    then have "\<not> test_srtp_bit r (word_of_int n)" using rd(6) [of n] n H by auto
    then show ?thesis using 3 step bits rd(1-5) max H by (auto simp: window_rel_def)
  qed
qed

text \<open>The contract: a number is accepted once, and only while it is less than 16384
  behind the highest number seen.\<close>

fun window_spec :: "int set \<Rightarrow> int list \<Rightarrow> bool list" where
  "window_spec seen [] = []"
| "window_spec seen (n # ns) =
     (n \<notin> seen \<and> (\<forall>m\<in>seen. m - 16384 < n)) # window_spec (insert n seen) ns"

text \<open>Each number is within half the 16-bit range of the highest number before it, so that
  its 16-bit image determines it.\<close>

fun in_range :: "int set \<Rightarrow> int list \<Rightarrow> bool" where
  "in_range seen [] = True"
| "in_range seen (n # ns) =
     ((seen = {} \<or> (Max seen - 32768 \<le> n \<and> n < Max seen + 32768)) \<and> in_range (insert n seen) ns)"

lemma replay_step:
  assumes rel: "window_rel r seen" and near: "Max seen - 32768 \<le> n" "n < Max seen + 32768"
  shows "\<exists>r'. replay_accept (word_of_int n) r = (n \<notin> seen \<and> (\<forall>m\<in>seen. m - 16384 < n), r')
           \<and> window_rel r' (insert n seen)"
proof -
  note fin = window_relD(3,4) [OF rel]
  have edge: "(\<forall>m\<in>seen. m - 16384 < n) \<longleftrightarrow> Max seen - 16384 < n"
    using Max_in [OF fin] Max_ge [OF fin(1)] by fastforce
  show ?thesis
  proof (cases "Max seen < n")
    case True
    then have "n \<notin> seen" using Max_ge [OF fin(1), of n] by linarith
    moreover have "Max seen - 16384 < n" using True by linarith
    ultimately have "(n \<notin> seen \<and> (\<forall>m\<in>seen. m - 16384 < n)) = True" using edge by blast
    then show ?thesis using accept_ahead [OF rel refl True near(2)] by (simp only:)
  next
    case False
    then have le: "n \<le> Max seen" by linarith
    show ?thesis unfolding edge using accept_behind [OF rel refl le near(1)] by (simp only: conj_commute)
  qed
qed

lemma replay_run_spec:
  "window_rel r seen \<Longrightarrow> in_range seen ns \<Longrightarrow> replay_run (map word_of_int ns) r = window_spec seen ns"
proof (induction ns arbitrary: r seen)
  case (Cons n ns)
  have "Max seen - 32768 \<le> n" "n < Max seen + 32768"
    using Cons.prems window_relD(4) [OF Cons.prems(1)] by auto
  from replay_step [OF Cons.prems(1) this] obtain r' where
    "replay_accept (word_of_int n) r = (n \<notin> seen \<and> (\<forall>m\<in>seen. m - 16384 < n), r')"
    "window_rel r' (insert n seen)" by blast
  then show ?case using Cons.IH Cons.prems(2) by simp
qed simp

section \<open>Properties\<close>

text \<open>C11: The replay filter of a session implements its contract: on any sequence of RTP
  numbers in which each number is within half the 16-bit range of the highest one before it,
  the bitmap accepts exactly the numbers not offered before that lie less than 16384 behind
  the highest one, wrap-arounds of the 16-bit counter included.\<close>

theorem replay_filter_refines_window:
  assumes "in_range {} ns"
  shows "replay_run (map word_of_int ns) replay_new = window_spec {} ns"
proof (cases ns)
  case (Cons n rest)
  obtain r' where "replay_accept (word_of_int n) replay_new = (True, r')" "window_rel r' {n}"
    using first_accept by blast
  then show ?thesis using replay_run_spec [of r' "{n}" rest] assms Cons by simp
qed simp

theorem replay_filter_refines_window_witness:
  "replay_run (map word_of_int [65534, 65535, 65536, 65537, 65537, 65535]) replay_new =
     [True, True, True, True, False, False]"
  using replay_filter_refines_window [of "[65534, 65535, 65536, 65537, 65537, 65535]"] by simp

end
