(* ===== verification/Stun_Codec.thy ===== *)
theory Stun_Codec
  imports Prelude
begin

text \<open>
  STUN messages: the decoder of \<open>rust-client/stun_codec.rs\<close> (header checks, the scan over
  the attributes, the attribute iterator, the fingerprint check) and the message builder of
  \<open>rust-client/turn_core.rs\<close> (attributes with padding, XOR addresses, message integrity
  and fingerprint).  The checksum and the digests of the crates \<open>crc32fast\<close>, \<open>hmac\<close> and
  \<open>md5\<close> are the fields of \<open>stun_crypto\<close>.
\<close>

unbundle bit_operations_syntax

record stun_crypto =
  crc32 :: "bytes \<Rightarrow> u32"
  hmac_sha1_keyed :: "bytes \<Rightarrow> bytes \<Rightarrow> bytes"
  md5 :: "bytes \<Rightarrow> bytes"

definition HEADER_SIZE :: nat where
  "HEADER_SIZE = 20"

definition MAGIC_COOKIE :: u32 where
  "MAGIC_COOKIE = 0x2112a442"

definition ATTR_FINGERPRINT :: u16 where
  "ATTR_FINGERPRINT = 0x8028"

definition FINGERPRINT_XOR :: u32 where
  "FINGERPRINT_XOR = 0x5354554e"

datatype stun_class = Request | Indication | Success | ErrorClass

record stun_attribute =
  sa_kind :: u16
  sa_value :: bytes
  sa_header_start :: nat
  sa_value_range :: "nat \<times> nat"

record stun_message =
  sm_raw :: bytes
  sm_kind :: u16
  sm_transaction :: bytes
  sm_end :: nat

datatype stun_error =
    StunHeaderTruncated
  | StunLeadingBits
  | StunTypeZero
  | StunCookieMismatch
  | StunUnaligned
  | StunLengthMismatch
  | StunAttributeHeaderTruncated
  | StunAttributeTruncated
  | StunTooLarge
  | StunMalformedAddress
  | StunAddressFamily

definition align4 :: "nat \<Rightarrow> nat" where
  "align4 n = (n + 3) div 4 * 4"

section \<open>Decoding\<close>

function scan_attributes :: "bytes \<Rightarrow> nat \<Rightarrow> nat \<Rightarrow> stun_error option" where
  "scan_attributes raw fin position =
     (if position < fin then
        if fin - position < 4 then Some StunAttributeHeaderTruncated
        else let len = unat (be16 raw (position + 2));
                 value_start = position + 4;
                 after = value_start + align4 len
             in if after > fin \<or> value_start + len > fin then Some StunAttributeTruncated
                else scan_attributes raw fin after
      else None)"
  by pat_completeness auto
termination
  by (relation "measure (\<lambda>(raw, fin, position). fin - position)") auto

definition stun_decode :: "bytes \<Rightarrow> stun_error + stun_message" where
  "stun_decode raw =
     (if length raw < HEADER_SIZE then Inl StunHeaderTruncated
      else let kind = be16 raw 0
      in if kind AND 0xc000 \<noteq> 0 then Inl StunLeadingBits
      else if kind = 0 then Inl StunTypeZero
      else if take 4 (drop 4 raw) \<noteq> to_be MAGIC_COOKIE then Inl StunCookieMismatch
      else let declared = unat (be16 raw 2)
      in if declared mod 4 \<noteq> 0 then Inl StunUnaligned
      else let fin = HEADER_SIZE + declared
      in if length raw \<noteq> fin then Inl StunLengthMismatch
      else case scan_attributes raw fin HEADER_SIZE of
             Some e \<Rightarrow> Inl e
           | None \<Rightarrow> Inr \<lparr>sm_raw = raw, sm_kind = kind, sm_transaction = take 12 (drop 8 raw), sm_end = fin\<rparr>)"

definition stun_class_of :: "stun_message \<Rightarrow> stun_class" where
  "stun_class_of m =
     (let bits = ((drop_bit 4 (sm_kind m)) AND 1) OR ((drop_bit 7 (sm_kind m)) AND 2)
      in if bits = 0 then Request else if bits = 1 then Indication else if bits = 2 then Success else ErrorClass)"

definition stun_method :: "stun_message \<Rightarrow> u16" where
  "stun_method m =
     ((sm_kind m) AND 0x000f) OR ((drop_bit 1 (sm_kind m)) AND 0x0070) OR ((drop_bit 2 (sm_kind m)) AND 0x0f80)"

text \<open>The attributes the iterator yields from a position on.\<close>

function attributes_from :: "bytes \<Rightarrow> nat \<Rightarrow> nat \<Rightarrow> stun_attribute list" where
  "attributes_from raw fin position =
     (if position \<ge> fin then []
      else let kind = be16 raw position;
               len = unat (be16 raw (position + 2));
               value_start = position + 4
           in \<lparr>sa_kind = (if kind = 0x8020 then 0x0020 else kind), sa_value = take len (drop value_start raw),
               sa_header_start = position, sa_value_range = (value_start, value_start + len)\<rparr>
              # attributes_from raw fin (value_start + align4 len))"
  by pat_completeness auto
termination
  by (relation "measure (\<lambda>(raw, fin, position). fin - position)") auto

declare scan_attributes.simps [simp del] attributes_from.simps [simp del]

definition stun_attributes :: "stun_message \<Rightarrow> stun_attribute list" where
  "stun_attributes m = attributes_from (sm_raw m) (sm_end m) HEADER_SIZE"

definition attribute :: "stun_message \<Rightarrow> u16 \<Rightarrow> stun_attribute option" where
  "attribute m target = find (\<lambda>a. sa_kind a = target) (stun_attributes m)"

definition fingerprint_valid :: "stun_crypto \<Rightarrow> stun_message \<Rightarrow> bool option" where
  "fingerprint_valid c m =
     (case attribute m ATTR_FINGERPRINT of
        None \<Rightarrow> None
      | Some a \<Rightarrow>
          if length (sa_value a) \<noteq> 4 \<or> sa_header_start a + 8 \<noteq> sm_end m then Some False
          else let expected = crc32 c (take (sa_header_start a) (sm_raw m)) XOR FINGERPRINT_XOR
               in Some (from_be (sa_value a) = expected))"

section \<open>Building\<close>

datatype socket_addr = SockV4 u32 u16 | SockV6 bytes u16

fun is_ipv4 :: "socket_addr \<Rightarrow> bool" where
  "is_ipv4 (SockV4 _ _) = True"
| "is_ipv4 (SockV6 _ _) = False"

fun port_of :: "socket_addr \<Rightarrow> u16" where
  "port_of (SockV4 _ p) = p"
| "port_of (SockV6 _ p) = p"

text \<open>An address of the program: 16 octets for version 6.\<close>

fun addr_ok :: "socket_addr \<Rightarrow> bool" where
  "addr_ok (SockV4 _ _) = True"
| "addr_ok (SockV6 octets _) = (length octets = 16)"

record message_builder =
  mb_bytes :: bytes
  mb_transaction :: bytes

definition with_transaction :: "u16 \<Rightarrow> bytes \<Rightarrow> message_builder" where
  "with_transaction kind transaction =
     \<lparr>mb_bytes = to_be kind @ to_be (0 :: u16) @ to_be MAGIC_COOKIE @ transaction, mb_transaction = transaction\<rparr>"

text \<open>The loop that pushes zero bytes until the length is a multiple of 4.\<close>

function pad4 :: "bytes \<Rightarrow> bytes" where
  "pad4 bs = (if length bs mod 4 = 0 then bs else pad4 (bs @ [0]))"
  by pat_completeness auto
termination
  by (relation "measure (\<lambda>bs. (4 - length bs mod 4) mod 4)") (auto simp: mod_Suc)

declare pad4.simps [simp del]

definition add_attribute :: "u16 \<Rightarrow> bytes \<Rightarrow> message_builder \<Rightarrow> message_builder" where
  "add_attribute kind val b =
     b\<lparr>mb_bytes := pad4 (mb_bytes b @ to_be kind @ to_be (word_of_nat (length val) :: u16) @ val)\<rparr>"

definition address_mask :: "bytes \<Rightarrow> bytes" where
  "address_mask transaction = to_be MAGIC_COOKIE @ transaction"

fun encode_xor_address :: "socket_addr \<Rightarrow> bytes \<Rightarrow> bytes" where
  "encode_xor_address (SockV4 ip port) transaction =
     [0, 1] @ to_be (port XOR ucast (drop_bit 16 MAGIC_COOKIE)) @ to_be (ip XOR MAGIC_COOKIE)"
| "encode_xor_address (SockV6 octets port) transaction =
     [0, 2] @ to_be (port XOR ucast (drop_bit 16 MAGIC_COOKIE))
       @ map (\<lambda>(octet, mask). octet XOR mask) (zip octets (address_mask transaction))"

definition decode_xor_address :: "bytes \<Rightarrow> bytes \<Rightarrow> stun_error + socket_addr" where
  "decode_xor_address val transaction =
     (if length val < 4 \<or> val ! 0 \<noteq> 0 then Inl StunMalformedAddress
      else let port = be16 val 2 XOR ucast (drop_bit 16 MAGIC_COOKIE)
      in if val ! 1 = 1 \<and> length val = 8 then Inr (SockV4 (be32 val 4 XOR MAGIC_COOKIE) port)
      else if val ! 1 = 2 \<and> length val = 20 then
        Inr (SockV6 (map (\<lambda>i. val ! (i + 4) XOR address_mask transaction ! i) [0..<16]) port)
      else Inl StunAddressFamily)"

definition add_xor_address :: "u16 \<Rightarrow> socket_addr \<Rightarrow> message_builder \<Rightarrow> message_builder" where
  "add_xor_address kind address b = add_attribute kind (encode_xor_address address (mb_transaction b)) b"

definition set_message_length :: "nat \<Rightarrow> bytes \<Rightarrow> stun_error + bytes" where
  "set_message_length trailing bs =
     (let len = length bs - 20 + trailing
      in if len < 65536 then Inr (take 2 bs @ to_be (word_of_nat len :: u16) @ drop 4 bs) else Inl StunTooLarge)"

definition finish :: "stun_crypto \<Rightarrow> message_builder \<Rightarrow> stun_error + bytes" where
  "finish c b =
     (case set_message_length 8 (mb_bytes b) of
        Inl e \<Rightarrow> Inl e
      | Inr bs \<Rightarrow>
          let fingerprint = crc32 c bs XOR FINGERPRINT_XOR
          in Inr (mb_bytes (add_attribute ATTR_FINGERPRINT (to_be fingerprint) (b\<lparr>mb_bytes := bs\<rparr>))))"

definition ATTR_MESSAGE_INTEGRITY :: u16 where
  "ATTR_MESSAGE_INTEGRITY = 0x0008"

definition finish_authenticated :: "stun_crypto \<Rightarrow> bytes \<Rightarrow> message_builder \<Rightarrow> stun_error + bytes" where
  "finish_authenticated c key b =
     (case set_message_length 24 (mb_bytes b) of
        Inl e \<Rightarrow> Inl e
      | Inr bs \<Rightarrow>
          let integrity = hmac_sha1_keyed c key bs
          in finish c (add_attribute ATTR_MESSAGE_INTEGRITY integrity (b\<lparr>mb_bytes := bs\<rparr>)))"

definition verify_integrity :: "stun_crypto \<Rightarrow> bytes \<Rightarrow> stun_message \<Rightarrow> bytes option \<Rightarrow> bool" where
  "verify_integrity c packet m key =
     (case (key, attribute m ATTR_MESSAGE_INTEGRITY) of
        (Some k, Some integrity) \<Rightarrow>
          if length (sa_value integrity) \<noteq> 20 \<or> sa_header_start integrity < 20 then False
          else if sa_header_start integrity + 24 - 20 \<ge> 65536 then False
          else let signed = take (sa_header_start integrity) packet;
                   signed' = take 2 signed @ to_be (word_of_nat (sa_header_start integrity + 24 - 20) :: u16) @ drop 4 signed
               in hmac_sha1_keyed c k signed' = sa_value integrity
      | _ \<Rightarrow> False)"

section \<open>Layout of a built message\<close>

definition enc_attr :: "u16 \<times> bytes \<Rightarrow> bytes" where
  "enc_attr a = to_be (fst a) @ to_be (word_of_nat (length (snd a)) :: u16) @ snd a
     @ replicate (align4 (length (snd a)) - length (snd a)) 0"

definition enc_attrs :: "(u16 \<times> bytes) list \<Rightarrow> bytes" where
  "enc_attrs as = concat (map enc_attr as)"

definition message_bytes :: "u16 \<Rightarrow> nat \<Rightarrow> bytes \<Rightarrow> (u16 \<times> bytes) list \<Rightarrow> bytes" where
  "message_bytes kind len tx as =
     to_be kind @ to_be (word_of_nat len :: u16) @ to_be MAGIC_COOKIE @ tx @ enc_attrs as"

fun placed :: "nat \<Rightarrow> (u16 \<times> bytes) list \<Rightarrow> stun_attribute list" where
  "placed pos [] = []"
| "placed pos ((k, v) # as) =
     \<lparr>sa_kind = (if k = 0x8020 then 0x0020 else k), sa_value = v, sa_header_start = pos,
      sa_value_range = (pos + 4, pos + 4 + length v)\<rparr> # placed (pos + 4 + align4 (length v)) as"

definition short :: "(u16 \<times> bytes) list \<Rightarrow> bool" where
  "short as \<longleftrightarrow> (\<forall>a\<in>set as. length (snd a) < 65536)"

lemma short_simps [simp]:
  "short []" "short (a # as) \<longleftrightarrow> length (snd a) < 65536 \<and> short as" "short (as @ bs) \<longleftrightarrow> short as \<and> short bs"
  by (auto simp: short_def)

lemma enc_attrs_simps [simp]:
  "enc_attrs [] = []" "enc_attrs (a # as) = enc_attr a @ enc_attrs as" "enc_attrs (as @ bs) = enc_attrs as @ enc_attrs bs"
  by (simp_all add: enc_attrs_def)

lemma align4_ge: "n \<le> align4 n"
  by (simp add: align4_def)

lemma align4_mod [simp]: "align4 n mod 4 = 0"
  by (simp add: align4_def)

lemma length_enc_attr: "length (enc_attr a) = 4 + align4 (length (snd a))"
  using align4_ge [of "length (snd a)"] by (simp add: enc_attr_def)

lemma enc_attrs_aligned: "length (enc_attrs as) mod 4 = 0"
proof (induction as)
  case (Cons a as)
  have "(4 + align4 (length (snd a))) mod 4 = 0" by simp
  then show ?case using Cons by (simp add: length_enc_attr mod_add_eq [symmetric])
qed simp

lemma pad4_eq: "pad4 bs = bs @ replicate ((4 - length bs mod 4) mod 4) 0"
proof (induction bs rule: pad4.induct)
  case (1 bs)
  show ?case
  proof (cases "length bs mod 4 = 0")
    case False
    then have "length bs mod 4 \<in> {1, 2, 3}" using mod_less_divisor [of 4 "length bs"] by auto
    then have "(4 - length bs mod 4) mod 4 = Suc ((4 - length (bs @ [0::u8]) mod 4) mod 4)" by (auto simp: mod_Suc)
    then show ?thesis using False 1 by (subst pad4.simps) simp
  qed (simp add: pad4.simps)
qed

lemma align4_gap:
  assumes "L mod 4 = (0 :: nat)"
  shows "(4 - (L + n) mod 4) mod 4 = align4 n - n"
proof -
  define q r where "q = n div 4" and "r = n mod 4"
  have n: "n = 4 * q + r" and "r < 4" by (simp_all add: q_def r_def)
  have "L + n = r + (L div 4 + q) * 4" using assms n div_mult_mod_eq [of L 4] by (simp add: algebra_simps)
  then have "(L + n) mod 4 = r" using \<open>r < 4\<close> by (simp only: mod_mult_self1 mod_less)
  moreover have "r \<in> {0, 1, 2, 3}" using \<open>r < 4\<close> by auto
  ultimately show ?thesis unfolding align4_def n by auto
qed

lemma add_attribute_bytes:
  assumes "length (mb_bytes b) mod 4 = 0"
  shows "mb_bytes (add_attribute k v b) = mb_bytes b @ enc_attr (k, v)"
  using align4_gap [OF assms, of "length v"] by (simp add: add_attribute_def pad4_eq enc_attr_def add.assoc)

lemma be16_at: "i = length pre \<Longrightarrow> be16 (pre @ to_be w @ suf) i = w"
  by (simp add: be16_def)

lemma read_attr:
  assumes "length v < 65536" "raw = pre @ enc_attr (k, v) @ suf"
  shows "be16 raw (length pre) = k" "unat (be16 raw (length pre + 2)) = length v"
    "take (length v) (drop (length pre + 4) raw) = v"
proof -
  show "be16 raw (length pre) = k" by (simp add: assms(2) enc_attr_def be16_at)
  have "be16 raw (length pre + 2) = word_of_nat (length v)"
    using be16_at [of "length pre + 2" "pre @ to_be k" "word_of_nat (length v)"] by (simp add: assms(2) enc_attr_def)
  then show "unat (be16 raw (length pre + 2)) = length v" using assms(1) by (simp add: unat_of_nat)
  show "take (length v) (drop (length pre + 4) raw) = v" by (simp add: assms(2) enc_attr_def)
qed

lemma attributes_placed:
  assumes "short as" "raw = pre @ enc_attrs as"
  shows "attributes_from raw (length raw) (length pre) = placed (length pre) as \<and>
         scan_attributes raw (length raw) (length pre) = None"
  using assms
proof (induction as arbitrary: pre)
  case Nil
  then show ?case by (simp add: attributes_from.simps scan_attributes.simps)
next
  case (Cons a as)
  obtain k v where a: "a = (k, v)" by force
  have raw: "raw = pre @ enc_attr (k, v) @ enc_attrs as" using Cons.prems(2) a by simp
  have v: "length v < 65536" using Cons.prems(1) a by simp
  have len: "length raw = length pre + (4 + align4 (length v)) + length (enc_attrs as)" by (simp add: raw length_enc_attr)
  have ih: "attributes_from raw (length raw) (length pre + 4 + align4 (length v)) =
      placed (length pre + 4 + align4 (length v)) as \<and> scan_attributes raw (length raw) (length pre + 4 + align4 (length v)) = None"
    using Cons.IH [of "pre @ enc_attr (k, v)"] Cons.prems a by (simp add: length_enc_attr add.assoc)
  have ge: "length v \<le> align4 (length v)" by (rule align4_ge)
  show ?case
  proof
    show "attributes_from raw (length raw) (length pre) = placed (length pre) (a # as)"
      using ih a by (subst attributes_from.simps) (simp add: len read_attr [OF v raw] Let_def del: length_append add_2_eq_Suc')
    show "scan_attributes raw (length raw) (length pre) = None"
      using ih ge by (subst scan_attributes.simps) (simp add: len read_attr [OF v raw] Let_def del: length_append add_2_eq_Suc')
  qed
qed

lemma length_message_bytes: "length tx = 12 \<Longrightarrow> length (message_bytes k n tx as) = 20 + length (enc_attrs as)"
  by (simp add: message_bytes_def)

lemma with_transaction_bytes: "mb_bytes (with_transaction kind tx) = message_bytes kind 0 tx []"
  by (simp add: with_transaction_def message_bytes_def)

lemma mb_transaction_simps [simp]:
  "mb_transaction (with_transaction kind tx) = tx" "mb_transaction (add_attribute k v b) = mb_transaction b"
  "mb_transaction (add_xor_address k a b) = mb_transaction b"
  by (simp_all add: with_transaction_def add_attribute_def add_xor_address_def)

lemma add_attribute_message:
  assumes "length tx = 12" "mb_bytes b = message_bytes kind n tx as"
  shows "mb_bytes (add_attribute k v b) = message_bytes kind n tx (as @ [(k, v)])"
proof -
  have "length (mb_bytes b) mod 4 = (20 + length (enc_attrs as)) mod 4" using assms by (simp add: length_message_bytes)
  also have "\<dots> = 0" using enc_attrs_aligned [of as] by presburger
  finally show ?thesis using assms(2) by (simp add: add_attribute_bytes message_bytes_def)
qed

lemma set_message_length_message:
  assumes "length tx = 12"
  shows "set_message_length t (message_bytes kind n tx as) =
     (if length (enc_attrs as) + t < 65536 then Inr (message_bytes kind (length (enc_attrs as) + t) tx as) else Inl StunTooLarge)"
  using assms by (simp add: set_message_length_def length_message_bytes Let_def) (simp add: message_bytes_def)

lemma finish_message:
  assumes "length tx = 12" "mb_bytes b = message_bytes kind n tx as"
  shows "finish c b =
     (let m = length (enc_attrs as) + 8;
          fp = crc32 c (message_bytes kind m tx as) XOR FINGERPRINT_XOR
      in if m < 65536 then Inr (message_bytes kind m tx (as @ [(ATTR_FINGERPRINT, to_be fp)])) else Inl StunTooLarge)"
  using add_attribute_message [OF assms(1), of "b\<lparr>mb_bytes := _\<rparr>"]
  by (simp add: finish_def assms(2) set_message_length_message [OF assms(1)] Let_def)

lemma stun_decode_message:
  assumes "length tx = 12" "short as" "n = length (enc_attrs as)" "n < 65536" "kind AND 0xc000 = 0" "kind \<noteq> 0"
  shows "stun_decode (message_bytes kind n tx as) =
     Inr \<lparr>sm_raw = message_bytes kind n tx as, sm_kind = kind, sm_transaction = tx, sm_end = 20 + n\<rparr>"
proof -
  let ?m = "message_bytes kind n tx as"
  have "attributes_from ?m (length ?m) 20 = placed 20 as \<and> scan_attributes ?m (length ?m) 20 = None"
    using attributes_placed [OF assms(2), of ?m "to_be kind @ to_be (word_of_nat n :: u16) @ to_be MAGIC_COOKIE @ tx"] assms(1)
    by (simp add: message_bytes_def)
  moreover have "be16 ?m 0 = kind" "be16 ?m 2 = word_of_nat n" "take 4 (drop 4 ?m) = to_be MAGIC_COOKIE" "take 12 (drop 8 ?m) = tx"
    using assms(1) be16_at [of 2 "to_be kind"] by (simp_all add: message_bytes_def be16_def)
  moreover have "unat (word_of_nat n :: u16) = n" using assms(4) by (simp add: unat_of_nat)
  ultimately show ?thesis
    using assms enc_attrs_aligned [of as]
    by (simp add: stun_decode_def Let_def HEADER_SIZE_def length_message_bytes)
qed

lemma attribute_message:
  assumes "length tx = 12" "short as" "n = length (enc_attrs as)"
  shows "attribute \<lparr>sm_raw = message_bytes kind n tx as, sm_kind = k, sm_transaction = t, sm_end = 20 + n\<rparr> target =
     find (\<lambda>a. sa_kind a = target) (placed 20 as)"
  using attributes_placed [OF assms(2), of "message_bytes kind n tx as" "to_be kind @ to_be (word_of_nat n :: u16) @ to_be MAGIC_COOKIE @ tx"] assms
  by (simp add: attribute_def stun_attributes_def HEADER_SIZE_def message_bytes_def)

lemma find_placed_append:
  "find P (placed pos (as @ bs)) =
     (case find P (placed pos as) of None \<Rightarrow> find P (placed (pos + length (enc_attrs as)) bs) | Some a \<Rightarrow> Some a)"
proof (induction as arbitrary: pos)
  case (Cons a as)
  then show ?case by (cases a) (simp add: length_enc_attr add.assoc split: option.split)
qed simp

definition free_of :: "u16 \<Rightarrow> (u16 \<times> bytes) list \<Rightarrow> bool" where
  "free_of target as \<longleftrightarrow> (\<forall>a\<in>set as. fst a \<noteq> target \<and> fst a \<noteq> 0x8020)"

lemma free_of_simps [simp]:
  "free_of t []" "free_of t (a # as) \<longleftrightarrow> fst a \<noteq> t \<and> fst a \<noteq> 0x8020 \<and> free_of t as"
  "free_of t (as @ bs) \<longleftrightarrow> free_of t as \<and> free_of t bs"
  by (auto simp: free_of_def)

lemma find_free: "free_of t as \<Longrightarrow> find (\<lambda>a. sa_kind a = t) (placed pos as) = None"
proof (induction as arbitrary: pos)
  case (Cons a as)
  then show ?case by (cases a) simp
qed simp

section \<open>What the builder guarantees\<close>

lemma fingerprint_of_message:
  assumes tx: "length tx = 12" and short: "short as" and free: "free_of ATTR_FINGERPRINT as"
    and fp: "fp = crc32 c (message_bytes kind (length (enc_attrs as) + 8) tx as) XOR FINGERPRINT_XOR"
    and m: "m = \<lparr>sm_raw = message_bytes kind (length (enc_attrs as) + 8) tx (as @ [(ATTR_FINGERPRINT, to_be fp)]),
        sm_kind = k, sm_transaction = t, sm_end = 20 + (length (enc_attrs as) + 8)\<rparr>"
  shows "fingerprint_valid c m = Some True"
proof -
  let ?as = "as @ [(ATTR_FINGERPRINT, to_be fp)]"
  have n: "length (enc_attrs as) + 8 = length (enc_attrs ?as)" by (simp add: length_enc_attr align4_def)
  have "attribute m ATTR_FINGERPRINT = find (\<lambda>a. sa_kind a = ATTR_FINGERPRINT) (placed 20 ?as)"
    unfolding m n using attribute_message [OF tx, of ?as] short by simp
  then have "attribute m ATTR_FINGERPRINT = Some \<lparr>sa_kind = ATTR_FINGERPRINT, sa_value = to_be fp,
      sa_header_start = 20 + length (enc_attrs as),
      sa_value_range = (20 + length (enc_attrs as) + 4, 20 + length (enc_attrs as) + 4 + 4)\<rparr>"
    using find_free [OF free, of 20] by (simp add: find_placed_append ATTR_FINGERPRINT_def)
  moreover have "take (20 + length (enc_attrs as)) (sm_raw m) = message_bytes kind (length (enc_attrs as) + 8) tx as"
    using tx by (simp add: m message_bytes_def)
  ultimately show ?thesis by (simp add: fingerprint_valid_def fp) (simp add: m)
qed

lemma integrity_of_message:
  assumes tx: "length tx = 12" and short: "short as" "short rest" and free: "free_of ATTR_MESSAGE_INTEGRITY as"
    and mac: "mac = hmac_sha1_keyed c key (message_bytes kind (length (enc_attrs as) + 24) tx as)" "length mac = 20"
    and n: "n = length (enc_attrs (as @ (ATTR_MESSAGE_INTEGRITY, mac) # rest))"  "n < 65536"
    and bs: "bs = message_bytes kind n tx (as @ (ATTR_MESSAGE_INTEGRITY, mac) # rest)"
    and m: "m = \<lparr>sm_raw = bs, sm_kind = k, sm_transaction = t, sm_end = 20 + n\<rparr>"
  shows "verify_integrity c bs m (Some key)"
proof -
  let ?as = "as @ (ATTR_MESSAGE_INTEGRITY, mac) # rest" and ?L = "length (enc_attrs as)"
  have L: "?L + 24 < 65536" using n mac(2) by (simp add: length_enc_attr align4_def)
  have "attribute m ATTR_MESSAGE_INTEGRITY = find (\<lambda>a. sa_kind a = ATTR_MESSAGE_INTEGRITY) (placed 20 ?as)"
    unfolding m bs using attribute_message [OF tx _ n(1)] short mac(2) by simp
  then have att: "attribute m ATTR_MESSAGE_INTEGRITY = Some \<lparr>sa_kind = ATTR_MESSAGE_INTEGRITY, sa_value = mac,
      sa_header_start = 20 + ?L, sa_value_range = (20 + ?L + 4, 20 + ?L + 4 + 20)\<rparr>"
    using find_free [OF free, of 20] mac(2) by (simp add: find_placed_append ATTR_MESSAGE_INTEGRITY_def)
  have "take 2 (take (20 + ?L) bs) @ to_be (word_of_nat (?L + 24) :: u16) @ drop 4 (take (20 + ?L) bs)
      = message_bytes kind (?L + 24) tx as"
    using tx by (simp add: bs message_bytes_def)
  then show ?thesis using L by (simp add: verify_integrity_def att Let_def mac(1) [symmetric] mac(2) add.commute)
qed

lemma finish_valid:
  assumes "length tx = 12" "mb_bytes b = message_bytes kind n tx as" "short as" "free_of ATTR_FINGERPRINT as"
    and "kind AND 0xc000 = 0" "kind \<noteq> 0" "finish c b = Inr packet"
  shows "\<exists>v m. packet = message_bytes kind (length (enc_attrs as) + 8) tx (as @ [(ATTR_FINGERPRINT, v)]) \<and> length v = 4
     \<and> length (enc_attrs as) + 8 < 65536
     \<and> stun_decode packet = Inr m \<and> fingerprint_valid c m = Some True
     \<and> m = \<lparr>sm_raw = packet, sm_kind = kind, sm_transaction = tx, sm_end = 20 + (length (enc_attrs as) + 8)\<rparr>"
proof -
  define fp where "fp = crc32 c (message_bytes kind (length (enc_attrs as) + 8) tx as) XOR FINGERPRINT_XOR"
  let ?as = "as @ [(ATTR_FINGERPRINT, to_be fp)]"
  have small: "length (enc_attrs as) + 8 < 65536" and p: "packet = message_bytes kind (length (enc_attrs as) + 8) tx ?as"
    using assms(7) by (simp_all add: finish_message [OF assms(1,2)] Let_def fp_def split: if_splits)
  have n: "length (enc_attrs as) + 8 = length (enc_attrs ?as)" by (simp add: length_enc_attr align4_def)
  have "stun_decode packet = Inr \<lparr>sm_raw = packet, sm_kind = kind, sm_transaction = tx, sm_end = 20 + (length (enc_attrs as) + 8)\<rparr>"
    unfolding p using stun_decode_message [OF assms(1) _ n small assms(5,6)] assms(3) by simp
  then show ?thesis
    using p small fingerprint_of_message [OF assms(1,3,4) fp_def refl] by (intro exI [of _ "to_be fp"]) simp
qed

lemma finish_authenticated_valid:
  assumes tx: "length tx = 12" and b: "mb_bytes b = message_bytes kind n tx as" and short: "short as"
    and free: "free_of ATTR_FINGERPRINT as" "free_of ATTR_MESSAGE_INTEGRITY as"
    and kind: "kind AND 0xc000 = 0" "kind \<noteq> 0"
    and mac_len: "\<And>key msg. length (hmac_sha1_keyed c key msg) = 20"
    and ok: "finish_authenticated c key b = Inr packet"
  shows "\<exists>mac v m. packet = message_bytes kind (length (enc_attrs as) + 32) tx
            (as @ [(ATTR_MESSAGE_INTEGRITY, mac), (ATTR_FINGERPRINT, v)]) \<and> length mac = 20 \<and> length v = 4
     \<and> length (enc_attrs as) + 32 < 65536
     \<and> stun_decode packet = Inr m \<and> fingerprint_valid c m = Some True \<and> verify_integrity c packet m (Some key)
     \<and> m = \<lparr>sm_raw = packet, sm_kind = kind, sm_transaction = tx, sm_end = 20 + (length (enc_attrs as) + 32)\<rparr>"
proof -
  define mac where "mac = hmac_sha1_keyed c key (message_bytes kind (length (enc_attrs as) + 24) tx as)"
  let ?b = "add_attribute ATTR_MESSAGE_INTEGRITY mac (b\<lparr>mb_bytes := message_bytes kind (length (enc_attrs as) + 24) tx as\<rparr>)"
  let ?as = "as @ [(ATTR_MESSAGE_INTEGRITY, mac)]"
  have len: "length mac = 20" by (simp add: mac_def mac_len)
  have n: "length (enc_attrs ?as) = length (enc_attrs as) + 24" using len by (simp add: length_enc_attr align4_def)
  have b': "mb_bytes ?b = message_bytes kind (length (enc_attrs as) + 24) tx ?as"
    using add_attribute_message [OF tx] by simp
  have "finish c ?b = Inr packet"
    using ok by (simp add: finish_authenticated_def b set_message_length_message [OF tx] mac_def Let_def split: if_splits)
  moreover have "free_of ATTR_FINGERPRINT ?as" "short ?as"
    using free short len by (simp_all add: ATTR_FINGERPRINT_def ATTR_MESSAGE_INTEGRITY_def)
  ultimately obtain v m where p: "packet = message_bytes kind (length (enc_attrs as) + 32) tx (?as @ [(ATTR_FINGERPRINT, v)])"
    "length v = 4" "length (enc_attrs as) + 32 < 65536" "stun_decode packet = Inr m" "fingerprint_valid c m = Some True"
    "m = \<lparr>sm_raw = packet, sm_kind = kind, sm_transaction = tx, sm_end = 20 + (length (enc_attrs as) + 32)\<rparr>"
    using finish_valid [OF tx b' _ _ kind] unfolding n by (fastforce simp: add.assoc)
  moreover have "verify_integrity c packet m (Some key)"
    using integrity_of_message [OF tx short _ free(2) mac_def len _ p(3), of "[(ATTR_FINGERPRINT, v)]" packet m] p len
    by (simp add: length_enc_attr align4_def)
  ultimately show ?thesis using len by (intro exI [of _ mac] exI [of _ v] exI [of _ m]) simp
qed

lemma xor_address_round_trip:
  assumes "addr_ok a" "length tx = 12"
  shows "decode_xor_address (encode_xor_address a tx) tx = Inr a"
proof (cases a)
  case (SockV4 ip port)
  then show ?thesis by (simp add: decode_xor_address_def Let_def be16_def be32_def xor.assoc)
next
  case (SockV6 octets port)
  have len: "length octets = 16" "length (address_mask tx) = 16"
    using assms SockV6 by (simp_all add: address_mask_def)
  let ?v = "map (\<lambda>(octet, mask). octet XOR mask) (zip octets (address_mask tx))"
  have "map (\<lambda>i. (?v ! i) XOR address_mask tx ! i) [0..<16] = octets"
    by (rule nth_equalityI) (simp_all add: len xor.assoc)
  then show ?thesis using SockV6 len
    by (simp add: decode_xor_address_def Let_def be16_def xor.assoc nth_append nth_Cons')
qed

interpretation xor_address: byte_codec "\<lambda>a. encode_xor_address a tx"
  "\<lambda>v. case decode_xor_address v tx of Inl _ \<Rightarrow> None | Inr a \<Rightarrow> Some a" "\<lambda>a. addr_ok a \<and> length tx = 12" for tx
  by unfold_locales (simp add: xor_address_round_trip)

section \<open>Decoded attributes lie in the packet\<close>

lemma scanned_in_bounds:
  assumes "scan_attributes raw fin position = None" "fin \<le> length raw" "a \<in> set (attributes_from raw fin position)"
  shows "position \<le> sa_header_start a \<and> sa_value_range a = (sa_header_start a + 4, sa_header_start a + 4 + length (sa_value a))
     \<and> snd (sa_value_range a) \<le> fin"
  using assms
proof (induction raw fin position rule: attributes_from.induct)
  case (1 raw fin position)
  show ?case
  proof (cases "position < fin")
    case True
    let ?len = "unat (be16 raw (position + 2))"
    have scan: "position + 4 + align4 ?len \<le> fin" "position + 4 + ?len \<le> fin"
      "scan_attributes raw fin (position + 4 + align4 ?len) = None"
      using 1(2) True by (subst (asm) scan_attributes.simps, simp add: Let_def split: if_splits)+
    consider "a \<in> set (attributes_from raw fin (position + 4 + align4 ?len))"
      | "a = \<lparr>sa_kind = (if be16 raw position = 0x8020 then 0x0020 else be16 raw position),
            sa_value = take ?len (drop (position + 4) raw),
            sa_header_start = position, sa_value_range = (position + 4, position + 4 + ?len)\<rparr>"
      using 1(4) True by (subst (asm) attributes_from.simps) (auto simp: Let_def)
    then show ?thesis
    proof cases
      case 1
      then show ?thesis using "1.IH" True scan(3) \<open>fin \<le> length raw\<close> by force
    next
      case 2
      then show ?thesis using scan(2) \<open>fin \<le> length raw\<close> by simp
    qed
  next
    case False
    then show ?thesis using 1(4) by (subst (asm) attributes_from.simps) simp
  qed
qed

lemma decode_InrD:
  assumes "stun_decode raw = Inr m"
  shows "sm_raw m = raw" "sm_end m = length raw" "scan_attributes raw (length raw) 20 = None"
    "sm_transaction m = take 12 (drop 8 raw)" "20 \<le> length raw"
  using assms by (auto simp: stun_decode_def Let_def HEADER_SIZE_def split: if_splits option.splits)

section \<open>Properties\<close>

text \<open>No attribute of a decoded STUN message reaches outside the datagram: every
  attribute the iterator yields has its header behind the 20 header bytes and its value
  range is exactly its value and ends within the packet, so the slices the code takes never
  leave the buffer.\<close>

theorem decoded_attributes_in_bounds:
  assumes "stun_decode raw = Inr m" "a \<in> set (stun_attributes m)"
  shows "20 \<le> sa_header_start a \<and> sa_value_range a = (sa_header_start a + 4, sa_header_start a + 4 + length (sa_value a))
     \<and> snd (sa_value_range a) \<le> length raw"
  using scanned_in_bounds [of raw "length raw" 20 a] assms(2) decode_InrD [OF assms(1)]
  by (auto simp: stun_attributes_def HEADER_SIZE_def)

theorem decoded_attributes_in_bounds_witness:
  "\<exists>m a. stun_decode (message_bytes 3 8 (replicate 12 7) [(0x19, [17, 0, 0, 0])]) = Inr m \<and> a \<in> set (stun_attributes m)
     \<and> snd (sa_value_range a) \<le> 28"
proof -
  let ?raw = "message_bytes 3 8 (replicate 12 7) [(0x19, [17, 0, 0, 0])]"
  have dec: "stun_decode ?raw = Inr \<lparr>sm_raw = ?raw, sm_kind = 3, sm_transaction = replicate 12 7, sm_end = 20 + 8\<rparr>"
    by (rule stun_decode_message) (simp_all add: length_enc_attr align4_def)
  have "attribute \<lparr>sm_raw = ?raw, sm_kind = 3, sm_transaction = replicate 12 7, sm_end = 20 + 8\<rparr> 0x19 =
      find (\<lambda>a. sa_kind a = 0x19) (placed 20 [(0x19, [17, 0, 0, 0])])"
    by (rule attribute_message) (simp_all add: length_enc_attr align4_def)
  then obtain a where a: "a \<in> set (stun_attributes \<lparr>sm_raw = ?raw, sm_kind = 3, sm_transaction = replicate 12 7, sm_end = 20 + 8\<rparr>)"
    by (auto simp: attribute_def find_Some_iff) (metis nth_mem)
  have "length ?raw = 28" by (simp add: length_message_bytes length_enc_attr align4_def)
  then show ?thesis using decoded_attributes_in_bounds [OF dec a] dec a by auto
qed

end
