(* ===== verification/Turn_Core.thy ===== *)
theory Turn_Core
  imports Stun_Codec
begin

text \<open>
  The TURN client core of \<open>rust-client/turn_core.rs\<close>: the allocation state machine with
  its requests, retransmissions, refreshes, keep-alives and shutdown, without I/O.  A method
  of \<open>NativeCore\<close> is a function on the record \<open>inner\<close>, the state behind its mutex.

  Times and durations are natural numbers of nanoseconds.  \<open>start_operation\<close> reads the clock
  and the random generator itself; a method starts an operation of one kind at most once, so
  these readings are functions of the operation in \<open>turn_env\<close>, beside the reading the
  method takes itself.
\<close>

unbundle bit_operations_syntax

section \<open>Constants\<close>

abbreviation millis :: "nat \<Rightarrow> nat" where
  "millis n \<equiv> n * 1000000"

abbreviation secs :: "nat \<Rightarrow> nat" where
  "secs n \<equiv> n * 1000000000"

definition CONTROL_CAPACITY :: nat where "CONTROL_CAPACITY = 16"
definition EVENT_CAPACITY :: nat where "EVENT_CAPACITY = 64"
definition INITIAL_RTO :: nat where "INITIAL_RTO = millis 200"
definition MAX_RTO :: nat where "MAX_RTO = millis 1600"
definition MAX_TRANSMISSIONS :: u8 where "MAX_TRANSMISSIONS = 7"
definition STREAM_TRANSACTION_TIMEOUT :: nat where "STREAM_TRANSACTION_TIMEOUT = secs 12"
definition REQUESTED_ALLOCATION_LIFETIME_SECS :: u32 where "REQUESTED_ALLOCATION_LIFETIME_SECS = 600"
definition MAINTENANCE_RETRY_BASE :: nat where "MAINTENANCE_RETRY_BASE = secs 1"
definition MAINTENANCE_RETRY_MAX :: nat where "MAINTENANCE_RETRY_MAX = secs 30"
definition MAX_CHANNEL_MAINTENANCE_FAILURES :: u8 where "MAX_CHANNEL_MAINTENANCE_FAILURES = 4"
definition CHANNEL_NUMBER :: u16 where "CHANNEL_NUMBER = 0x4000"

definition ATTR_USERNAME :: u16 where "ATTR_USERNAME = 0x0006"
definition ATTR_ERROR_CODE :: u16 where "ATTR_ERROR_CODE = 0x0009"
definition ATTR_CHANNEL_NUMBER :: u16 where "ATTR_CHANNEL_NUMBER = 0x000c"
definition ATTR_LIFETIME :: u16 where "ATTR_LIFETIME = 0x000d"
definition ATTR_XOR_PEER_ADDRESS :: u16 where "ATTR_XOR_PEER_ADDRESS = 0x0012"
definition ATTR_REALM :: u16 where "ATTR_REALM = 0x0014"
definition ATTR_NONCE :: u16 where "ATTR_NONCE = 0x0015"
definition ATTR_XOR_RELAYED_ADDRESS :: u16 where "ATTR_XOR_RELAYED_ADDRESS = 0x0016"
definition ATTR_REQUESTED_ADDRESS_FAMILY :: u16 where "ATTR_REQUESTED_ADDRESS_FAMILY = 0x0017"
definition ATTR_REQUESTED_TRANSPORT :: u16 where "ATTR_REQUESTED_TRANSPORT = 0x0019"

text \<open>Results and states are the integer constants of the source, as enumerations.\<close>

datatype turn_status =
    STATUS_OK
  | RESULT_EMPTY
  | RESULT_BUFFER_TOO_SMALL
  | RESULT_INVALID_ARGUMENT
  | RESULT_CLOSED
  | RESULT_NOT_CONTROL
  | RESULT_TIMEOUT
  | RESULT_AUTHENTICATION
  | RESULT_PROTOCOL

datatype turn_state =
    STATE_NULL
  | STATE_ALLOCATING
  | STATE_READY
  | STATE_DEALLOCATING
  | STATE_DEALLOCATED
  | STATE_DESTROYING

datatype event_kind =
    EVENT_STATE
  | EVENT_REQUEST_COMPLETE
  | EVENT_CHANNEL_BOUND
  | EVENT_RELAY_ADDRESS
  | EVENT_CONTROL_OVERFLOW
  | EVENT_FORCED_DESTROY
  | EVENT_EVENT_OVERFLOW
  | EVENT_STUN_RESPONSE_ERROR
  | EVENT_CHANNEL_REBIND_EXHAUSTED

datatype turn_transport = Datagram | StreamTransport

record turn_profile =
  pf_allocation_refresh :: nat
  pf_maintenance_refresh :: nat
  pf_keepalive_interval :: nat
  pf_max_nonce_retries :: u8

definition PJNATH_COMPAT :: turn_profile where
  "PJNATH_COMPAT = \<lparr>pf_allocation_refresh = secs 300, pf_maintenance_refresh = secs 175,
     pf_keepalive_interval = secs 10, pf_max_nonce_retries = 3\<rparr>"

record native_address =
  na_family :: u8
  na_reserved :: u8
  na_port :: u16
  na_ip :: bytes

definition default_address :: native_address where
  "default_address = \<lparr>na_family = 0, na_reserved = 0, na_port = 0, na_ip = replicate 16 0\<rparr>"

fun from_socket_addr :: "socket_addr \<Rightarrow> native_address" where
  "from_socket_addr (SockV4 ip port) =
     default_address\<lparr>na_family := 4, na_port := port, na_ip := to_be ip @ replicate 12 0\<rparr>"
| "from_socket_addr (SockV6 octets port) = default_address\<lparr>na_family := 6, na_port := port, na_ip := octets\<rparr>"

text \<open>\<open>None\<close> is the error for any other address family.\<close>

definition to_socket_addr :: "native_address \<Rightarrow> socket_addr option" where
  "to_socket_addr a =
     (if na_family a = 4 then Some (SockV4 (from_be (take 4 (na_ip a))) (na_port a))
      else if na_family a = 6 then Some (SockV6 (na_ip a) (na_port a))
      else None)"

record native_event =
  ne_kind :: event_kind
  ne_method :: u32
  ne_status :: turn_status
  ne_stun_code :: u16
  ne_state :: turn_state
  ne_previous_state :: turn_state
  ne_dropped :: u32
  ne_channel :: u16
  ne_reserved :: u16
  ne_address :: native_address

text \<open>\<open>NativeEvent::default()\<close> with a kind.\<close>

definition event :: "event_kind \<Rightarrow> native_event" where
  "event k = \<lparr>ne_kind = k, ne_method = 0, ne_status = STATUS_OK, ne_stun_code = 0, ne_state = STATE_NULL,
     ne_previous_state = STATE_NULL, ne_dropped = 0, ne_channel = 0, ne_reserved = 0, ne_address = default_address\<rparr>"

datatype operation = Allocate | Refresh | Deallocate | Permission | Channel

fun op_method :: "operation \<Rightarrow> u32" where
  "op_method Allocate = 3"
| "op_method Refresh = 4"
| "op_method Deallocate = 4"
| "op_method Permission = 8"
| "op_method Channel = 9"

record pending =
  pe_operation :: operation
  pe_transaction :: bytes
  pe_packet :: bytes
  pe_next_attempt :: nat
  pe_rto :: nat
  pe_transmissions :: u8
  pe_nonce_retries :: u8
  pe_authenticated :: bool

record control =
  co_packet :: bytes
  co_destination :: socket_addr

record inner =
  in_server :: socket_addr
  in_peer :: socket_addr
  in_username :: bytes
  in_password :: bytes
  in_realm :: "bytes option"
  in_nonce :: "bytes option"
  in_key :: "bytes option"
  in_state :: turn_state
  in_relay :: "socket_addr option"
  in_channel :: "u16 option"
  in_controls :: "control list"
  in_events :: "native_event list"
  in_pending :: "pending list"
  in_allocation_refresh :: "nat option"
  in_allocation_expires_at :: "nat option"
  in_maintenance_refresh :: "nat option"
  in_permission_retry :: "nat option"
  in_channel_retry :: "nat option"
  in_refresh_failures :: u8
  in_permission_failures :: u8
  in_channel_failures :: u8
  in_keepalive :: "nat option"
  in_shutting_down :: bool
  in_destroyed :: bool
  in_profile :: turn_profile
  in_transport :: turn_transport

record turn_env =
  te_crypto :: stun_crypto
  te_now :: nat
  te_clock :: "operation \<Rightarrow> nat"
  te_random :: "operation \<Rightarrow> bytes"

datatype turn_error =
    TurnStatus turn_status
  | AuthIncomplete
  | KeyMissing
  | BuildError stun_error
  | NoRelayedAddress
  | InvalidRelayedAddress
  | ZeroLifetime
  | NonZeroLifetime

section \<open>Creation\<close>

definition create_core ::
  "socket_addr \<Rightarrow> bytes \<Rightarrow> bytes \<Rightarrow> socket_addr \<Rightarrow> turn_profile \<Rightarrow> turn_transport \<Rightarrow> turn_error + inner" where
  "create_core server username password peer profile transport =
     (if port_of server = 0 \<or> port_of peer = 0 then Inl (TurnStatus RESULT_INVALID_ARGUMENT)
      else if username = [] \<or> length username > 512 \<or> password = [] \<or> length password > 512
      then Inl (TurnStatus RESULT_INVALID_ARGUMENT)
      else Inr \<lparr>in_server = server, in_peer = peer, in_username = username, in_password = password,
        in_realm = None, in_nonce = None, in_key = None, in_state = STATE_NULL, in_relay = None,
        in_channel = None, in_controls = [], in_events = [], in_pending = [], in_allocation_refresh = None,
        in_allocation_expires_at = None, in_maintenance_refresh = None, in_permission_retry = None,
        in_channel_retry = None, in_refresh_failures = 0, in_permission_failures = 0, in_channel_failures = 0,
        in_keepalive = None, in_shutting_down = False, in_destroyed = False, in_profile = profile,
        in_transport = transport\<rparr>)"

section \<open>Queues\<close>

definition push_event :: "native_event \<Rightarrow> inner \<Rightarrow> inner" where
  "push_event ev i =
     (if length (in_events i) = EVENT_CAPACITY
      then i\<lparr>in_events := tl (in_events i) @
             [(event EVENT_EVENT_OVERFLOW)\<lparr>ne_status := RESULT_BUFFER_TOO_SMALL, ne_dropped := 1\<rparr>]\<rparr>
      else i\<lparr>in_events := in_events i @ [ev]\<rparr>)"

definition queue_packet :: "bytes \<Rightarrow> inner \<Rightarrow> inner" where
  "queue_packet packet i =
     (let i' = (if length (in_controls i) = CONTROL_CAPACITY
                then push_event ((event EVENT_CONTROL_OVERFLOW)\<lparr>ne_status := RESULT_BUFFER_TOO_SMALL, ne_dropped := 1\<rparr>)
                       (i\<lparr>in_controls := tl (in_controls i)\<rparr>)
                else i)
      in i'\<lparr>in_controls := in_controls i' @ [\<lparr>co_packet = packet, co_destination = in_server i'\<rparr>]\<rparr>)"

definition push_control :: "bytes \<Rightarrow> inner \<Rightarrow> inner" where
  "push_control packet i = queue_packet packet i"

definition queue_keepalive :: "inner \<Rightarrow> inner" where
  "queue_keepalive i =
     (case in_channel i of
        None \<Rightarrow> i
      | Some channel \<Rightarrow> queue_packet (to_be channel @ to_be (1 :: u16) @ [0xff, 0, 0, 0]) i)"

definition remove_queued_transaction :: "bytes \<Rightarrow> inner \<Rightarrow> inner" where
  "remove_queued_transaction transaction i =
     i\<lparr>in_controls := filter (\<lambda>c. get_range (co_packet c) 8 20 \<noteq> Some transaction) (in_controls i)\<rparr>"

definition set_state :: "turn_state \<Rightarrow> inner \<Rightarrow> inner" where
  "set_state st i =
     (if in_state i = st then i
      else push_event ((event EVENT_STATE)\<lparr>ne_state := st, ne_previous_state := in_state i\<rparr>) (i\<lparr>in_state := st\<rparr>))"

definition complete :: "operation \<Rightarrow> turn_status \<Rightarrow> u16 \<Rightarrow> inner \<Rightarrow> inner" where
  "complete operation status stun_code i =
     push_event ((event EVENT_REQUEST_COMPLETE)\<lparr>ne_method := op_method operation, ne_status := status,
       ne_stun_code := stun_code, ne_state := in_state i,
       ne_channel := (case in_channel i of None \<Rightarrow> 0 | Some c \<Rightarrow> c), 
       ne_address := (case in_relay i of None \<Rightarrow> default_address | Some a \<Rightarrow> from_socket_addr a)\<rparr>) i"

section \<open>Requests\<close>

definition require_open :: "inner \<Rightarrow> turn_error option" where
  "require_open i = (if in_destroyed i \<or> in_shutting_down i then Some (TurnStatus RESULT_CLOSED) else None)"

definition require_ready :: "inner \<Rightarrow> turn_error option" where
  "require_ready i =
     (case require_open i of
        Some e \<Rightarrow> Some e
      | None \<Rightarrow> if in_state i \<noteq> STATE_READY then Some (TurnStatus RESULT_INVALID_ARGUMENT) else None)"

definition set_auth :: "stun_crypto \<Rightarrow> bytes \<Rightarrow> bytes \<Rightarrow> inner \<Rightarrow> inner" where
  "set_auth c realm nonce i =
     i\<lparr>in_key := Some (md5 c (in_username i @ ascii '':'' @ realm @ ascii '':'' @ in_password i)),
       in_realm := Some realm, in_nonce := Some nonce\<rparr>"

definition operation_attributes :: "inner \<Rightarrow> operation \<Rightarrow> message_builder \<Rightarrow> message_builder" where
  "operation_attributes i operation b =
     (case operation of
        Allocate \<Rightarrow>
          add_attribute ATTR_LIFETIME (to_be REQUESTED_ALLOCATION_LIFETIME_SECS)
            (add_attribute ATTR_REQUESTED_ADDRESS_FAMILY [if is_ipv4 (in_peer i) then 1 else 2, 0, 0, 0]
              (add_attribute ATTR_REQUESTED_TRANSPORT [17, 0, 0, 0] b))
      | Refresh \<Rightarrow> add_attribute ATTR_LIFETIME (to_be REQUESTED_ALLOCATION_LIFETIME_SECS) b
      | Deallocate \<Rightarrow> add_attribute ATTR_LIFETIME (to_be (0 :: u32)) b
      | Permission \<Rightarrow> add_xor_address ATTR_XOR_PEER_ADDRESS (in_peer i) b
      | Channel \<Rightarrow>
          add_xor_address ATTR_XOR_PEER_ADDRESS (in_peer i) (add_attribute ATTR_CHANNEL_NUMBER [0x40, 0, 0, 0] b))"

definition unwrap_or_default :: "bytes option \<Rightarrow> bytes" where
  "unwrap_or_default x = (case x of None \<Rightarrow> [] | Some v \<Rightarrow> v)"

definition build_request :: "stun_crypto \<Rightarrow> inner \<Rightarrow> operation \<Rightarrow> bytes \<Rightarrow> bool \<Rightarrow> turn_error + bytes" where
  "build_request c i operation transaction authenticated =
     (let builder = operation_attributes i operation (with_transaction (ucast (op_method operation)) transaction)
      in if authenticated then
           (let builder' = add_attribute ATTR_NONCE (unwrap_or_default (in_nonce i))
                  (add_attribute ATTR_REALM (unwrap_or_default (in_realm i))
                    (add_attribute ATTR_USERNAME (in_username i) builder))
            in case in_key i of
                 None \<Rightarrow> Inl KeyMissing
               | Some key \<Rightarrow> map_sum BuildError id (finish_authenticated c key builder'))
         else map_sum BuildError id (finish c builder))"

definition has_operation :: "operation \<Rightarrow> inner \<Rightarrow> bool" where
  "has_operation operation i \<longleftrightarrow> (\<exists>p\<in>set (in_pending i). pe_operation p = operation)"

definition transaction_timeout :: "inner \<Rightarrow> nat" where
  "transaction_timeout i = (case in_transport i of Datagram \<Rightarrow> INITIAL_RTO | StreamTransport \<Rightarrow> STREAM_TRANSACTION_TIMEOUT)"

definition start_operation ::
  "turn_env \<Rightarrow> operation \<Rightarrow> bool \<Rightarrow> u8 \<Rightarrow> inner \<Rightarrow> inner \<times> (turn_error + unit)" where
  "start_operation env operation authenticated nonce_retries i =
     (if has_operation operation i then
        (if operation = Channel then
           (case find (\<lambda>p. pe_operation p = operation) (in_pending i) of
              None \<Rightarrow> i
            | Some p \<Rightarrow> queue_packet (pe_packet p) i)
         else i, Inr ())
      else if authenticated \<and> (in_realm i = None \<or> in_nonce i = None \<or> in_key i = None) then (i, Inl AuthIncomplete)
      else let transaction = te_random env operation
           in case build_request (te_crypto env) i operation transaction authenticated of
                Inl e \<Rightarrow> (i, Inl e)
              | Inr packet \<Rightarrow>
                  let i' = push_control packet i
                  in (i'\<lparr>in_pending := in_pending i' @
                        [\<lparr>pe_operation = operation, pe_transaction = transaction, pe_packet = packet,
                          pe_next_attempt = te_clock env operation + transaction_timeout i', pe_rto = INITIAL_RTO,
                          pe_transmissions = 1, pe_nonce_retries = nonce_retries, pe_authenticated = authenticated\<rparr>]\<rparr>,
                      Inr ()))"

definition start_allocation :: "turn_env \<Rightarrow> inner \<Rightarrow> inner \<times> (turn_error + unit)" where
  "start_allocation env i =
     (case require_open i of
        Some e \<Rightarrow> (i, Inl e)
      | None \<Rightarrow>
          if in_state i \<noteq> STATE_NULL then (i, Inl (TurnStatus RESULT_INVALID_ARGUMENT))
          else start_operation env Allocate False 0 (set_state STATE_ALLOCATING i))"

definition start_channel :: "turn_env \<Rightarrow> inner \<Rightarrow> inner \<times> (turn_error + unit)" where
  "start_channel env i =
     (case require_ready i of Some e \<Rightarrow> (i, Inl e) | None \<Rightarrow> start_operation env Channel True 0 i)"

definition start_permission :: "turn_env \<Rightarrow> inner \<Rightarrow> inner \<times> (turn_error + unit)" where
  "start_permission env i =
     (case require_ready i of Some e \<Rightarrow> (i, Inl e) | None \<Rightarrow> start_operation env Permission True 0 i)"

section \<open>Failures\<close>

definition destroy_allocation :: "operation \<Rightarrow> turn_status \<Rightarrow> u16 \<Rightarrow> inner \<Rightarrow> inner" where
  "destroy_allocation operation status stun_code i =
     (let i' = (complete operation status stun_code i)\<lparr>in_controls := [], in_pending := [], in_channel := None,
            in_allocation_refresh := None, in_allocation_expires_at := None, in_maintenance_refresh := None,
            in_permission_retry := None, in_channel_retry := None, in_keepalive := None, in_relay := None\<rparr>
      in if operation = Deallocate then set_state STATE_DEALLOCATED i' else set_state STATE_DESTROYING i')"

definition destroy_after_channel_rebind_exhausted :: "inner \<Rightarrow> inner" where
  "destroy_after_channel_rebind_exhausted i =
     set_state STATE_DESTROYING
       (push_event ((event EVENT_CHANNEL_REBIND_EXHAUSTED)\<lparr>ne_status := RESULT_TIMEOUT, ne_state := STATE_DESTROYING\<rparr>)
         (i\<lparr>in_controls := [], in_pending := [], in_channel := None, in_maintenance_refresh := None,
            in_permission_retry := None, in_channel_retry := None, in_keepalive := None\<rparr>))"

definition retry_delay :: "u8 \<Rightarrow> nat" where
  "retry_delay failures =
     (let shift = unat (min (saturating_sub failures 1) 5)
      in min (MAINTENANCE_RETRY_BASE * 2 ^ shift) MAINTENANCE_RETRY_MAX)"

definition schedule_maintenance_retry :: "operation \<Rightarrow> nat \<Rightarrow> inner \<Rightarrow> inner \<times> bool" where
  "schedule_maintenance_retry operation now i =
     (case operation of
        Allocate \<Rightarrow> (i, True)
      | Deallocate \<Rightarrow> (i, True)
      | Refresh \<Rightarrow>
          let failures = saturating_add (in_refresh_failures i) 1
          in (i\<lparr>in_refresh_failures := failures, in_allocation_refresh := Some (now + retry_delay failures)\<rparr>, True)
      | Permission \<Rightarrow>
          let failures = saturating_add (in_permission_failures i) 1
          in (i\<lparr>in_permission_failures := failures, in_permission_retry := Some (now + retry_delay failures)\<rparr>, True)
      | Channel \<Rightarrow>
          let failures = saturating_add (in_channel_failures i) 1
          in if failures \<ge> MAX_CHANNEL_MAINTENANCE_FAILURES then (i\<lparr>in_channel_failures := failures\<rparr>, False)
             else (i\<lparr>in_channel_failures := failures, in_channel_retry := Some (now + retry_delay failures)\<rparr>, True))"

definition complete_failure :: "operation \<Rightarrow> turn_status \<Rightarrow> u16 \<Rightarrow> nat \<Rightarrow> inner \<Rightarrow> inner" where
  "complete_failure operation status stun_code now i =
     (if operation \<in> {Refresh, Permission, Channel} \<and> in_state i = STATE_READY
         \<and> (case in_allocation_expires_at i of None \<Rightarrow> False | Some deadline \<Rightarrow> now < deadline)
      then (case schedule_maintenance_retry operation now (complete operation status stun_code i) of
              (i', retry) \<Rightarrow> if retry then i' else destroy_after_channel_rebind_exhausted i')
      else destroy_allocation operation status stun_code i)"

lemmas failure_defs = complete_failure_def schedule_maintenance_retry_def destroy_after_channel_rebind_exhausted_def
  destroy_allocation_def Let_def

text \<open>The event operations as record updates.\<close>

definition ev_push :: "native_event \<Rightarrow> native_event list \<Rightarrow> native_event list" where
  "ev_push ev evs =
     (if length evs = EVENT_CAPACITY
      then tl evs @ [(event EVENT_EVENT_OVERFLOW)\<lparr>ne_status := RESULT_BUFFER_TOO_SMALL, ne_dropped := 1\<rparr>]
      else evs @ [ev])"

lemma push_event_eq [simp]: "push_event e i = i\<lparr>in_events := ev_push e (in_events i)\<rparr>"
  by (simp add: push_event_def ev_push_def)

lemma set_state_cases:
  obtains evs where "set_state st i = i\<lparr>in_state := st, in_events := evs\<rparr>"
    "evs = in_events i \<or> (\<exists>e. evs = ev_push e (in_events i))"
proof (cases "in_state i = st")
  case True
  then show ?thesis using that [of "in_events i"] by (simp add: set_state_def)
next
  case False
  then show ?thesis using that by (fastforce simp: set_state_def)
qed

lemma set_state_fields [simp]:
  "in_state (set_state st i) = st" "in_pending (set_state st i) = in_pending i"
  "in_controls (set_state st i) = in_controls i" "in_relay (set_state st i) = in_relay i"
  "in_channel (set_state st i) = in_channel i" "in_allocation_expires_at (set_state st i) = in_allocation_expires_at i"
  "in_realm (set_state st i) = in_realm i" "in_nonce (set_state st i) = in_nonce i" "in_key (set_state st i) = in_key i"
  "in_destroyed (set_state st i) = in_destroyed i" "in_shutting_down (set_state st i) = in_shutting_down i"
  "in_transport (set_state st i) = in_transport i" "in_profile (set_state st i) = in_profile i"
  "in_allocation_refresh (set_state st i) = in_allocation_refresh i" "in_peer (set_state st i) = in_peer i"
  by (simp_all add: set_state_def)

lemma complete_failure_pending: "in_pending (complete_failure operation status code now i) \<in> {in_pending i, []}"
  by (auto simp: failure_defs complete_def split: operation.splits)

section \<open>Timers\<close>

definition remove_at :: "nat \<Rightarrow> 'a list \<Rightarrow> 'a list" where
  "remove_at k xs = take k xs @ drop (Suc k) xs"

text \<open>One transaction at its deadline: given up, or transmitted again with a doubled timeout.\<close>

definition give_up :: "nat \<Rightarrow> nat \<Rightarrow> inner \<Rightarrow> inner" where
  "give_up now index i =
     (let p = in_pending i ! index
      in complete_failure (pe_operation p) RESULT_TIMEOUT 0 now
           (remove_queued_transaction (pe_transaction p) (i\<lparr>in_pending := remove_at index (in_pending i)\<rparr>)))"

definition retransmit :: "nat \<Rightarrow> nat \<Rightarrow> inner \<Rightarrow> inner" where
  "retransmit now index i =
     (let i' = queue_packet (pe_packet (in_pending i ! index)) i;
          p = in_pending i' ! index;
          rto = min (pe_rto p * 2) MAX_RTO
      in i'\<lparr>in_pending := (in_pending i')[index := p\<lparr>pe_transmissions := pe_transmissions p + 1, pe_rto := rto,
              pe_next_attempt := now + rto\<rparr>]\<rparr>)"

lemma length_remove_at: "k < length xs \<Longrightarrow> length (remove_at k xs) < length xs"
  by (simp add: remove_at_def)

lemma length_give_up: "index < length (in_pending i) \<Longrightarrow> length (in_pending (give_up now index i)) < length (in_pending i)"
  using complete_failure_pending [of "pe_operation (in_pending i ! index)" RESULT_TIMEOUT 0 now
      "remove_queued_transaction (pe_transaction (in_pending i ! index)) (i\<lparr>in_pending := remove_at index (in_pending i)\<rparr>)"]
    length_remove_at [of index "in_pending i"]
  by (auto simp: give_up_def Let_def remove_queued_transaction_def)

lemma give_up_measure:
  "index < length (in_pending i) \<Longrightarrow>
     length (in_pending (give_up now index i)) - index < length (in_pending i) - index"
  using length_give_up [of index i now] by linarith

lemma length_retransmit [simp]: "length (in_pending (retransmit now index i)) = length (in_pending i)"
  by (simp add: retransmit_def queue_packet_def Let_def)

function expire_from :: "nat \<Rightarrow> nat \<Rightarrow> inner \<Rightarrow> inner" where
  "expire_from now index i =
     (if index < length (in_pending i) then
        if now < pe_next_attempt (in_pending i ! index) then expire_from now (Suc index) i
        else if pe_transmissions (in_pending i ! index) \<ge> MAX_TRANSMISSIONS then expire_from now index (give_up now index i)
        else if in_transport i = StreamTransport then expire_from now index (give_up now index i)
        else expire_from now (Suc index) (retransmit now index i)
      else i)"
  by pat_completeness auto
termination
  by (relation "measure (\<lambda>(now, index, i). length (in_pending i) - index)")
    (simp_all add: give_up_measure)

declare expire_from.simps [simp del]

definition expire_transactions :: "nat \<Rightarrow> inner \<Rightarrow> inner" where
  "expire_transactions now i = expire_from now 0 i"

definition option_list :: "'a option \<Rightarrow> 'a list" where
  "option_list x = (case x of None \<Rightarrow> [] | Some v \<Rightarrow> [v])"

definition next_deadline :: "inner \<Rightarrow> nat option" where
  "next_deadline i =
     (case map pe_next_attempt (in_pending i) @ option_list (in_allocation_refresh i)
             @ option_list (in_maintenance_refresh i) @ option_list (in_permission_retry i)
             @ option_list (in_channel_retry i) @ option_list (in_keepalive i) of
        [] \<Rightarrow> None
      | t # ts \<Rightarrow> Some (fold min ts t))"

definition due :: "nat \<Rightarrow> nat option \<Rightarrow> bool" where
  "due now deadline = (case deadline of None \<Rightarrow> False | Some d \<Rightarrow> now \<ge> d)"

section \<open>Responses\<close>

definition error_code :: "stun_message \<Rightarrow> u16 option" where
  "error_code m =
     (case attribute m ATTR_ERROR_CODE of
        None \<Rightarrow> None
      | Some a \<Rightarrow>
          let val = sa_value a
          in if length val < 4 \<or> val ! 2 > 6 \<or> val ! 3 > 99 then None
             else Some (ucast (val ! 2) * 100 + ucast (val ! 3)))"

definition response_requires_integrity :: "stun_message \<Rightarrow> bool" where
  "response_requires_integrity m =
     (case stun_class_of m of
        Success \<Rightarrow> True
      | ErrorClass \<Rightarrow> error_code m \<notin> {Some 400, Some 401, Some 420, Some 438}
      | _ \<Rightarrow> False)"

definition is_fingerprinted_allocation_mismatch :: "stun_crypto \<Rightarrow> stun_message \<Rightarrow> bool" where
  "is_fingerprinted_allocation_mismatch c m \<longleftrightarrow>
     stun_class_of m = ErrorClass \<and> error_code m = Some 437 \<and> fingerprint_valid c m = Some True"

definition requires_allocation_recreate :: "operation \<Rightarrow> u16 \<Rightarrow> bool" where
  "requires_allocation_recreate operation code \<longleftrightarrow> code = 437 \<or> (operation = Channel \<and> code = 400)"

definition attribute_u32 :: "stun_message \<Rightarrow> u16 \<Rightarrow> u32 option" where
  "attribute_u32 m kind =
     (case attribute m kind of
        None \<Rightarrow> None
      | Some a \<Rightarrow> if length (sa_value a) = 4 then Some (from_be (sa_value a)) else None)"

definition lifetime_or_default :: "u32 option \<Rightarrow> u32" where
  "lifetime_or_default l = (case l of None \<Rightarrow> REQUESTED_ALLOCATION_LIFETIME_SECS | Some v \<Rightarrow> v)"

definition allocation_refresh_deadline :: "nat \<Rightarrow> u32 option \<Rightarrow> nat \<Rightarrow> nat" where
  "allocation_refresh_deadline now lifetime interval =
     now + max (min interval (secs (unat (lifetime_or_default lifetime)) div 2)) (millis 500)"

text \<open>The allocation is granted or prolonged: the new deadlines.\<close>

definition extend_allocation :: "nat \<Rightarrow> u32 option \<Rightarrow> inner \<Rightarrow> inner" where
  "extend_allocation now returned_lifetime i =
     i\<lparr>in_allocation_refresh := Some (allocation_refresh_deadline now returned_lifetime
                                        (pf_allocation_refresh (in_profile i))),
       in_allocation_expires_at := Some (now + secs (unat (lifetime_or_default returned_lifetime))),
       in_refresh_failures := 0\<rparr>"

definition complete_allocate :: "turn_env \<Rightarrow> stun_message \<Rightarrow> inner \<Rightarrow> inner \<times> (turn_error + unit)" where
  "complete_allocate env m i =
     (case attribute m ATTR_XOR_RELAYED_ADDRESS of
        None \<Rightarrow> (i, Inl NoRelayedAddress)
      | Some a \<Rightarrow>
          (case decode_xor_address (sa_value a) (sm_transaction m) of
             Inl e \<Rightarrow> (i, Inl (BuildError e))
           | Inr relay \<Rightarrow>
               if is_ipv4 relay \<noteq> is_ipv4 (in_peer i) \<or> port_of relay = 0 then (i, Inl InvalidRelayedAddress)
               else let returned_lifetime = attribute_u32 m ATTR_LIFETIME
               in if lifetime_or_default returned_lifetime = 0 then (i, Inl ZeroLifetime)
               else let i1 = (extend_allocation (te_now env) returned_lifetime (i\<lparr>in_relay := Some relay\<rparr>))
                               \<lparr>in_maintenance_refresh := Some (te_now env + pf_maintenance_refresh (in_profile i)),
                                in_keepalive := Some (te_now env + pf_keepalive_interval (in_profile i))\<rparr>;
                        i2 = push_event ((event EVENT_RELAY_ADDRESS)\<lparr>ne_address := from_socket_addr relay\<rparr>) i1
               in if in_shutting_down i2
                  then start_operation env Deallocate True 0 (set_state STATE_DEALLOCATING i2)
                  else (complete Allocate STATUS_OK 0 (set_state STATE_READY i2), Inr ())))"

definition complete_success :: "turn_env \<Rightarrow> operation \<Rightarrow> stun_message \<Rightarrow> inner \<Rightarrow> inner \<times> (turn_error + unit)" where
  "complete_success env operation m i =
     (case operation of
        Allocate \<Rightarrow> complete_allocate env m i
      | Refresh \<Rightarrow>
          let returned_lifetime = attribute_u32 m ATTR_LIFETIME
          in if lifetime_or_default returned_lifetime = 0 then (i, Inl ZeroLifetime)
             else (complete Refresh STATUS_OK 0 (extend_allocation (te_now env) returned_lifetime i), Inr ())
      | Deallocate \<Rightarrow>
          if (case attribute_u32 m ATTR_LIFETIME of None \<Rightarrow> 0 | Some l \<Rightarrow> l) \<noteq> 0 then (i, Inl NonZeroLifetime)
          else (set_state STATE_DEALLOCATED (complete Deallocate STATUS_OK 0
                 (i\<lparr>in_relay := None, in_allocation_refresh := None, in_allocation_expires_at := None\<rparr>)), Inr ())
      | Permission \<Rightarrow> (complete Permission STATUS_OK 0 (i\<lparr>in_permission_failures := 0\<rparr>), Inr ())
      | Channel \<Rightarrow>
          (complete Channel STATUS_OK 0
             (push_event ((event EVENT_CHANNEL_BOUND)\<lparr>ne_channel := CHANNEL_NUMBER, ne_address := from_socket_addr (in_peer i)\<rparr>)
               (i\<lparr>in_channel := Some CHANNEL_NUMBER, in_channel_failures := 0\<rparr>)), Inr ()))"

fun position :: "('a \<Rightarrow> bool) \<Rightarrow> 'a list \<Rightarrow> nat option" where
  "position P [] = None"
| "position P (x # xs) = (if P x then Some 0 else map_option Suc (position P xs))"

definition response_error_event :: "stun_message \<Rightarrow> turn_status \<Rightarrow> u16 \<Rightarrow> turn_state \<Rightarrow> native_event" where
  "response_error_event m status code st =
     (event EVENT_STUN_RESPONSE_ERROR)\<lparr>ne_method := ucast (stun_method m), ne_status := status, ne_stun_code := code, ne_state := st\<rparr>"

definition error_realm :: "stun_message \<Rightarrow> u16 \<Rightarrow> inner \<Rightarrow> bytes option" where
  "error_realm m code i =
     (case attribute m ATTR_REALM of
        Some a \<Rightarrow> Some (sa_value a)
      | None \<Rightarrow> if code = 438 then in_realm i else None)"

definition error_nonce :: "stun_message \<Rightarrow> bytes option" where
  "error_nonce m = map_option sa_value (attribute m ATTR_NONCE)"

text \<open>An error response to the pending request \<open>p\<close>, which is no longer in the list.\<close>

definition handle_error_response :: "turn_env \<Rightarrow> stun_message \<Rightarrow> pending \<Rightarrow> inner \<Rightarrow> inner" where
  "handle_error_response env m p i =
     (let code = (case error_code m of None \<Rightarrow> 0 | Some c \<Rightarrow> c);
          failed = (\<lambda>j. complete_failure (pe_operation p) RESULT_PROTOCOL code (te_now env)
                      (push_event (response_error_event m STATUS_OK code (in_state i)) j))
      in if code = 0 then
           complete_failure (pe_operation p) RESULT_PROTOCOL 0 (te_now env)
             (push_event (response_error_event m RESULT_PROTOCOL 0 (in_state i)) i)
         else if requires_allocation_recreate (pe_operation p) code then
           destroy_allocation (pe_operation p) RESULT_PROTOCOL code
             (push_event (response_error_event m STATUS_OK code (in_state i)) i)
         else if (code = 401 \<or> code = 438) \<and> pe_nonce_retries p < pf_max_nonce_retries (in_profile i) then
           (case (error_realm m code i, error_nonce m) of
              (Some realm, Some nonce) \<Rightarrow>
                (case start_operation env (pe_operation p) True (pe_nonce_retries p + 1)
                        (set_auth (te_crypto env) realm nonce i) of
                   (i', Inr _) \<Rightarrow> i'
                 | (i', Inl _) \<Rightarrow> failed i')
            | _ \<Rightarrow> failed i)
         else failed i)"

text \<open>A response that may be acted on, to the pending request \<open>p\<close> taken out of the list.\<close>

definition handle_response :: "turn_env \<Rightarrow> stun_message \<Rightarrow> pending \<Rightarrow> inner \<Rightarrow> inner \<times> turn_status" where
  "handle_response env m p i =
     (if stun_class_of m = Success \<and> \<not> pe_authenticated p then
        (complete_failure (pe_operation p) RESULT_AUTHENTICATION 0 (te_now env) i, RESULT_AUTHENTICATION)
      else if stun_class_of m = ErrorClass then (handle_error_response env m p i, STATUS_OK)
      else (case complete_success env (pe_operation p) m i of
              (j, Inr _) \<Rightarrow> (j, STATUS_OK)
            | (j, Inl _) \<Rightarrow> (complete_failure (pe_operation p) RESULT_PROTOCOL 0 (te_now env) j, RESULT_PROTOCOL)))"

definition input_stun :: "turn_env \<Rightarrow> bytes \<Rightarrow> inner \<Rightarrow> inner \<times> turn_status" where
  "input_stun env packet i =
     (case stun_decode packet of
        Inl _ \<Rightarrow> (i, RESULT_INVALID_ARGUMENT)
      | Inr m \<Rightarrow>
          if stun_class_of m \<notin> {Success, ErrorClass} then (i, RESULT_NOT_CONTROL)
          else if fingerprint_valid (te_crypto env) m = Some False then (i, RESULT_INVALID_ARGUMENT)
          else case position (\<lambda>p. pe_transaction p = sm_transaction m
                                \<and> op_method (pe_operation p) = ucast (stun_method m)) (in_pending i) of
            None \<Rightarrow> (i, RESULT_NOT_CONTROL)
          | Some index \<Rightarrow>
              let p = in_pending i ! index
              in if pe_authenticated p \<and> response_requires_integrity m
                    \<and> \<not> verify_integrity (te_crypto env) packet m (in_key i)
                    \<and> \<not> is_fingerprinted_allocation_mismatch (te_crypto env) m
                 then (case (stun_class_of m, error_code m) of
                         (ErrorClass, Some code) \<Rightarrow>
                           push_event (response_error_event m RESULT_AUTHENTICATION code (in_state i)) i
                       | _ \<Rightarrow> i, RESULT_AUTHENTICATION)
                 else handle_response env m p (remove_queued_transaction (sm_transaction m)
                        (i\<lparr>in_pending := remove_at index (in_pending i)\<rparr>)))"

section \<open>The interface\<close>

text \<open>One branch of \<open>poll\<close>: when \<open>wanted\<close>, clear the timer and start the operation.\<close>

definition start_when ::
  "turn_env \<Rightarrow> operation \<Rightarrow> bool \<Rightarrow> (inner \<Rightarrow> inner) \<Rightarrow> inner \<Rightarrow> inner \<times> (turn_error + bool)" where
  "start_when env operation wanted clear i =
     (if wanted \<and> \<not> has_operation operation i
      then case start_operation env operation True 0 (clear i) of
             (i', Inl e) \<Rightarrow> (i', Inl e)
           | (i', Inr _) \<Rightarrow> (i', Inr True)
      else (i, Inr False))"

text \<open>The \<open>?\<close> after each branch: stop at the first error, else collect whether one started.\<close>

fun and_then ::
  "inner \<times> (turn_error + bool) \<Rightarrow> (inner \<Rightarrow> inner \<times> (turn_error + bool)) \<Rightarrow> inner \<times> (turn_error + bool)" where
  "and_then (i, Inl e) f = (i, Inl e)"
| "and_then (i, Inr started) f =
     (case f i of (i', Inl e) \<Rightarrow> (i', Inl e) | (i', Inr started') \<Rightarrow> (i', Inr (started \<or> started')))"

definition poll_maintenance :: "turn_env \<Rightarrow> inner \<Rightarrow> inner \<times> (turn_error + bool)" where
  "poll_maintenance env i =
     (let now = te_now env;
          maintenance_due = due now (in_maintenance_refresh i);
          permission_retry_due = due now (in_permission_retry i);
          channel_retry_due = due now (in_channel_retry i)
      in and_then (start_when env Refresh (due now (in_allocation_refresh i)) (\<lambda>j. j\<lparr>in_allocation_refresh := None\<rparr>) i)
          (\<lambda>i1. let i2 = (if maintenance_due
                          then i1\<lparr>in_maintenance_refresh := Some (now + pf_maintenance_refresh (in_profile i1))\<rparr> else i1)
           in and_then (start_when env Permission (maintenance_due \<or> permission_retry_due)
                          (\<lambda>j. j\<lparr>in_permission_retry := None\<rparr>) i2)
               (\<lambda>i3. start_when env Channel (maintenance_due \<or> channel_retry_due)
                        (\<lambda>j. j\<lparr>in_channel_retry := None\<rparr>) i3)))"

definition poll_keepalive :: "nat \<Rightarrow> bool \<Rightarrow> inner \<Rightarrow> inner" where
  "poll_keepalive now control_started i =
     (if due now (in_keepalive i)
      then let i' = i\<lparr>in_keepalive := Some (now + pf_keepalive_interval (in_profile i))\<rparr>
           in if control_started then i' else queue_keepalive i'
      else i)"

definition poll_deadline :: "nat \<Rightarrow> inner \<Rightarrow> nat option" where
  "poll_deadline now i = map_option (\<lambda>deadline. max (deadline - now) (millis 1)) (next_deadline i)"

definition poll_expiry :: "nat \<Rightarrow> inner \<Rightarrow> inner" where
  "poll_expiry now i =
     (let i' = expire_transactions now i
      in if \<not> in_shutting_down i' \<and> in_state i' = STATE_READY \<and> due now (in_allocation_expires_at i')
         then destroy_allocation Refresh RESULT_TIMEOUT 0 i' else i')"

definition poll :: "turn_env \<Rightarrow> inner \<Rightarrow> inner \<times> (turn_error + nat option)" where
  "poll env i =
     (if in_destroyed i then (i, Inr None)
      else let i1 = poll_expiry (te_now env) i
      in if \<not> in_shutting_down i1 \<and> in_state i1 = STATE_READY
         then case poll_maintenance env i1 of
                (i2, Inl e) \<Rightarrow> (i2, Inl e)
              | (i2, Inr started) \<Rightarrow>
                  let i3 = poll_keepalive (te_now env) started i2 in (i3, Inr (poll_deadline (te_now env) i3))
         else (i1, Inr (poll_deadline (te_now env) i1)))"

definition pull_control :: "inner \<Rightarrow> inner \<times> (turn_error + (bytes \<times> socket_addr) option)" where
  "pull_control i =
     (case in_controls i of
        [] \<Rightarrow> (i, Inr None)
      | c # cs \<Rightarrow>
          if length (co_packet c) > 1024
          then (i\<lparr>in_controls := cs\<rparr>, Inl (TurnStatus RESULT_BUFFER_TOO_SMALL))
          else (i\<lparr>in_controls := cs\<rparr>, Inr (Some (co_packet c, co_destination c))))"

definition pull_event :: "inner \<Rightarrow> inner \<times> native_event option" where
  "pull_event i = (case in_events i of [] \<Rightarrow> (i, None) | e # es \<Rightarrow> (i\<lparr>in_events := es\<rparr>, Some e))"

definition relay_address :: "inner \<Rightarrow> socket_addr option" where
  "relay_address i = in_relay i"

definition graceful_shutdown :: "turn_env \<Rightarrow> inner \<Rightarrow> inner \<times> (turn_error + unit)" where
  "graceful_shutdown env i =
     (if in_destroyed i \<or> in_shutting_down i then (i, Inr ())
      else let i' = i\<lparr>in_shutting_down := True, in_channel := None, in_maintenance_refresh := None,
                      in_permission_retry := None, in_channel_retry := None, in_keepalive := None, in_controls := []\<rparr>
      in if in_state i' = STATE_READY \<or> (in_state i' = STATE_DESTROYING \<and> in_allocation_expires_at i' \<noteq> None)
         then start_operation env Deallocate True 0 (set_state STATE_DEALLOCATING (i'\<lparr>in_pending := []\<rparr>))
         else if in_state i' \<noteq> STATE_ALLOCATING then (i'\<lparr>in_pending := []\<rparr>, Inr ())
         else (i', Inr ()))"

definition force_destroy :: "turn_status \<Rightarrow> inner \<Rightarrow> inner" where
  "force_destroy status i =
     (if in_destroyed i then i
      else push_event ((event EVENT_FORCED_DESTROY)\<lparr>ne_status := status, ne_state := STATE_DESTROYING\<rparr>)
             (set_state STATE_DESTROYING (i\<lparr>in_destroyed := True, in_controls := [], in_pending := []\<rparr>)))"

text \<open>The calls the owner of a core makes, in any order.\<close>

datatype core_call =
    CallStartAllocation
  | CallStartChannel
  | CallStartPermission
  | CallInput bytes
  | CallPoll
  | CallPullControl
  | CallPullEvent
  | CallShutdown
  | CallDestroy turn_status

fun core_step :: "turn_env \<Rightarrow> core_call \<Rightarrow> inner \<Rightarrow> inner" where
  "core_step env CallStartAllocation i = fst (start_allocation env i)"
| "core_step env CallStartChannel i = fst (start_channel env i)"
| "core_step env CallStartPermission i = fst (start_permission env i)"
| "core_step env (CallInput packet) i = fst (input_stun env packet i)"
| "core_step env CallPoll i = fst (poll env i)"
| "core_step env CallPullControl i = fst (pull_control i)"
| "core_step env CallPullEvent i = fst (pull_event i)"
| "core_step env CallShutdown i = fst (graceful_shutdown env i)"
| "core_step env (CallDestroy status) i = force_destroy status i"

inductive core_reach :: "inner \<Rightarrow> bool" where
  created: "create_core server username password peer profile transport = Inr i \<Longrightarrow> core_reach i"
| stepped: "core_reach i \<Longrightarrow> core_reach (core_step env call i)"

end
