(* ===== verification/Turn_Steps.thy ===== *)
theory Turn_Steps
  imports Turn_Core
begin

text \<open>
  Case rules for the steps of the TURN core: what a datagram may do, what the error handler
  and the scan over the timed-out transactions keep, and the fields the helpers leave alone.
\<close>

definition auth_set :: "inner \<Rightarrow> bool" where
  "auth_set i \<longleftrightarrow> in_realm i \<noteq> None \<and> in_nonce i \<noteq> None \<and> in_key i \<noteq> None"

lemma queue_packet_fields [simp]:
  "in_state (queue_packet packet i) = in_state i" "in_destroyed (queue_packet packet i) = in_destroyed i"
  "in_pending (queue_packet packet i) = in_pending i" "in_transport (queue_packet packet i) = in_transport i"
  "in_shutting_down (queue_packet packet i) = in_shutting_down i"
  "in_allocation_expires_at (queue_packet packet i) = in_allocation_expires_at i"
  "in_relay (queue_packet packet i) = in_relay i" "in_channel (queue_packet packet i) = in_channel i"
  "in_realm (queue_packet packet i) = in_realm i" "in_nonce (queue_packet packet i) = in_nonce i"
  "in_key (queue_packet packet i) = in_key i" "in_profile (queue_packet packet i) = in_profile i"
  "in_allocation_refresh (queue_packet packet i) = in_allocation_refresh i"
  "in_peer (queue_packet packet i) = in_peer i"
  by (simp_all add: queue_packet_def Let_def)

text \<open>What every timed-out transaction keeps, the whole scan keeps.\<close>

lemma expire_from_keeps:
  assumes "P i"
    and "\<And>j k. P j \<Longrightarrow> k < length (in_pending j) \<Longrightarrow> P (give_up now k j)"
    and "\<And>j k. P j \<Longrightarrow> k < length (in_pending j) \<Longrightarrow> \<not> pe_transmissions (in_pending j ! k) \<ge> MAX_TRANSMISSIONS
           \<Longrightarrow> P (retransmit now k j)"
  shows "P (expire_from now index i)"
  using assms
proof (induction now index i rule: expire_from.induct)
  case (1 now index i)
  then show ?case by (subst expire_from.simps) simp
qed

lemma expire_from_fields:
  "in_destroyed (expire_from now index i) = in_destroyed i \<and> in_shutting_down (expire_from now index i) = in_shutting_down i"
  by (rule expire_from_keeps)
    (simp_all add: give_up_def failure_defs complete_def set_state_def remove_queued_transaction_def retransmit_def split: operation.split)

lemma poll_expiry_fields [simp]:
  "in_destroyed (poll_expiry now i) = in_destroyed i" "in_shutting_down (poll_expiry now i) = in_shutting_down i"
  using expire_from_fields [of now 0 i]
  by (simp_all add: poll_expiry_def Let_def expire_transactions_def destroy_allocation_def complete_def set_state_def)

text \<open>What the branches of \<open>poll\<close> keep while the allocation is ready.\<close>

definition kept :: "inner \<Rightarrow> inner \<Rightarrow> bool" where
  "kept i j \<longleftrightarrow> in_state j = in_state i \<and> in_destroyed j = in_destroyed i \<and> in_shutting_down j = in_shutting_down i
     \<and> in_allocation_expires_at j = in_allocation_expires_at i \<and> in_relay j = in_relay i \<and> in_channel j = in_channel i"

lemma kept_refl [simp]: "kept i i"
  by (simp add: kept_def)

lemma kept_trans: "kept i j \<Longrightarrow> kept j k \<Longrightarrow> kept i k"
  by (simp add: kept_def)

lemma kept_start_operation: "kept i (fst (start_operation env operation authenticated retries i))"
  by (auto simp: start_operation_def kept_def push_control_def Let_def split: sum.splits option.splits)

lemma and_then_ok:
  assumes "P (fst r)" "\<And>i. P i \<Longrightarrow> P (fst (f i))"
  shows "P (fst (and_then r f))"
  using assms by (cases "(r, f)" rule: and_then.cases) (auto split: prod.splits sum.splits, fastforce+)

lemma kept_start_when: "kept i (clear i) \<Longrightarrow> kept i (fst (start_when env operation wanted clear i))"
  using kept_trans [OF _ kept_start_operation, of i "clear i" env operation True 0]
  by (auto simp: start_when_def split: prod.splits sum.splits)

lemma kept_poll_maintenance: "kept i (fst (poll_maintenance env i))"
proof -
  have step: "kept i (fst (start_when env operation wanted clear j))" if "kept i j" "kept j (clear j)" for operation wanted clear j
    using kept_trans [OF that(1) kept_start_when] that(2) by blast
  show ?thesis
    unfolding poll_maintenance_def Let_def
    by (intro and_then_ok [where P = "kept i"] step) (auto simp: kept_def)
qed

lemma kept_poll_keepalive: "kept i (poll_keepalive now started i)"
  by (simp add: poll_keepalive_def Let_def queue_keepalive_def kept_def split: option.split)

lemma kept_poll: "\<not> in_destroyed i \<Longrightarrow> kept (poll_expiry (te_now env) i) (fst (poll env i))"
  using kept_poll_maintenance [of "poll_expiry (te_now env) i" env] kept_trans [OF _ kept_poll_keepalive]
  by (auto simp: poll_def Let_def split: prod.splits sum.splits)

lemma position_Some: "position P xs = Some k \<Longrightarrow> k < length xs \<and> P (xs ! k)"
  by (induction xs arbitrary: k) (auto split: if_splits)

text \<open>The state with the answered request taken out.\<close>

definition answered :: "inner \<Rightarrow> nat \<Rightarrow> inner" where
  "answered i k = remove_queued_transaction (pe_transaction (in_pending i ! k)) (i\<lparr>in_pending := remove_at k (in_pending i)\<rparr>)"

lemma answered_fields [simp]:
  "in_state (answered i k) = in_state i" "in_destroyed (answered i k) = in_destroyed i"
  "in_channel (answered i k) = in_channel i" "in_key (answered i k) = in_key i" "in_relay (answered i k) = in_relay i"
  "in_allocation_expires_at (answered i k) = in_allocation_expires_at i" "in_profile (answered i k) = in_profile i"
  "auth_set (answered i k) = auth_set i" "in_pending (answered i k) = remove_at k (in_pending i)"
  "in_allocation_refresh (answered i k) = in_allocation_refresh i" "in_shutting_down (answered i k) = in_shutting_down i"
  by (simp_all add: answered_def remove_queued_transaction_def auth_set_def)

text \<open>The error handler: \<open>Q\<close> holds of the state it starts from and \<open>P\<close> of the state it
  leaves behind.\<close>

lemma handle_error_cases:
  assumes "Q i"
    and start: "\<And>r realm nonce. case start_operation env (pe_operation p) True r (set_auth (te_crypto env) realm nonce i) of
                   (j, Inr _) \<Rightarrow> P j | (j, Inl _) \<Rightarrow> Q j"
    and fail: "\<And>j e status code. Q j \<Longrightarrow> P (complete_failure (pe_operation p) status code (te_now env) (push_event e j))"
    and destroy: "\<And>e status code. P (destroy_allocation (pe_operation p) status code (push_event e i))"
  shows "P (handle_error_response env m p i)"
proof -
  note failed = fail [OF assms(1)]
  have started: "P (case start_operation env (pe_operation p) True r (set_auth (te_crypto env) realm nonce i) of
      (i', Inr _) \<Rightarrow> i' | (i', Inl _) \<Rightarrow> complete_failure (pe_operation p) status code (te_now env) (push_event e i'))"
    for r realm nonce status code e
    using start [of r realm nonce] fail by (auto split: prod.splits sum.splits)
  have retry: "P (case (realm, nonce) of
      (Some r, Some n) \<Rightarrow>
        (case start_operation env (pe_operation p) True (pe_nonce_retries p + 1) (set_auth (te_crypto env) r n i) of
           (i', Inr _) \<Rightarrow> i'
         | (i', Inl _) \<Rightarrow> complete_failure (pe_operation p) status code (te_now env) (push_event e i'))
    | _ \<Rightarrow> complete_failure (pe_operation p) status code (te_now env) (push_event e i))" for realm nonce status code e
    by (cases realm; cases nonce) (simp_all only: option.case prod.case failed started)
  show ?thesis
    unfolding handle_error_response_def Let_def by (simp only: failed destroy retry split: if_split) simp
qed

lemma case_both: "(case r of (j, Inr _) \<Rightarrow> P j | (j, Inl _) \<Rightarrow> P j) = P (fst r)"
  by (cases r; cases "snd r") auto

lemma handle_error_keeps:
  assumes "P i"
    and "\<And>r realm nonce. P (fst (start_operation env (pe_operation p) True r (set_auth (te_crypto env) realm nonce i)))"
    and "\<And>j e status code. P j \<Longrightarrow> P (complete_failure (pe_operation p) status code (te_now env) (push_event e j))"
    and "\<And>e status code. P (destroy_allocation (pe_operation p) status code (push_event e i))"
  shows "P (handle_error_response env m p i)"
proof (rule handle_error_cases [where Q = P])
  show "case start_operation env (pe_operation p) True r (set_auth (te_crypto env) realm nonce i) of
      (j, Inr _) \<Rightarrow> P j | (j, Inl _) \<Rightarrow> P j" for r realm nonce
    using assms(2) unfolding case_both .
qed (use assms in blast)+

text \<open>A datagram changes nothing, or leaves an event, or answers the pending request with its
  transaction; a success that answers an authenticated request has valid integrity.\<close>

lemma input_stun_matched:
  assumes dec: "stun_decode packet = Inr m" and cls: "stun_class_of m \<in> {Success, ErrorClass}"
    and fp: "fingerprint_valid (te_crypto env) m \<noteq> Some False"
    and pos: "position (\<lambda>p. pe_transaction p = sm_transaction m \<and> op_method (pe_operation p) = ucast (stun_method m))
                (in_pending i) = Some k"
  shows "fst (input_stun env packet i) = i \<or> (\<exists>e. fst (input_stun env packet i) = push_event e i) \<or>
     ((stun_class_of m = Success \<and> pe_authenticated (in_pending i ! k) \<longrightarrow> verify_integrity (te_crypto env) packet m (in_key i))
        \<and> input_stun env packet i = handle_response env m (in_pending i ! k) (answered i k))"
proof -
  let ?p = "in_pending i ! k"
  let ?forged = "pe_authenticated ?p \<and> response_requires_integrity m \<and> \<not> verify_integrity (te_crypto env) packet m (in_key i)
    \<and> \<not> is_fingerprinted_allocation_mismatch (te_crypto env) m"
  have tx: "sm_transaction m = pe_transaction ?p" using position_Some [OF pos] by simp
  have step: "input_stun env packet i =
      (if ?forged
       then (case (stun_class_of m, error_code m) of
               (ErrorClass, Some code) \<Rightarrow> push_event (response_error_event m RESULT_AUTHENTICATION code (in_state i)) i
             | _ \<Rightarrow> i, RESULT_AUTHENTICATION)
       else handle_response env m ?p (answered i k))"
    unfolding input_stun_def dec sum.case answered_def tx [symmetric] pos option.case Let_def using cls fp by (simp only: if_False not_not not_True_eq_False)
  show ?thesis
  proof (cases ?forged)
    case True
    then show ?thesis unfolding step by (cases "stun_class_of m"; cases "error_code m") auto
  next
    case False
    then have "stun_class_of m = Success \<and> pe_authenticated ?p \<longrightarrow> verify_integrity (te_crypto env) packet m (in_key i)"
      by (auto simp: response_requires_integrity_def is_fingerprinted_allocation_mismatch_def)
    moreover have "input_stun env packet i = handle_response env m ?p (answered i k)"
      unfolding step using False by (simp only: if_False)
    ultimately show ?thesis by blast
  qed
qed

lemma input_stun_cases:
  "fst (input_stun env packet i) = i \<or> (\<exists>e. fst (input_stun env packet i) = push_event e i) \<or>
     (\<exists>m k. stun_decode packet = Inr m \<and> stun_class_of m \<in> {Success, ErrorClass} \<and> k < length (in_pending i)
        \<and> pe_transaction (in_pending i ! k) = sm_transaction m
        \<and> (stun_class_of m = Success \<and> pe_authenticated (in_pending i ! k) \<longrightarrow> verify_integrity (te_crypto env) packet m (in_key i))
        \<and> input_stun env packet i = handle_response env m (in_pending i ! k) (answered i k))"
proof (cases "stun_decode packet")
  case (Inl e)
  then show ?thesis by (simp add: input_stun_def)
next
  case dec: (Inr m)
  let ?pos = "position (\<lambda>p. pe_transaction p = sm_transaction m \<and> op_method (pe_operation p) = ucast (stun_method m)) (in_pending i)"
  consider "stun_class_of m \<notin> {Success, ErrorClass}" | "fingerprint_valid (te_crypto env) m = Some False" | "?pos = None"
    | k where "stun_class_of m \<in> {Success, ErrorClass}" "fingerprint_valid (te_crypto env) m \<noteq> Some False" "?pos = Some k"
    by fastforce
  then show ?thesis
  proof cases
    case (4 k)
    then show ?thesis using input_stun_matched [OF dec 4] position_Some [OF 4(3)] dec by blast
  qed (simp_all add: input_stun_def dec)
qed

section \<open>A concrete core\<close>

definition example_stun_crypto :: stun_crypto where
  "example_stun_crypto = \<lparr>crc32 = \<lambda>_. 0, hmac_sha1_keyed = \<lambda>_ _. replicate 20 0, md5 = \<lambda>_. replicate 16 0\<rparr>"

definition example_env :: "nat \<Rightarrow> turn_env" where
  "example_env now = \<lparr>te_crypto = example_stun_crypto,
     te_now = now, te_clock = \<lambda>_. now, te_random = \<lambda>_. replicate 12 0\<rparr>"

lemma example_env_simps [simp]:
  "te_crypto (example_env n) = example_stun_crypto" "te_now (example_env n) = n" "te_random (example_env n) operation = replicate 12 0"
  "length (hmac_sha1_keyed example_stun_crypto key msg) = 20" "md5 example_stun_crypto bs = replicate 16 0"
  by (simp_all add: example_env_def example_stun_crypto_def)

definition example_core :: inner where
  "example_core = projr (create_core (SockV4 1 3478) [1] [2] (SockV4 2 56000) PJNATH_COMPAT Datagram)"

lemma example_core_created: "create_core (SockV4 1 3478) [1] [2] (SockV4 2 56000) PJNATH_COMPAT Datagram = Inr example_core"
  by (simp add: example_core_def create_core_def)

lemma example_core_fields [simp]:
  "in_destroyed example_core = False" "in_shutting_down example_core = False" "in_transport example_core = Datagram"
  "in_pending example_core = []" "in_state example_core = STATE_NULL"
  by (simp_all add: example_core_def create_core_def)

end
