(* ===== verification/Turn_Requests.thy ===== *)
theory Turn_Requests
  imports Turn_Steps
begin

text \<open>
  The requests of the TURN core on the wire: every request the builder produces is a STUN
  message its own decoder accepts, with the fields the server needs, and a server that
  answers the Allocate request with a challenge and then with a success brings the core
  into the ready state.
\<close>

unbundle bit_operations_syntax

section \<open>The attributes of a request\<close>

definition request_attributes :: "inner \<Rightarrow> operation \<Rightarrow> bytes \<Rightarrow> (u16 \<times> bytes) list" where
  "request_attributes i operation tx =
     (case operation of
        Allocate \<Rightarrow> [(ATTR_REQUESTED_TRANSPORT, [17, 0, 0, 0]),
          (ATTR_REQUESTED_ADDRESS_FAMILY, [if is_ipv4 (in_peer i) then 1 else 2, 0, 0, 0]),
          (ATTR_LIFETIME, to_be REQUESTED_ALLOCATION_LIFETIME_SECS)]
      | Refresh \<Rightarrow> [(ATTR_LIFETIME, to_be REQUESTED_ALLOCATION_LIFETIME_SECS)]
      | Deallocate \<Rightarrow> [(ATTR_LIFETIME, to_be (0 :: u32))]
      | Permission \<Rightarrow> [(ATTR_XOR_PEER_ADDRESS, encode_xor_address (in_peer i) tx)]
      | Channel \<Rightarrow> [(ATTR_CHANNEL_NUMBER, [0x40, 0, 0, 0]), (ATTR_XOR_PEER_ADDRESS, encode_xor_address (in_peer i) tx)])"

definition auth_attributes :: "inner \<Rightarrow> (u16 \<times> bytes) list" where
  "auth_attributes i = [(ATTR_USERNAME, in_username i), (ATTR_REALM, unwrap_or_default (in_realm i)),
     (ATTR_NONCE, unwrap_or_default (in_nonce i))]"

lemmas attr_consts = ATTR_USERNAME_def ATTR_ERROR_CODE_def ATTR_CHANNEL_NUMBER_def ATTR_LIFETIME_def
  ATTR_XOR_PEER_ADDRESS_def ATTR_REALM_def ATTR_NONCE_def ATTR_XOR_RELAYED_ADDRESS_def
  ATTR_REQUESTED_ADDRESS_FAMILY_def ATTR_REQUESTED_TRANSPORT_def ATTR_FINGERPRINT_def ATTR_MESSAGE_INTEGRITY_def

lemma operation_attributes_bytes:
  assumes "length tx = 12"
  shows "mb_bytes (operation_attributes i operation (with_transaction kind tx)) =
           message_bytes kind 0 tx (request_attributes i operation tx)"
proof -
  note add = add_attribute_message [OF assms]
  have start: "mb_bytes (with_transaction kind tx) = message_bytes kind 0 tx []" by (rule with_transaction_bytes)
  show ?thesis
  proof (cases operation)
    case Allocate
    then show ?thesis
      using add [OF add [OF add [OF start]]] by (simp add: operation_attributes_def request_attributes_def)
  next
    case Channel
    then show ?thesis
      using add [OF add [OF start]] by (simp add: operation_attributes_def request_attributes_def add_xor_address_def)
  qed (use add [OF start] in \<open>simp_all add: operation_attributes_def request_attributes_def add_xor_address_def\<close>)
qed

lemma auth_attributes_bytes:
  assumes "length tx = 12" "mb_bytes b = message_bytes kind n tx as"
  shows "mb_bytes (add_attribute ATTR_NONCE x (add_attribute ATTR_REALM y (add_attribute ATTR_USERNAME z b))) =
           message_bytes kind n tx (as @ [(ATTR_USERNAME, z), (ATTR_REALM, y), (ATTR_NONCE, x)])"
  using add_attribute_message [OF assms(1) add_attribute_message [OF assms(1) add_attribute_message [OF assms]]] by simp

lemma length_encode_xor: "addr_ok a \<Longrightarrow> length tx = 12 \<Longrightarrow> length (encode_xor_address a tx) \<le> 20"
  by (cases a) (simp_all add: address_mask_def)

lemma request_attributes_ok:
  assumes "addr_ok (in_peer i)" "length tx = 12"
  shows "short (request_attributes i operation tx)" "free_of ATTR_FINGERPRINT (request_attributes i operation tx)"
    "free_of ATTR_MESSAGE_INTEGRITY (request_attributes i operation tx)"
    "length (enc_attrs (request_attributes i operation tx)) \<le> 40"
proof -
  have x: "length (encode_xor_address (in_peer i) tx) \<le> 20" by (rule length_encode_xor [OF assms])
  then show "short (request_attributes i operation tx)"
    by (cases operation) (simp_all add: request_attributes_def)
  show "free_of ATTR_FINGERPRINT (request_attributes i operation tx)"
    "free_of ATTR_MESSAGE_INTEGRITY (request_attributes i operation tx)"
    by (cases operation; simp add: request_attributes_def attr_consts)+
  show "length (enc_attrs (request_attributes i operation tx)) \<le> 40"
    using x by (cases operation) (simp_all add: request_attributes_def length_enc_attr align4_def)
qed

lemma request_kind:
  "(ucast (op_method operation) :: u16) AND 0xc000 = 0" "(ucast (op_method operation) :: u16) \<noteq> 0"
  by (cases operation; simp)+

lemma request_class:
  "stun_class_of \<lparr>sm_raw = r, sm_kind = ucast (op_method operation), sm_transaction = t, sm_end = e\<rparr> = Request"
  "ucast (stun_method \<lparr>sm_raw = r, sm_kind = ucast (op_method operation), sm_transaction = t, sm_end = e\<rparr>) = op_method operation"
  by (cases operation; simp add: stun_class_of_def stun_method_def Let_def)+

section \<open>Requests are built and valid\<close>

lemma find_value:
  assumes "free_of t as" "t \<noteq> 0x8020"
  shows "map_option sa_value (find (\<lambda>a. sa_kind a = t) (placed pos (as @ (t, v) # bs))) = Some v"
  using find_free [OF assms(1), of pos] assms(2) by (simp add: find_placed_append)

lemma build_plain:
  assumes "addr_ok (in_peer i)" "length tx = 12"
  shows "\<exists>packet. build_request c i operation tx False = Inr packet"
  using request_attributes_ok(4) [OF assms, of operation]
  by (simp add: build_request_def Let_def finish_message [OF assms(2) operation_attributes_bytes [OF assms(2)]])

lemma build_authenticated_eq:
  assumes "length tx = 12" "in_key i = Some key"
  obtains b where "build_request c i operation tx True = map_sum BuildError id (finish_authenticated c key b)"
    "mb_bytes b = message_bytes (ucast (op_method operation)) 0 tx (request_attributes i operation tx @ auth_attributes i)"
  using that auth_attributes_bytes [OF assms(1) operation_attributes_bytes [OF assms(1)]] assms(2)
  by (simp add: build_request_def Let_def auth_attributes_def)

lemma auth_attributes_ok:
  assumes "length (in_username i) < 65536" "length (unwrap_or_default (in_realm i)) < 65536"
    "length (unwrap_or_default (in_nonce i)) < 65536"
  shows "short (auth_attributes i)" "free_of ATTR_FINGERPRINT (auth_attributes i)" "free_of ATTR_MESSAGE_INTEGRITY (auth_attributes i)"
  using assms by (simp_all add: auth_attributes_def attr_consts)

lemma align4_le: "align4 n \<le> n + 3"
  by (simp add: align4_def)

lemma build_authenticated:
  assumes "addr_ok (in_peer i)" "length tx = 12" "in_key i = Some key" "length (in_username i) \<le> 512"
    and "length (unwrap_or_default (in_realm i)) \<le> 1000" "length (unwrap_or_default (in_nonce i)) \<le> 1000"
    and mac: "\<And>key msg. length (hmac_sha1_keyed c key msg) = 20"
  shows "\<exists>packet. build_request c i operation tx True = Inr packet"
proof -
  let ?as = "request_attributes i operation tx @ auth_attributes i"
  obtain b where b: "build_request c i operation tx True = map_sum BuildError id (finish_authenticated c key b)"
    "mb_bytes b = message_bytes (ucast (op_method operation)) 0 tx ?as"
    using build_authenticated_eq [OF assms(2,3)] .
  have small: "length (enc_attrs ?as) \<le> 3000"
    using request_attributes_ok(4) [OF assms(1,2), of operation] assms(4-6) align4_le [of "length (in_username i)"]
      align4_le [of "length (unwrap_or_default (in_realm i))"] align4_le [of "length (unwrap_or_default (in_nonce i))"]
    by (simp add: auth_attributes_def length_enc_attr)
  have fin: "finish c (add_attribute ATTR_MESSAGE_INTEGRITY m (b\<lparr>mb_bytes := message_bytes k n tx ?as\<rparr>)) \<noteq> Inl e"
    if "length m = 20" for m k n e
    using small that
    by (simp add: finish_message [OF assms(2) add_attribute_message [OF assms(2)]] Let_def length_enc_attr align4_def)
  have "finish_authenticated c key b \<noteq> Inl e" for e
    using small fin mac unfolding finish_authenticated_def b(2) set_message_length_message [OF assms(2)]
    by (simp add: Let_def)
  then show ?thesis unfolding b(1) by (cases "finish_authenticated c key b") auto
qed

lemma request_message:
  assumes "build_request c i operation tx authenticated = Inr packet" "length tx = 12" "addr_ok (in_peer i)"
    and sizes: "length (in_username i) < 65536" "length (unwrap_or_default (in_realm i)) < 65536"
      "length (unwrap_or_default (in_nonce i)) < 65536"
    and mac: "\<And>key msg. length (hmac_sha1_keyed c key msg) = 20"
  obtains m rest where "stun_decode packet = Inr m" "fingerprint_valid c m = Some True"
    "authenticated \<Longrightarrow> verify_integrity c packet m (in_key i)"
    "m = \<lparr>sm_raw = packet, sm_kind = ucast (op_method operation), sm_transaction = tx, sm_end = length packet\<rparr>"
    "\<And>t. attribute m t = find (\<lambda>a. sa_kind a = t)
       (placed 20 (request_attributes i operation tx @ (if authenticated then auth_attributes i else []) @ rest))"
proof (cases authenticated)
  case True
  let ?as = "request_attributes i operation tx @ auth_attributes i"
  have "in_key i \<noteq> None" using assms(1) True by (auto simp: build_request_def Let_def split: option.splits)
  then obtain key where key: "in_key i = Some key" by blast
  obtain b where b: "build_request c i operation tx True = map_sum BuildError id (finish_authenticated c key b)"
    "mb_bytes b = message_bytes (ucast (op_method operation)) 0 tx ?as"
    using build_authenticated_eq [OF assms(2) key] .
  have "finish_authenticated c key b = Inr packet"
    using assms(1) True b(1) by (cases "finish_authenticated c key b") auto
  moreover have "short ?as" "free_of ATTR_FINGERPRINT ?as" "free_of ATTR_MESSAGE_INTEGRITY ?as"
    using request_attributes_ok [OF assms(3,2)] auth_attributes_ok [OF sizes] by simp_all
  ultimately obtain h v m where fin: "packet = message_bytes (ucast (op_method operation)) (length (enc_attrs ?as) + 32) tx
      (?as @ [(ATTR_MESSAGE_INTEGRITY, h), (ATTR_FINGERPRINT, v)])" "length h = 20" "length v = 4"
    "stun_decode packet = Inr m" "fingerprint_valid c m = Some True" "verify_integrity c packet m (Some key)"
    "m = \<lparr>sm_raw = packet, sm_kind = ucast (op_method operation), sm_transaction = tx, sm_end = 20 + (length (enc_attrs ?as) + 32)\<rparr>"
    using finish_authenticated_valid [OF assms(2) b(2) _ _ _ request_kind mac] by blast
  have n: "length (enc_attrs ?as) + 32 = length (enc_attrs (?as @ [(ATTR_MESSAGE_INTEGRITY, h), (ATTR_FINGERPRINT, v)]))"
    using fin(2,3) by (simp add: length_enc_attr align4_def)
  have "attribute m t = find (\<lambda>a. sa_kind a = t) (placed 20 (?as @ [(ATTR_MESSAGE_INTEGRITY, h), (ATTR_FINGERPRINT, v)]))" for t
    unfolding fin(7) fin(1) using attribute_message [OF assms(2) _ n] \<open>short ?as\<close> fin(2,3) by simp
  moreover have "20 + (length (enc_attrs ?as) + 32) = length packet"
    unfolding fin(1) length_message_bytes [OF assms(2)] n by simp
  ultimately show ?thesis using that [of m] fin(4-7) key True by simp
next
  case False
  let ?as = "request_attributes i operation tx"
  have "finish c (operation_attributes i operation (with_transaction (ucast (op_method operation)) tx)) = Inr packet"
    using assms(1) False by (cases "finish c (operation_attributes i operation (with_transaction (ucast (op_method operation)) tx))")
      (auto simp: build_request_def Let_def)
  from finish_valid [OF assms(2) operation_attributes_bytes [OF assms(2)] _ _ request_kind this] obtain v m where
    fin: "packet = message_bytes (ucast (op_method operation)) (length (enc_attrs ?as) + 8) tx (?as @ [(ATTR_FINGERPRINT, v)])"
    "length v = 4" "stun_decode packet = Inr m" "fingerprint_valid c m = Some True"
    "m = \<lparr>sm_raw = packet, sm_kind = ucast (op_method operation), sm_transaction = tx, sm_end = 20 + (length (enc_attrs ?as) + 8)\<rparr>"
    using request_attributes_ok [OF assms(3,2)] by blast
  have n: "length (enc_attrs ?as) + 8 = length (enc_attrs (?as @ [(ATTR_FINGERPRINT, v)]))"
    using fin(2) by (simp add: length_enc_attr align4_def)
  have "attribute m t = find (\<lambda>a. sa_kind a = t) (placed 20 (?as @ [(ATTR_FINGERPRINT, v)]))" for t
    unfolding fin(5) fin(1) using attribute_message [OF assms(2) _ n] request_attributes_ok [OF assms(3,2)] fin(2) by simp
  moreover have "20 + (length (enc_attrs ?as) + 8) = length packet"
    unfolding fin(1) length_message_bytes [OF assms(2)] n by simp
  ultimately show ?thesis using that [of m] fin(3-5) False by simp
qed

definition peer_attribute :: "stun_message \<Rightarrow> socket_addr option" where
  "peer_attribute m = (case attribute m ATTR_XOR_PEER_ADDRESS of
     None \<Rightarrow> None
   | Some a \<Rightarrow> (case decode_xor_address (sa_value a) (sm_transaction m) of Inl _ \<Rightarrow> None | Inr p \<Rightarrow> Some p))"

section \<open>Properties\<close>

text \<open>C34: Every request the core puts on the wire is a valid STUN message: the decoder accepts it,
  it is a request of the operation's method with the given transaction and a valid
  fingerprint; an authenticated one verifies under the core's key and carries its user name,
  realm and nonce, and a permission or channel request names the peer.\<close>

theorem requests_are_valid:
  assumes "build_request c i operation tx authenticated = Inr packet" "length tx = 12" "addr_ok (in_peer i)"
    and "length (in_username i) < 65536" "length (unwrap_or_default (in_realm i)) < 65536"
      "length (unwrap_or_default (in_nonce i)) < 65536"
    and "\<And>key msg. length (hmac_sha1_keyed c key msg) = 20"
  shows "\<exists>m. stun_decode packet = Inr m \<and> stun_class_of m = Request \<and> ucast (stun_method m) = op_method operation
     \<and> sm_transaction m = tx \<and> fingerprint_valid c m = Some True
     \<and> (authenticated \<longrightarrow> verify_integrity c packet m (in_key i)
          \<and> map_option sa_value (attribute m ATTR_USERNAME) = Some (in_username i)
          \<and> map_option sa_value (attribute m ATTR_REALM) = Some (unwrap_or_default (in_realm i))
          \<and> map_option sa_value (attribute m ATTR_NONCE) = Some (unwrap_or_default (in_nonce i)))
     \<and> (operation = Permission \<or> operation = Channel \<longrightarrow> peer_attribute m = Some (in_peer i))"
proof -
  obtain m rest where m: "stun_decode packet = Inr m" "fingerprint_valid c m = Some True"
    "authenticated \<Longrightarrow> verify_integrity c packet m (in_key i)"
    "m = \<lparr>sm_raw = packet, sm_kind = ucast (op_method operation), sm_transaction = tx, sm_end = length packet\<rparr>"
    "\<And>t. attribute m t = find (\<lambda>a. sa_kind a = t)
       (placed 20 (request_attributes i operation tx @ (if authenticated then auth_attributes i else []) @ rest))"
    using request_message [OF assms] by blast
  have free: "free_of t (request_attributes i operation tx)" if "t \<in> {ATTR_USERNAME, ATTR_REALM, ATTR_NONCE}" for t
    using that by (cases operation) (auto simp: request_attributes_def attr_consts)
  have auth: "map_option sa_value (attribute m ATTR_USERNAME) = Some (in_username i)"
    "map_option sa_value (attribute m ATTR_REALM) = Some (unwrap_or_default (in_realm i))"
    "map_option sa_value (attribute m ATTR_NONCE) = Some (unwrap_or_default (in_nonce i))" if authenticated
    using that free find_placed_append find_free by (simp_all add: m(5) auth_attributes_def find_placed_append find_free attr_consts)
  have "peer_attribute m = Some (in_peer i)" if "operation = Permission \<or> operation = Channel"
    using that xor_address_round_trip [OF assms(3,2)] unfolding peer_attribute_def m(5)
    by (auto simp: request_attributes_def attr_consts m(4))
  then show ?thesis using m(1-3) auth request_class unfolding m(4) by (auto simp del: map_option_eq_Some)
qed

theorem requests_are_valid_witness:
  "\<exists>packet m. build_request (example_stun_crypto) (set_auth (example_stun_crypto) [7] [8, 9] example_core)
       Channel (replicate 12 5) True = Inr packet \<and> stun_decode packet = Inr m \<and> stun_class_of m = Request
     \<and> map_option sa_value (attribute m ATTR_NONCE) = Some [8, 9] \<and> peer_attribute m = Some (SockV4 2 56000)"
proof -
  let ?c = "example_stun_crypto" and ?i = "set_auth (example_stun_crypto) [7] [8, 9] example_core"
  have mac: "length (hmac_sha1_keyed ?c key msg) = 20" for key msg by simp
  have i: "addr_ok (in_peer ?i)" "in_username ?i = [1]" "in_realm ?i = Some [7]" "in_nonce ?i = Some [8, 9]"
    "in_key ?i = Some (md5 ?c ([1] @ ascii '':'' @ [7] @ ascii '':'' @ [2]))" "in_peer ?i = SockV4 2 56000"
    by (simp_all add: set_auth_def example_core_def create_core_def)
  obtain packet where p: "build_request ?c ?i Channel (replicate 12 5) True = Inr packet"
    using build_authenticated [OF i(1) _ i(5) _ _ _ mac, of "replicate 12 5" Channel] i by (auto simp: unwrap_or_default_def)
  show ?thesis using requests_are_valid [OF p _ i(1) _ _ _ mac] i p by (auto simp: unwrap_or_default_def simp del: map_option_eq_Some)
qed

section \<open>The Allocate exchange\<close>

text \<open>The server's answers: a challenge, and a success signed with the shared key.\<close>

definition challenge_attributes :: "bytes \<Rightarrow> bytes \<Rightarrow> (u16 \<times> bytes) list" where
  "challenge_attributes realm nonce = [(ATTR_ERROR_CODE, [0, 0, 4, 1]), (ATTR_REALM, realm), (ATTR_NONCE, nonce)]"

definition challenge :: "bytes \<Rightarrow> bytes \<Rightarrow> bytes \<Rightarrow> bytes" where
  "challenge tx realm nonce =
     message_bytes 0x0113 (length (enc_attrs (challenge_attributes realm nonce))) tx (challenge_attributes realm nonce)"

definition grant_attributes :: "bytes \<Rightarrow> socket_addr \<Rightarrow> u32 \<Rightarrow> (u16 \<times> bytes) list" where
  "grant_attributes tx relay lifetime = [(ATTR_XOR_RELAYED_ADDRESS, encode_xor_address relay tx), (ATTR_LIFETIME, to_be lifetime)]"

definition grant :: "stun_crypto \<Rightarrow> bytes \<Rightarrow> bytes \<Rightarrow> socket_addr \<Rightarrow> u32 \<Rightarrow> bytes" where
  "grant c key tx relay lifetime =
     (let as = grant_attributes tx relay lifetime;
          n = length (enc_attrs as) + 24
      in message_bytes 0x0103 n tx (as @ [(ATTR_MESSAGE_INTEGRITY, hmac_sha1_keyed c key (message_bytes 0x0103 n tx as))]))"

lemma challenge_decoded:
  assumes "length tx = 12" "length realm \<le> 1000" "length nonce \<le> 1000"
  obtains m where "stun_decode (challenge tx realm nonce) = Inr m" "stun_class_of m = ErrorClass" "stun_method m = 3"
    "sm_transaction m = tx" "fingerprint_valid c m = None" "error_code m = Some 401"
    "map_option sa_value (attribute m ATTR_REALM) = Some realm" "error_nonce m = Some nonce"
proof -
  let ?as = "challenge_attributes realm nonce" and ?n = "length (enc_attrs (challenge_attributes realm nonce))"
  define m where "m = \<lparr>sm_raw = challenge tx realm nonce, sm_kind = 0x0113, sm_transaction = tx, sm_end = 20 + ?n\<rparr>"
  have short: "short ?as" "?n < 65536"
    using assms(2,3) align4_le [of "length realm"] align4_le [of "length nonce"]
    by (simp_all add: challenge_attributes_def length_enc_attr align4_def)
  have dec: "stun_decode (challenge tx realm nonce) = Inr m"
    unfolding challenge_def m_def by (rule stun_decode_message [OF assms(1) short(1) refl short(2)]) simp_all
  have att: "attribute m t = find (\<lambda>a. sa_kind a = t) (placed 20 ?as)" for t
    unfolding challenge_def m_def by (rule attribute_message [OF assms(1) short(1) refl])
  show ?thesis
  proof (rule that [OF dec])
    show "stun_class_of m = ErrorClass" "stun_method m = 3" by (simp_all add: m_def stun_class_of_def stun_method_def Let_def)
    show "fingerprint_valid c m = None" by (simp add: fingerprint_valid_def att challenge_attributes_def attr_consts)
    show "error_code m = Some 401" by (simp add: error_code_def att challenge_attributes_def attr_consts Let_def)
    show "map_option sa_value (attribute m ATTR_REALM) = Some realm" "error_nonce m = Some nonce"
      by (simp_all add: error_nonce_def att challenge_attributes_def attr_consts)
  qed (simp add: m_def)
qed

lemma grant_decoded:
  assumes "length tx = 12" "addr_ok relay" and mac: "\<And>key msg. length (hmac_sha1_keyed c key msg) = 20"
  obtains m a where "stun_decode (grant c key tx relay lifetime) = Inr m" "stun_class_of m = Success" "stun_method m = 3"
    "sm_transaction m = tx" "fingerprint_valid c m = None" "verify_integrity c (grant c key tx relay lifetime) m (Some key)"
    "attribute m ATTR_XOR_RELAYED_ADDRESS = Some a" "decode_xor_address (sa_value a) tx = Inr relay"
    "attribute_u32 m ATTR_LIFETIME = Some lifetime"
proof -
  define as where "as = grant_attributes tx relay lifetime"
  define h where "h = hmac_sha1_keyed c key (message_bytes 0x0103 (length (enc_attrs as) + 24) tx as)"
  let ?as = "as @ [(ATTR_MESSAGE_INTEGRITY, h)]" and ?n = "length (enc_attrs as) + 24"
  have g: "grant c key tx relay lifetime = message_bytes 0x0103 ?n tx ?as"
    by (simp add: grant_def Let_def as_def h_def)
  define m where "m = \<lparr>sm_raw = message_bytes 0x0103 ?n tx ?as, sm_kind = 0x0103, sm_transaction = tx, sm_end = 20 + ?n\<rparr>"
  have h: "length h = 20" by (simp add: h_def mac)
  have n: "?n = length (enc_attrs ?as)" using h by (simp add: length_enc_attr align4_def)
  have x: "length (encode_xor_address relay tx) \<le> 20" by (rule length_encode_xor [OF assms(2,1)])
  then have short: "short as" "short ?as" "?n < 65536" "free_of ATTR_MESSAGE_INTEGRITY as"
    using h align4_le [of "length (encode_xor_address relay tx)"]
    by (simp_all add: as_def grant_attributes_def length_enc_attr align4_def attr_consts)
  have dec: "stun_decode (grant c key tx relay lifetime) = Inr m"
    unfolding g m_def by (rule stun_decode_message [OF assms(1) short(2) n short(3)]) simp_all
  have att: "attribute m t = find (\<lambda>a. sa_kind a = t) (placed 20 ?as)" for t
    unfolding m_def by (rule attribute_message [OF assms(1) short(2) n])
  show ?thesis
  proof (rule that [OF dec])
    show "stun_class_of m = Success" "stun_method m = 3" by (simp_all add: m_def stun_class_of_def stun_method_def Let_def)
    show "fingerprint_valid c m = None" by (simp add: fingerprint_valid_def att as_def grant_attributes_def attr_consts)
    show "verify_integrity c (grant c key tx relay lifetime) m (Some key)"
      unfolding g m_def
      by (rule integrity_of_message [where rest = "[]", OF assms(1) short(1) _ short(4) h_def h n short(3) refl refl]) simp
    show "decode_xor_address (sa_value \<lparr>sa_kind = ATTR_XOR_RELAYED_ADDRESS, sa_value = encode_xor_address relay tx,
        sa_header_start = 20, sa_value_range = (24, 24 + length (encode_xor_address relay tx))\<rparr>) tx = Inr relay"
      using xor_address_round_trip [OF assms(2,1)] by simp
    show "attribute m ATTR_XOR_RELAYED_ADDRESS = Some \<lparr>sa_kind = ATTR_XOR_RELAYED_ADDRESS, sa_value = encode_xor_address relay tx,
        sa_header_start = 20, sa_value_range = (24, 24 + length (encode_xor_address relay tx))\<rparr>"
      "attribute_u32 m ATTR_LIFETIME = Some lifetime"
      by (simp_all add: attribute_u32_def att as_def grant_attributes_def attr_consts)
  qed (simp add: m_def)
qed

text \<open>The request a started operation leaves pending.\<close>

definition started_request ::
  "turn_env \<Rightarrow> operation \<Rightarrow> bool \<Rightarrow> u8 \<Rightarrow> bytes \<Rightarrow> nat \<Rightarrow> pending" where
  "started_request env operation authenticated retries packet timeout =
     \<lparr>pe_operation = operation, pe_transaction = te_random env operation, pe_packet = packet,
      pe_next_attempt = te_clock env operation + timeout, pe_rto = INITIAL_RTO, pe_transmissions = 1,
      pe_nonce_retries = retries, pe_authenticated = authenticated\<rparr>"

lemma start_operation_fresh:
  assumes "\<not> has_operation operation i" "authenticated \<longrightarrow> in_realm i \<noteq> None \<and> in_nonce i \<noteq> None \<and> in_key i \<noteq> None"
    and "build_request (te_crypto env) i operation (te_random env operation) authenticated = Inr packet"
  shows "start_operation env operation authenticated retries i =
     ((queue_packet packet i)\<lparr>in_pending := in_pending i @
        [started_request env operation authenticated retries packet (transaction_timeout (queue_packet packet i))]\<rparr>, Inr ())"
  using assms by (auto simp: start_operation_def push_control_def started_request_def Let_def)

lemma input_single:
  assumes "stun_decode packet = Inr m" "stun_class_of m = Success \<or> stun_class_of m = ErrorClass" "fingerprint_valid (te_crypto env) m = None"
    and "in_pending i = [p]" "pe_transaction p = sm_transaction m" "op_method (pe_operation p) = ucast (stun_method m)"
    and "pe_authenticated p \<longrightarrow> verify_integrity (te_crypto env) packet m (in_key i)"
  shows "input_stun env packet i = handle_response env m p (remove_queued_transaction (sm_transaction m) (i\<lparr>in_pending := []\<rparr>))"
  using assms by (auto simp: input_stun_def Let_def remove_at_def)

lemma after_start:
  assumes "create_core server username password peer profile transport = Inr i0" "addr_ok peer"
    and "length (te_random env Allocate) = 12" "i1 = fst (start_allocation env i0)"
  obtains packet timeout where "in_pending i1 = [started_request env Allocate False 0 packet timeout]" "in_state i1 = STATE_ALLOCATING"
    "\<not> in_destroyed i1" "\<not> in_shutting_down i1" "in_peer i1 = peer" "in_username i1 = username" "in_password i1 = password"
    "in_profile i1 = profile"
proof -
  let ?i = "set_state STATE_ALLOCATING i0"
  have i0: "in_state i0 = STATE_NULL" "in_pending i0 = []" "\<not> in_destroyed i0" "\<not> in_shutting_down i0" "in_peer i0 = peer"
    "in_username i0 = username" "in_password i0 = password" "in_profile i0 = profile"
    using assms(1) by (auto simp: create_core_def split: if_splits)
  obtain packet where p: "build_request (te_crypto env) ?i Allocate (te_random env Allocate) False = Inr packet"
    using build_plain [of ?i "te_random env Allocate"] assms(2,3) i0 by auto
  have "start_allocation env i0 = ((queue_packet packet ?i)\<lparr>in_pending :=
      [started_request env Allocate False 0 packet (transaction_timeout (queue_packet packet ?i))]\<rparr>, Inr ())"
    using start_operation_fresh [OF _ _ p, of 0] i0 by (simp add: start_allocation_def require_open_def has_operation_def)
  then show ?thesis using that i0 assms(4) by (auto simp: set_state_def queue_packet_def Let_def)
qed

lemma after_challenge:
  assumes pend: "in_pending i1 = [started_request env1 Allocate False 0 packet1 timeout1]" "in_state i1 = STATE_ALLOCATING"
    and c: "te_crypto env2 = c" "\<And>key msg. length (hmac_sha1_keyed c key msg) = 20"
    and sizes: "length (te_random env1 Allocate) = 12" "length (te_random env2 Allocate) = 12" "length (in_username i1) \<le> 512"
      "length realm \<le> 1000" "length nonce \<le> 1000"
    and ok: "addr_ok (in_peer i1)" "pf_max_nonce_retries (in_profile i1) > 0"
    and i2: "i2 = fst (input_stun env2 (challenge (te_random env1 Allocate) realm nonce) i1)"
  obtains packet timeout where "in_pending i2 = [started_request env2 Allocate True 1 packet timeout]" "in_state i2 = STATE_ALLOCATING"
    "in_shutting_down i2 = in_shutting_down i1" "in_peer i2 = in_peer i1"
    "in_key i2 = Some (md5 c (in_username i1 @ ascii '':'' @ realm @ ascii '':'' @ in_password i1))"
    "in_profile i2 = in_profile i1"
proof -
  let ?p = "started_request env1 Allocate False 0 packet1 timeout1"
  obtain m where m: "stun_decode (challenge (te_random env1 Allocate) realm nonce) = Inr m" "stun_class_of m = ErrorClass"
    "stun_method m = 3" "sm_transaction m = te_random env1 Allocate" "fingerprint_valid (te_crypto env2) m = None"
    "error_code m = Some 401" "map_option sa_value (attribute m ATTR_REALM) = Some realm" "error_nonce m = Some nonce"
    using challenge_decoded [OF sizes(1,4,5)] .
  let ?j = "remove_queued_transaction (sm_transaction m) (i1\<lparr>in_pending := []\<rparr>)"
  let ?a = "set_auth c realm nonce ?j"
  have realm: "error_realm m 401 ?j = Some realm" using m(7) by (auto simp: error_realm_def)
  have j: "in_pending ?a = []" "in_state ?a = STATE_ALLOCATING" "in_peer ?a = in_peer i1" "in_username ?a = in_username i1"
    "in_key ?a = Some (md5 c (in_username i1 @ ascii '':'' @ realm @ ascii '':'' @ in_password i1))"
    "in_realm ?a = Some realm" "in_nonce ?a = Some nonce" "in_profile ?a = in_profile i1" "in_shutting_down ?a = in_shutting_down i1"
    using pend by (simp_all add: set_auth_def remove_queued_transaction_def)
  obtain packet where p: "build_request c ?a Allocate (te_random env2 Allocate) True = Inr packet"
    using build_authenticated [OF _ sizes(2) j(5) _ _ _ c(2)] ok(1) sizes j by (auto simp: unwrap_or_default_def)
  have "start_operation env2 Allocate True 1 ?a = ((queue_packet packet ?a)\<lparr>in_pending :=
      [started_request env2 Allocate True 1 packet (transaction_timeout (queue_packet packet ?a))]\<rparr>, Inr ())"
    using start_operation_fresh [of Allocate ?a True env2 packet 1] p c(1) j by (simp add: has_operation_def)
  moreover have "input_stun env2 (challenge (te_random env1 Allocate) realm nonce) i1 = handle_response env2 m ?p ?j"
    by (rule input_single) (simp_all add: m pend started_request_def)
  moreover have "handle_response env2 m ?p ?j = (fst (start_operation env2 Allocate True 1 ?a), STATUS_OK)"
    if "start_operation env2 Allocate True 1 ?a = (r, Inr ())" for r
    using that m realm ok(2) c(1)
    by (simp add: handle_response_def handle_error_response_def started_request_def requires_allocation_recreate_def
        remove_queued_transaction_def set_auth_def)
  ultimately show ?thesis using that j i2 by simp
qed

lemma after_grant:
  assumes pend: "in_pending i2 = [started_request env2 Allocate True 1 packet2 timeout2]" "\<not> in_shutting_down i2"
    and c: "te_crypto env3 = c" "\<And>key msg. length (hmac_sha1_keyed c key msg) = 20" and key: "in_key i2 = Some key"
    and sizes: "length (te_random env2 Allocate) = 12"
    and relay: "addr_ok relay" "is_ipv4 relay = is_ipv4 (in_peer i2)" "port_of relay \<noteq> 0" "lifetime \<noteq> 0"
    and i3: "i3 = fst (input_stun env3 (grant c key (te_random env2 Allocate) relay lifetime) i2)"
  shows "in_state i3 = STATE_READY \<and> in_relay i3 = Some relay \<and> in_pending i3 = []
     \<and> in_allocation_expires_at i3 = Some (te_now env3 + secs (unat lifetime))
     \<and> in_allocation_refresh i3 = Some (allocation_refresh_deadline (te_now env3) (Some lifetime) (pf_allocation_refresh (in_profile i2)))"
proof -
  let ?p = "started_request env2 Allocate True 1 packet2 timeout2"
  obtain m a where m: "stun_decode (grant c key (te_random env2 Allocate) relay lifetime) = Inr m" "stun_class_of m = Success"
    "stun_method m = 3" "sm_transaction m = te_random env2 Allocate" "fingerprint_valid c m = None"
    "verify_integrity c (grant c key (te_random env2 Allocate) relay lifetime) m (Some key)"
    "attribute m ATTR_XOR_RELAYED_ADDRESS = Some a" "decode_xor_address (sa_value a) (te_random env2 Allocate) = Inr relay"
    "attribute_u32 m ATTR_LIFETIME = Some lifetime"
    using grant_decoded [OF sizes relay(1) c(2), of key lifetime] by metis
  let ?j = "remove_queued_transaction (sm_transaction m) (i2\<lparr>in_pending := []\<rparr>)"
  have "input_stun env3 (grant c key (te_random env2 Allocate) relay lifetime) i2 = handle_response env3 m ?p ?j"
    by (rule input_single) (simp_all add: m pend started_request_def c key)
  then show ?thesis
    using m relay pend i3
    by (simp add: handle_response_def complete_success_def complete_allocate_def started_request_def Let_def lifetime_or_default_def
        extend_allocation_def complete_def remove_queued_transaction_def)
qed

text \<open>C35: The Allocate exchange succeeds: a fresh core started and answered by the server with a
  401 challenge and then with a success signed under the key of the challenge's realm
  becomes ready with the relayed address and the lifetime of the answer, nothing pending,
  and the refresh due before the allocation expires.\<close>

theorem allocation_exchange:
  assumes "create_core server username password peer profile transport = Inr i0" "addr_ok peer"
    and "te_crypto env2 = c" "te_crypto env3 = c" "\<And>key msg. length (hmac_sha1_keyed c key msg) = 20"
    and "length (te_random env1 Allocate) = 12" "length (te_random env2 Allocate) = 12"
    and "length realm \<le> 1000" "length nonce \<le> 1000" "pf_max_nonce_retries profile > 0"
    and "addr_ok relay" "is_ipv4 relay = is_ipv4 peer" "port_of relay \<noteq> 0" "lifetime \<noteq> 0"
    and "key = md5 c (username @ ascii '':'' @ realm @ ascii '':'' @ password)"
    and "i1 = fst (start_allocation env1 i0)"
    and "i2 = fst (input_stun env2 (challenge (te_random env1 Allocate) realm nonce) i1)"
    and "i3 = fst (input_stun env3 (grant c key (te_random env2 Allocate) relay lifetime) i2)"
  shows "in_state i3 = STATE_READY \<and> in_relay i3 = Some relay \<and> in_pending i3 = []
     \<and> in_allocation_expires_at i3 = Some (te_now env3 + secs (unat lifetime))
     \<and> (\<exists>t. in_allocation_refresh i3 = Some t \<and> t < te_now env3 + secs (unat lifetime))"
proof -
  obtain p1 t1 where i1: "in_pending i1 = [started_request env1 Allocate False 0 p1 t1]" "in_state i1 = STATE_ALLOCATING"
    "\<not> in_destroyed i1" "\<not> in_shutting_down i1" "in_peer i1 = peer" "in_username i1 = username" "in_password i1 = password"
    "in_profile i1 = profile"
    using after_start [OF assms(1,2,6,16)] .
  have user: "length username \<le> 512" using assms(1) by (auto simp: create_core_def split: if_splits)
  obtain p2 t2 where i2: "in_pending i2 = [started_request env2 Allocate True 1 p2 t2]" "\<not> in_shutting_down i2" "in_peer i2 = peer"
    "in_key i2 = Some key" "in_profile i2 = profile"
    by (rule after_challenge [OF i1(1,2) assms(3,5-7) _ assms(8,9) _ _ assms(17)]) (use user assms(2,10,15) i1 in simp_all)
  have "unat lifetime \<ge> 1" using assms(14) by (simp add: Suc_le_eq unat_gt_0)
  then have "allocation_refresh_deadline now (Some lifetime) d < now + secs (unat lifetime)" for now d
    by (simp add: allocation_refresh_deadline_def lifetime_or_default_def max_def min_def)
  then show ?thesis using after_grant [OF i2(1,2) assms(4,5) i2(4) assms(7,11) _ assms(13,14,18)] i2 assms(12) by simp
qed

definition example_started :: inner where
  "example_started = fst (start_allocation (example_env 0) example_core)"

definition example_challenged :: inner where
  "example_challenged = fst (input_stun (example_env 1) (challenge (replicate 12 0) [7] [8]) example_started)"

definition example_ready :: inner where
  "example_ready = fst (input_stun (example_env 2)
     (grant (example_stun_crypto) (replicate 16 0) (replicate 12 0) (SockV4 9 5000) 600) example_challenged)"

lemma example_ready_state: "in_state example_ready = STATE_READY"
proof -
  obtain p1 t1 where i1: "in_pending example_started = [started_request (example_env 0) Allocate False 0 p1 t1]"
    "in_state example_started = STATE_ALLOCATING" "\<not> in_shutting_down example_started" "in_peer example_started = SockV4 2 56000"
    "in_username example_started = [1]" "in_profile example_started = PJNATH_COMPAT"
    by (rule after_start [OF example_core_created _ _ example_started_def]) simp_all
  obtain p2 t2 where i2: "in_pending example_challenged = [started_request (example_env 1) Allocate True 1 p2 t2]"
    "\<not> in_shutting_down example_challenged" "in_peer example_challenged = SockV4 2 56000"
    "in_key example_challenged = Some (replicate 16 0)"
    by (rule after_challenge [OF i1(1,2), of "example_env 1" example_stun_crypto "[7]" "[8]" example_challenged])
      (use i1 in \<open>simp_all add: example_challenged_def PJNATH_COMPAT_def\<close>)
  show ?thesis
    using after_grant [OF i2(1,2) _ _ i2(4), of "example_env 2" example_stun_crypto "SockV4 9 5000" 600 example_ready] i2(3)
    by (simp add: example_ready_def)
qed

theorem allocation_exchange_witness:
  "in_state example_ready = STATE_READY \<and> in_relay example_ready = Some (SockV4 9 5000)"
  using allocation_exchange [OF example_core_created, of "example_env 1" "example_stun_crypto" "example_env 2" "example_env 0"
      "[7]" "[8]" "SockV4 9 5000" 600 "replicate 16 0" example_started example_challenged example_ready]
  by (simp add: example_started_def example_challenged_def example_ready_def PJNATH_COMPAT_def)

end
