(* ===== verification/Turn_Safety.thy ===== *)
theory Turn_Safety
  imports Turn_Requests
begin

text \<open>
  The invariant of the TURN core, kept by every call of its owner in any order.
\<close>

section \<open>Invariant\<close>

fun state_for :: "operation \<Rightarrow> turn_state" where
  "state_for Allocate = STATE_ALLOCATING"
| "state_for Refresh = STATE_READY"
| "state_for Deallocate = STATE_DEALLOCATING"
| "state_for Permission = STATE_READY"
| "state_for Channel = STATE_READY"

definition queues_ok :: "inner \<Rightarrow> bool" where
  [inv_defs]: "queues_ok i \<longleftrightarrow> length (in_events i) \<le> EVENT_CAPACITY \<and> length (in_controls i) \<le> CONTROL_CAPACITY
     \<and> (\<forall>c\<in>set (in_controls i). co_destination c = in_server i)"

definition pending_ok :: "inner \<Rightarrow> bool" where
  [inv_defs]: "pending_ok i \<longleftrightarrow> distinct (map pe_operation (in_pending i))
     \<and> (\<forall>p\<in>set (in_pending i). (pe_authenticated p \<longrightarrow> auth_set i) \<and> 1 \<le> pe_transmissions p
          \<and> pe_transmissions p \<le> MAX_TRANSMISSIONS \<and> in_state i = state_for (pe_operation p))"

definition allocation_ok :: "inner \<Rightarrow> bool" where
  [inv_defs]: "allocation_ok i \<longleftrightarrow>
     (in_state i = STATE_READY \<longrightarrow> in_relay i \<noteq> None \<and> in_allocation_expires_at i \<noteq> None \<and> auth_set i \<and> \<not> in_destroyed i)
     \<and> (\<forall>r. in_relay i = Some r \<longrightarrow> is_ipv4 r = is_ipv4 (in_peer i) \<and> port_of r \<noteq> 0)
     \<and> (in_channel i \<noteq> None \<longrightarrow> in_state i = STATE_READY \<or> in_destroyed i)
     \<and> (in_destroyed i \<longrightarrow> in_pending i = [] \<and> in_controls i = [])"

definition core_inv :: "inner \<Rightarrow> bool" where
  [inv_defs]: "core_inv i \<longleftrightarrow> queues_ok i \<and> pending_ok i \<and> allocation_ok i"




















lemma inv_timers [simp]:
  "core_inv (i\<lparr>in_allocation_refresh := t\<rparr>) = core_inv i" "core_inv (i\<lparr>in_maintenance_refresh := t\<rparr>) = core_inv i"
  "core_inv (i\<lparr>in_permission_retry := t\<rparr>) = core_inv i" "core_inv (i\<lparr>in_channel_retry := t\<rparr>) = core_inv i"
  "core_inv (i\<lparr>in_keepalive := t\<rparr>) = core_inv i"
  by (simp_all add: inv_defs auth_set_def)











subsection \<open>Responses\<close>












section \<open>Property\<close>



end
