(* ===== verification/Turn_Refresh.thy ===== *)
theory Turn_Refresh
  imports Turn_Requests
begin

text \<open>
  A ready allocation is always on its way to be refreshed: the refresh timer is armed or a
  Refresh request is pending, through failures, challenges and retries.
\<close>

definition armed_for :: "operation option \<Rightarrow> inner \<Rightarrow> bool" where
  "armed_for done i \<longleftrightarrow>
     (in_state i = STATE_READY \<longrightarrow> done = Some Refresh \<or> in_allocation_refresh i \<noteq> None \<or> has_operation Refresh i)"

abbreviation refresh_armed :: "inner \<Rightarrow> bool" where
  "refresh_armed \<equiv> armed_for None"

lemma armed_weaken: "refresh_armed i \<Longrightarrow> armed_for d i"
  by (auto simp: armed_for_def)

lemma armed_events [simp]: "armed_for d (i\<lparr>in_events := evs\<rparr>) = armed_for d i"
  by (simp add: armed_for_def has_operation_def)

lemma armed_complete [simp]: "armed_for d (complete operation status code i) = armed_for d i"
  by (simp add: complete_def)

lemma armed_destroy: "refresh_armed (destroy_allocation operation status code i)"
  by (simp add: armed_for_def destroy_allocation_def Let_def)

lemma armed_failure:
  assumes "armed_for (Some operation) i"
  shows "refresh_armed (complete_failure operation status code now i)"
proof (cases operation)
  case Channel
  then show ?thesis using assms
    by (simp add: complete_failure_def schedule_maintenance_retry_def destroy_after_channel_rebind_exhausted_def armed_destroy Let_def)
      (simp add: armed_for_def complete_def has_operation_def)
qed (use assms in \<open>simp_all add: complete_failure_def schedule_maintenance_retry_def armed_destroy Let_def\<close>,
    simp_all add: armed_for_def complete_def has_operation_def)

lemma armed_answered:
  assumes "refresh_armed i" "k < length (in_pending i)"
  shows "armed_for (Some (pe_operation (in_pending i ! k))) (answered i k)"
proof -
  have "q = in_pending i ! k \<or> q \<in> set (remove_at k (in_pending i))" if "q \<in> set (in_pending i)" for q
    using that id_take_nth_drop [OF assms(2)] unfolding remove_at_def
    by (metis Un_iff set_append set_ConsD)
  then show ?thesis using assms(1) by (fastforce simp: armed_for_def has_operation_def)
qed

lemma armed_queue [simp]: "armed_for d (queue_packet packet i) = armed_for d i"
  by (simp add: armed_for_def has_operation_def)

lemma armed_start_operation:
  assumes "armed_for (Some operation) i"
  shows "case start_operation env operation authenticated retries i of
           (j, Inr _) \<Rightarrow> refresh_armed j | (j, Inl _) \<Rightarrow> armed_for (Some operation) j"
  using assms
  by (auto simp: start_operation_def push_control_def Let_def armed_for_def has_operation_def split: sum.splits option.splits)

lemma armed_start_kept:
  assumes "refresh_armed i"
  shows "refresh_armed (fst (start_operation env operation authenticated retries i))"
  using assms
  by (auto simp: start_operation_def push_control_def Let_def armed_for_def has_operation_def split: sum.splits option.splits)

lemma armed_set_state: "st \<noteq> STATE_READY \<Longrightarrow> refresh_armed (set_state st i)"
  by (simp add: armed_for_def)

lemma armed_handle_error:
  assumes "armed_for (Some (pe_operation p)) i"
  shows "refresh_armed (handle_error_response env m p i)"
proof (rule handle_error_cases [where Q = "armed_for (Some (pe_operation p))", OF assms])
  have "armed_for (Some (pe_operation p)) (set_auth c realm nonce i)" for c realm nonce
    using assms by (simp add: set_auth_def armed_for_def has_operation_def)
  then show "case start_operation env (pe_operation p) True r (set_auth (te_crypto env) realm nonce i) of
      (j, Inr _) \<Rightarrow> refresh_armed j | (j, Inl _) \<Rightarrow> armed_for (Some (pe_operation p)) j" for r realm nonce
    by (rule armed_start_operation)
qed (simp_all add: armed_failure armed_destroy)

lemma armed_complete_success:
  assumes "armed_for (Some operation) i" "complete_success env operation m i = (j, r)"
  shows "case r of Inr _ \<Rightarrow> refresh_armed j | Inl _ \<Rightarrow> armed_for (Some operation) j"
proof (cases operation)
  case Allocate
  have dealloc: "armed_for d (fst (start_operation env Deallocate True 0 (set_state STATE_DEALLOCATING k)))" for d k
    using armed_weaken [OF armed_start_kept [OF armed_set_state [of STATE_DEALLOCATING k]]] by simp
  have ready: "refresh_armed (complete Allocate STATUS_OK 0 (set_state STATE_READY (push_event e
      ((extend_allocation now l k)\<lparr>in_maintenance_refresh := a, in_keepalive := b\<rparr>))))" for e now l k a b
    by (simp add: extend_allocation_def armed_for_def complete_def)
  show ?thesis
    using assms Allocate dealloc ready
    by (auto simp: complete_success_def complete_allocate_def Let_def simp del: push_event_eq armed_complete
        split: option.splits sum.splits if_splits) (metis fst_conv)+
next
  case Refresh
  then show ?thesis using assms
    by (auto simp: complete_success_def Let_def extend_allocation_def split: if_splits) (simp add: armed_for_def)
next
  case Deallocate
  then show ?thesis using assms by (auto simp: complete_success_def armed_set_state split: if_splits)
next
  case Permission
  then show ?thesis using assms by (auto simp: complete_success_def) (simp add: armed_for_def has_operation_def)
next
  case Channel
  then show ?thesis using assms by (auto simp: complete_success_def) (simp add: armed_for_def has_operation_def)
qed

lemma armed_handle_response:
  assumes "armed_for (Some (pe_operation p)) i"
  shows "refresh_armed (fst (handle_response env m p i))"
proof -
  obtain j r where cs: "complete_success env (pe_operation p) m i = (j, r)" by force
  show ?thesis
    using armed_complete_success [OF assms cs] armed_failure [OF assms] armed_failure [of "pe_operation p" j] armed_handle_error [OF assms]
    by (cases r) (auto simp: handle_response_def cs)
qed

lemma armed_input_stun: "refresh_armed i \<Longrightarrow> refresh_armed (fst (input_stun env packet i))"
  using input_stun_cases [of env packet i] armed_handle_response [OF armed_answered] by auto

lemma has_operation_map: "has_operation operation i \<longleftrightarrow> operation \<in> set (map pe_operation (in_pending i))"
  by (auto simp: has_operation_def)

lemma retransmit_operations:
  "k < length (in_pending i) \<Longrightarrow> map pe_operation (in_pending (retransmit now k i)) = map pe_operation (in_pending i)"
  by (simp add: retransmit_def Let_def map_update list_update_same_conv)

lemma armed_expire: "refresh_armed i \<Longrightarrow> refresh_armed (poll_expiry now i)"
proof -
  assume i: "refresh_armed i"
  have up: "refresh_armed (give_up now k j)" if "refresh_armed j" "k < length (in_pending j)" for j k
    using armed_failure [OF armed_answered [OF that]] by (simp add: give_up_def answered_def Let_def)
  have re: "refresh_armed (retransmit now k j)" if "refresh_armed j" "k < length (in_pending j)" for j k
  proof -
    have "has_operation Refresh (retransmit now k j) = has_operation Refresh j"
      unfolding has_operation_map retransmit_operations [OF that(2)] ..
    then show ?thesis using that(1) by (simp add: armed_for_def retransmit_def Let_def)
  qed
  have "refresh_armed (expire_from now 0 i)" by (rule expire_from_keeps) (simp_all add: i up re)
  then show ?thesis by (simp add: poll_expiry_def Let_def expire_transactions_def armed_destroy)
qed

lemma and_then_Inr:
  "and_then r f = (j, Inr s) \<Longrightarrow> \<exists>i a b. r = (i, Inr a) \<and> f i = (j, Inr b)"
  by (cases "(r, f)" rule: and_then.cases) (auto split: prod.splits sum.splits)

lemma start_when_Inr:
  assumes "start_when env operation wanted clear i = (j, Inr s)" "armed_for (Some operation) (clear i)" "refresh_armed i"
  shows "refresh_armed j"
  using assms armed_start_operation [OF assms(2), of env True 0]
  by (auto simp: start_when_def split: if_splits prod.splits sum.splits)

lemma armed_timers [simp]:
  "armed_for d (i\<lparr>in_maintenance_refresh := t\<rparr>) = armed_for d i" "armed_for d (i\<lparr>in_permission_retry := t\<rparr>) = armed_for d i"
  "armed_for d (i\<lparr>in_channel_retry := t\<rparr>) = armed_for d i" "armed_for d (i\<lparr>in_keepalive := t\<rparr>) = armed_for d i"
  by (simp_all add: armed_for_def has_operation_def)

lemma armed_maintenance:
  assumes i: "refresh_armed i" and r: "poll_maintenance env i = (j, Inr s)"
  shows "refresh_armed j"
proof -
  let ?upd = "\<lambda>k. if due (te_now env) (in_maintenance_refresh i)
      then k\<lparr>in_maintenance_refresh := Some (te_now env + pf_maintenance_refresh (in_profile k))\<rparr> else k"
  obtain i1 a i3 b c where
    s1: "start_when env Refresh (due (te_now env) (in_allocation_refresh i)) (\<lambda>j. j\<lparr>in_allocation_refresh := None\<rparr>) i = (i1, Inr a)"
    and s2: "start_when env Permission (due (te_now env) (in_maintenance_refresh i) \<or> due (te_now env) (in_permission_retry i))
               (\<lambda>j. j\<lparr>in_permission_retry := None\<rparr>) (?upd i1) = (i3, Inr b)"
    and s3: "start_when env Channel (due (te_now env) (in_maintenance_refresh i) \<or> due (te_now env) (in_channel_retry i))
               (\<lambda>j. j\<lparr>in_channel_retry := None\<rparr>) i3 = (j, Inr c)"
    using r unfolding poll_maintenance_def Let_def by (blast dest!: and_then_Inr)
  have "refresh_armed i1" by (rule start_when_Inr [OF s1 _ i]) (simp add: armed_for_def)
  then have i2: "refresh_armed (?upd i1)" by simp
  have "refresh_armed i3" by (rule start_when_Inr [OF s2 _ i2]) (use i2 armed_weaken in simp)
  then show ?thesis using start_when_Inr [OF s3] armed_weaken by simp
qed

lemma armed_poll:
  assumes "refresh_armed i" "snd (poll env i) = Inr t"
  shows "refresh_armed (fst (poll env i))"
proof -
  let ?i = "poll_expiry (te_now env) i"
  have i: "refresh_armed ?i" by (rule armed_expire [OF assms(1)])
  have "refresh_armed (poll_keepalive (te_now env) started k)" if "refresh_armed k" for started k
    using that by (simp add: poll_keepalive_def queue_keepalive_def Let_def split: option.split)
  then show ?thesis
    using assms i armed_maintenance [OF i] by (auto simp: poll_def Let_def split: prod.splits sum.splits if_splits)
qed

lemma armed_shutdown: "refresh_armed i \<Longrightarrow> refresh_armed (fst (graceful_shutdown env i))"
  using armed_start_kept [OF armed_set_state [of STATE_DEALLOCATING]]
  by (simp add: graceful_shutdown_def Let_def) (simp add: armed_for_def)

lemma armed_step:
  assumes "refresh_armed i" "call = CallPoll \<longrightarrow> (\<exists>t. snd (poll env i) = Inr t)"
  shows "refresh_armed (core_step env call i)"
proof (cases call)
  case CallStartAllocation
  then show ?thesis using assms armed_start_kept [OF armed_set_state [of STATE_ALLOCATING i]]
    by (simp add: start_allocation_def split: option.split)
next
  case CallPoll
  then show ?thesis using assms armed_poll by auto
next
  case CallPullControl
  then show ?thesis using assms(1) by (simp add: pull_control_def armed_for_def has_operation_def split: list.split)
next
  case CallPullEvent
  then show ?thesis using assms(1) by (simp add: pull_event_def split: list.split)
next
  case (CallDestroy status)
  then show ?thesis using assms(1) by (simp add: force_destroy_def) (simp add: armed_for_def)
qed (use assms in \<open>simp_all add: armed_start_kept armed_input_stun armed_shutdown start_channel_def start_permission_def split: option.split\<close>)

text \<open>The runs of an owner that drops a core once a poll fails.\<close>

inductive core_run :: "inner \<Rightarrow> bool" where
  fresh: "create_core server username password peer profile transport = Inr i \<Longrightarrow> core_run i"
| call: "core_run i \<Longrightarrow> call = CallPoll \<longrightarrow> (\<exists>t. snd (poll env i) = Inr t) \<Longrightarrow> core_run (core_step env call i)"

lemma example_ready_run: "core_run example_ready"
proof -
  have "core_run example_core" by (rule core_run.fresh [OF example_core_created])
  from core_run.call [OF this, of CallStartAllocation "example_env 0"] have "core_run example_started"
    by (simp add: example_started_def)
  from core_run.call [OF this, of "CallInput (challenge (replicate 12 0) [7] [8])" "example_env 1"]
  have "core_run example_challenged" by (simp add: example_challenged_def)
  from core_run.call [OF this, of "CallInput (grant example_stun_crypto (replicate 16 0) (replicate 12 0) (SockV4 9 5000) 600)" "example_env 2"]
  show ?thesis by (simp add: example_ready_def)
qed

section \<open>Property\<close>

text \<open>C36: A ready allocation never loses its refresh: in every state an owner can reach that
  stops using a core whose poll failed, a ready core has its refresh timer armed or a
  Refresh request pending.\<close>

theorem refresh_is_never_forgotten:
  assumes "core_run i" "in_state i = STATE_READY"
  shows "(\<exists>t. in_allocation_refresh i = Some t) \<or> has_operation Refresh i"
proof -
  from assms(1) have "refresh_armed i"
  proof (induction rule: core_run.induct)
    case (fresh server username password peer profile transport i)
    then show ?case by (auto simp: armed_for_def create_core_def split: if_splits)
  qed (rule armed_step)
  then show ?thesis using assms(2) by (auto simp: armed_for_def)
qed

theorem refresh_is_never_forgotten_witness:
  "(\<exists>t. in_allocation_refresh example_ready = Some t) \<or> has_operation Refresh example_ready"
  by (rule refresh_is_never_forgotten [OF example_ready_run example_ready_state])

end
