(* ===== verification/Route_Table.thy ===== *)
theory Route_Table
  imports Packet_Class Packet_Pool
begin

text \<open>
  The server's route table (\<open>rust-server/tun_device.rs\<close>): 256 groups, one per
  host of the tunnel network, each with the endpoints that carry packets to
  this client and a scheduler that stripes packets over them.
\<close>

section \<open>Endpoints and the local scheduler\<close>

record route_endpoint =
  ep_session_id :: u64
  ep_registration_id :: u64
  ep_worker_id :: u16
  ep_slot :: nat

record route_selection =
  sel_start :: nat
  sel_len :: nat

record stripe_cursor =
  sc_next :: nat
  sc_remaining :: nat
  sc_path_count :: nat

record local_scheduler =
  ls_latency :: stripe_cursor
  ls_priority :: stripe_cursor
  ls_bulk :: stripe_cursor

definition cursor_default :: stripe_cursor where
  "cursor_default = \<lparr>sc_next = 0, sc_remaining = 0, sc_path_count = 0\<rparr>"

definition scheduler_default :: local_scheduler where
  "scheduler_default =
     \<lparr>ls_latency = cursor_default, ls_priority = cursor_default, ls_bulk = cursor_default\<rparr>"

fun class_cursor :: "packet_class \<Rightarrow> local_scheduler \<Rightarrow> stripe_cursor" where
  "class_cursor Latency s = ls_latency s"
| "class_cursor Priority s = ls_priority s"
| "class_cursor Bulk s = ls_bulk s"

fun set_class_cursor :: "packet_class \<Rightarrow> stripe_cursor \<Rightarrow> local_scheduler \<Rightarrow> local_scheduler" where
  "set_class_cursor Latency c s = s\<lparr>ls_latency := c\<rparr>"
| "set_class_cursor Priority c s = s\<lparr>ls_priority := c\<rparr>"
| "set_class_cursor Bulk c s = s\<lparr>ls_bulk := c\<rparr>"

definition cursor_select :: "nat \<Rightarrow> nat \<Rightarrow> stripe_cursor \<Rightarrow> nat \<times> stripe_cursor" where
  "cursor_select count chunk c =
     (let c = (if sc_path_count c \<noteq> count
               then \<lparr>sc_next = 0, sc_remaining = 0, sc_path_count = count\<rparr> else c);
          c = (if sc_remaining c = 0 then c\<lparr>sc_remaining := chunk\<rparr> else c);
          selected = sc_next c;
          c = c\<lparr>sc_remaining := sc_remaining c - 1\<rparr>;
          c = (if sc_remaining c = 0 then
                 (if sc_next c + 1 = count then c\<lparr>sc_next := 0\<rparr> else c\<lparr>sc_next := sc_next c + 1\<rparr>)
               else c)
      in (selected, c))"

definition local_select :: "nat \<Rightarrow> packet_class \<Rightarrow> local_scheduler \<Rightarrow> nat option \<times> local_scheduler" where
  "local_select count cls s =
     (if count = 0 then (None, s)
      else case cursor_select count (stripe_chunk cls) (class_cursor cls s) of
        (selected, c) \<Rightarrow> (Some selected, set_class_cursor cls c s))"

section \<open>Route groups\<close>

record route_group =
  rg_endpoints :: "route_endpoint list"
  rg_scheduler :: local_scheduler

definition group_default :: route_group where
  "group_default = \<lparr>rg_endpoints = [], rg_scheduler = scheduler_default\<rparr>"

definition group_register :: "route_endpoint \<Rightarrow> route_group \<Rightarrow> route_group" where
  "group_register e g =
     g\<lparr>rg_endpoints := sort_key ep_worker_id
        (filter (\<lambda>c. ep_registration_id c \<noteq> ep_registration_id e \<and> ep_worker_id c \<noteq> ep_worker_id e)
           (rg_endpoints g) @ [e])\<rparr>"

definition group_unregister :: "u64 \<Rightarrow> route_group \<Rightarrow> bool \<times> route_group" where
  "group_unregister registration_id g =
     (let kept = filter (\<lambda>e. ep_registration_id e \<noteq> registration_id) (rg_endpoints g)
      in (length kept \<noteq> length (rg_endpoints g), g\<lparr>rg_endpoints := kept\<rparr>))"

definition select_window :: "packet_class \<Rightarrow> route_group \<Rightarrow> route_selection option \<times> route_group" where
  "select_window cls g =
     (let len = length (rg_endpoints g) in
      case local_select len cls (rg_scheduler g) of
        (None, s) \<Rightarrow> (None, g\<lparr>rg_scheduler := s\<rparr>)
      | (Some start, s) \<Rightarrow> (Some \<lparr>sel_start = start, sel_len = len\<rparr>, g\<lparr>rg_scheduler := s\<rparr>))"

definition group_endpoint_at :: "route_selection \<Rightarrow> nat \<Rightarrow> route_group \<Rightarrow> route_endpoint option" where
  "group_endpoint_at sel off g =
     (if sel_len sel \<le> off \<or> sel_len sel = 0 then None
      else let index = sel_start sel + off;
               index = (if sel_len sel \<le> index then index - sel_len sel else index)
           in get_at (rg_endpoints g) index)"

section \<open>The table\<close>

type_synonym route_table = "route_group option list"

definition table_new :: route_table where
  "table_new = replicate 256 None"

text \<open>The first three octets of the tunnel network are the program's configuration
  (\<open>net_setup::network().prefix\<close>); the last octet of an address in it is the
  index of its group.\<close>

definition route_index :: "bytes \<Rightarrow> bytes \<Rightarrow> nat option" where
  "route_index prefix ip = (if take 3 ip = prefix then Some (unat (ip ! 3)) else None)"

definition table_register :: "bytes \<Rightarrow> bytes \<Rightarrow> u64 \<Rightarrow> u64 \<Rightarrow> u16 \<Rightarrow> nat \<Rightarrow> route_table \<Rightarrow> bool \<times> route_table" where
  "table_register prefix ip session_id registration_id worker_id slot t =
     (case route_index prefix ip of
        None \<Rightarrow> (False, t)
      | Some index \<Rightarrow>
          (True, t[index := Some (group_register
             \<lparr>ep_session_id = session_id, ep_registration_id = registration_id,
              ep_worker_id = worker_id, ep_slot = slot\<rparr>
             (case t ! index of None \<Rightarrow> group_default | Some g \<Rightarrow> g))]))"

fun update_first :: "('a \<Rightarrow> bool) \<Rightarrow> ('a \<Rightarrow> 'a) \<Rightarrow> 'a list \<Rightarrow> 'a list" where
  "update_first P f [] = []"
| "update_first P f (x # xs) = (if P x then f x # xs else x # update_first P f xs)"

definition update_slot :: "bytes \<Rightarrow> bytes \<Rightarrow> u64 \<Rightarrow> u64 \<Rightarrow> nat \<Rightarrow> route_table \<Rightarrow> route_table" where
  "update_slot prefix ip session_id registration_id slot t =
     (case route_index prefix ip of
        None \<Rightarrow> t
      | Some index \<Rightarrow>
          (case t ! index of
             None \<Rightarrow> t
           | Some g \<Rightarrow>
               t[index := Some (g\<lparr>rg_endpoints := update_first
                  (\<lambda>e. ep_session_id e = session_id \<and> ep_registration_id e = registration_id)
                  (\<lambda>e. e\<lparr>ep_slot := slot\<rparr>) (rg_endpoints g)\<rparr>)]))"

definition table_unregister :: "bytes \<Rightarrow> bytes \<Rightarrow> u64 \<Rightarrow> route_table \<Rightarrow> bool \<times> route_table" where
  "table_unregister prefix ip registration_id t =
     (case route_index prefix ip of
        None \<Rightarrow> (False, t)
      | Some index \<Rightarrow>
          (case t ! index of
             None \<Rightarrow> (False, t)
           | Some g \<Rightarrow>
               (case group_unregister registration_id g of
                  (removed, g') \<Rightarrow>
                    (removed, t[index := (if rg_endpoints g' = [] then None else Some g')]))))"

definition packet_key :: "bytes \<Rightarrow> bytes \<Rightarrow> nat option" where
  "packet_key prefix packet =
     (case extract_dst_ipv4 packet of None \<Rightarrow> None | Some ip \<Rightarrow> route_index prefix ip)"

definition tunnel_key :: "bytes \<Rightarrow> bytes \<Rightarrow> nat option" where
  "tunnel_key prefix ip = route_index prefix ip"

definition group_at :: "nat \<Rightarrow> route_table \<Rightarrow> route_group option" where
  "group_at key t = (case get_at t key of None \<Rightarrow> None | Some g \<Rightarrow> g)"

definition active_path_count :: "nat \<Rightarrow> route_table \<Rightarrow> nat" where
  "active_path_count key t =
     (case group_at key t of None \<Rightarrow> 0 | Some g \<Rightarrow> length (rg_endpoints g))"

definition select_key_window :: "nat \<Rightarrow> packet_class \<Rightarrow> route_table \<Rightarrow> route_selection option \<times> route_table" where
  "select_key_window key cls t =
     (case group_at key t of
        None \<Rightarrow> (None, t)
      | Some g \<Rightarrow> (case select_window cls g of (sel, g') \<Rightarrow> (sel, t[key := Some g'])))"

definition table_endpoint_at :: "nat \<Rightarrow> route_selection \<Rightarrow> nat \<Rightarrow> route_table \<Rightarrow> route_endpoint option" where
  "table_endpoint_at key sel off t =
     (case group_at key t of None \<Rightarrow> None | Some g \<Rightarrow> group_endpoint_at sel off g)"

section \<open>The group invariant\<close>

text \<open>A group holds one endpoint per worker and per registration, in the order
  of the workers; the table holds no empty group, and its cursors point at an
  endpoint of the width they were last used with.\<close>

definition group_ok :: "route_group \<Rightarrow> bool" where
  "group_ok g \<longleftrightarrow> sorted (map ep_worker_id (rg_endpoints g))
     \<and> distinct (map ep_worker_id (rg_endpoints g))
     \<and> distinct (map ep_registration_id (rg_endpoints g))"

definition cursor_ok :: "stripe_cursor \<Rightarrow> bool" where
  "cursor_ok c \<longleftrightarrow> sc_path_count c = 0 \<or> sc_next c < sc_path_count c"

definition scheduler_ok :: "local_scheduler \<Rightarrow> bool" where
  "scheduler_ok s \<longleftrightarrow> (\<forall>cls. cursor_ok (class_cursor cls s))"

definition table_ok :: "route_table \<Rightarrow> bool" where
  "table_ok t \<longleftrightarrow> length t = 256
     \<and> (\<forall>g. Some g \<in> set t \<longrightarrow> rg_endpoints g \<noteq> [] \<and> group_ok g \<and> scheduler_ok (rg_scheduler g))"

lemma class_cursor_set [simp]:
  "class_cursor c (set_class_cursor d x s) = (if c = d then x else class_cursor c s)"
  by (cases c; cases d) simp_all

lemma cursor_select_ok:
  assumes "cursor_ok c" and "0 < count" and "cursor_select count chunk c = (i, c')"
  shows "i < count" and "cursor_ok c'"
  using assms by (auto simp: cursor_select_def cursor_ok_def Let_def split: if_splits)

lemma local_select_ok:
  assumes "scheduler_ok s" and "local_select count cls s = (r, s')"
  shows "scheduler_ok s'" and "0 < count \<Longrightarrow> \<exists>i < count. r = Some i"
proof -
  obtain i c where c: "cursor_select count (stripe_chunk cls) (class_cursor cls s) = (i, c)"
    by (rule prod.exhaust)
  note ok = cursor_select_ok [OF _ _ c]
  show "scheduler_ok s'"
    using assms c ok(2) by (cases "count = 0") (auto simp: local_select_def scheduler_ok_def)
  show "\<exists>i < count. r = Some i" if "0 < count"
    using assms c ok(1) that by (auto simp: local_select_def scheduler_ok_def)
qed

lemma scheduler_default_ok: "scheduler_ok scheduler_default"
proof -
  have "cursor_ok (class_cursor cls scheduler_default)" for cls
    by (cases cls) (simp_all add: scheduler_default_def cursor_default_def cursor_ok_def)
  then show ?thesis by (simp add: scheduler_ok_def)
qed

lemma group_register_ok:
  assumes "group_ok g"
  shows "group_ok (group_register e g)"
proof -
  let ?xs = "filter (\<lambda>c. ep_registration_id c \<noteq> ep_registration_id e \<and> ep_worker_id c \<noteq> ep_worker_id e)
    (rg_endpoints g) @ [e]"
  have w: "distinct (map ep_worker_id ?xs)" and r: "distinct (map ep_registration_id ?xs)"
    using assms by (auto simp: group_ok_def distinct_map_filter)
  have "distinct (map ep_worker_id (sort_key ep_worker_id ?xs))"
    using w unfolding distinct_map by simp
  moreover have "distinct (map ep_registration_id (sort_key ep_worker_id ?xs))"
    using r unfolding distinct_map by simp
  ultimately show ?thesis unfolding group_ok_def group_register_def by simp
qed

lemma group_register_mem: "e \<in> set (rg_endpoints (group_register e g))"
  by (simp add: group_register_def)

lemma group_unregister_ok:
  assumes "group_ok g" and "group_unregister r g = (b, g')"
  shows "group_ok g'"
  using assms
  by (auto simp: group_ok_def group_unregister_def Let_def distinct_map_filter sorted_filter)

lemma update_first_map:
  assumes "\<And>x. h (f x) = h x"
  shows "map h (update_first P f xs) = map h xs"
  using assms by (induction xs) auto

section \<open>The table operations keep the invariant\<close>

lemma table_ok_update:
  assumes "table_ok t" and "\<And>h. g = Some h \<Longrightarrow> rg_endpoints h \<noteq> [] \<and> group_ok h \<and> scheduler_ok (rg_scheduler h)"
  shows "table_ok (t[i := g])"
proof -
  have "Some h = g \<or> Some h \<in> set t" if "Some h \<in> set (t[i := g])" for h
    using set_update_subset_insert [of t i g] that by blast
  then have "rg_endpoints h \<noteq> [] \<and> group_ok h \<and> scheduler_ok (rg_scheduler h)"
    if "Some h \<in> set (t[i := g])" for h
    using that assms(1) assms(2) [of h] unfolding table_ok_def by blast
  then show ?thesis using assms(1) unfolding table_ok_def by simp
qed

lemma table_ok_put:
  assumes "table_ok t" and "rg_endpoints h \<noteq> []" and "group_ok h" and "scheduler_ok (rg_scheduler h)"
  shows "table_ok (t[i := Some h])"
  by (rule table_ok_update [OF assms(1)]) (use assms(2-4) in simp)

lemma table_ok_clear:
  assumes "table_ok t"
  shows "table_ok (t[i := None])"
  by (rule table_ok_update [OF assms]) simp

lemma group_at_ok:
  assumes "table_ok t" and "group_at key t = Some g"
  shows "rg_endpoints g \<noteq> []" and "group_ok g" and "scheduler_ok (rg_scheduler g)" and "key < 256"
    and "t ! key = Some g"
proof -
  have key: "key < length t" and g: "t ! key = Some g"
    using assms(2) by (auto simp: group_at_def get_at_def split: if_splits)
  then have "Some g \<in> set t" by (metis nth_mem)
  then show "rg_endpoints g \<noteq> []" and "group_ok g" and "scheduler_ok (rg_scheduler g)" and "key < 256"
    and "t ! key = Some g" using assms(1) key g by (auto simp: table_ok_def)
qed

lemma table_new_ok: "table_ok table_new"
  by (simp add: table_ok_def table_new_def)

lemma route_index_bound: "route_index prefix ip = Some i \<Longrightarrow> i < 256"
  using unat_lt2p [of "ip ! 3"] by (auto simp: route_index_def split: if_splits)

lemma group_at_index: "table_ok t \<Longrightarrow> route_index prefix ip = Some i \<Longrightarrow> group_at i t = t ! i"
  using route_index_bound [of prefix ip i] by (simp add: group_at_def get_at_def table_ok_def)

lemma table_register_ok:
  assumes ok: "table_ok t"
  shows "table_ok (snd (table_register prefix ip sid r w slot t))"
proof (cases "route_index prefix ip")
  case None
  then show ?thesis using ok by (simp add: table_register_def)
next
  case (Some i)
  define g where "g = (case t ! i of None \<Rightarrow> group_default | Some g \<Rightarrow> g)"
  have "group_ok g \<and> scheduler_ok (rg_scheduler g)"
  proof (cases "t ! i")
    case None
    then show ?thesis by (simp add: g_def group_default_def group_ok_def scheduler_default_ok)
  next
    case (Some h)
    then have "group_at i t = Some h" using group_at_index [OF ok \<open>route_index prefix ip = Some i\<close>] by simp
    then show ?thesis using group_at_ok(2,3) [OF ok] Some by (simp add: g_def)
  qed
  moreover have "rg_endpoints (group_register e g) \<noteq> []" for e
    using group_register_mem [of e g] by force
  moreover have "rg_scheduler (group_register e g) = rg_scheduler g" for e
    by (simp add: group_register_def)
  ultimately have "table_ok (t[i := Some (group_register e g)])" for e
    using table_ok_put [OF ok] group_register_ok by simp
  then show ?thesis using Some by (simp add: table_register_def g_def)
qed

lemma update_slot_ok:
  assumes ok: "table_ok t"
  shows "table_ok (update_slot prefix ip sid r slot t)"
proof (cases "route_index prefix ip")
  case None
  then show ?thesis using ok by (simp add: update_slot_def)
next
  case (Some i)
  show ?thesis
  proof (cases "t ! i")
    case None
    then show ?thesis using ok Some by (simp add: update_slot_def)
  next
    case (Some g)
    let ?f = "update_first (\<lambda>e. ep_session_id e = sid \<and> ep_registration_id e = r) (\<lambda>e. e\<lparr>ep_slot := slot\<rparr>)"
    have g: "group_at i t = Some g" using group_at_index [OF ok] \<open>route_index prefix ip = Some i\<close> Some by simp
    define es where "es = ?f (rg_endpoints g)"
    have w: "map ep_worker_id es = map ep_worker_id (rg_endpoints g)"
      and r: "map ep_registration_id es = map ep_registration_id (rg_endpoints g)"
      unfolding es_def by (rule update_first_map, simp)+
    have "es \<noteq> []" using group_at_ok(1) [OF ok g] arg_cong [OF w, of length] by auto
    moreover have "group_ok (g\<lparr>rg_endpoints := es\<rparr>)"
      using group_at_ok(2) [OF ok g] by (simp add: group_ok_def w r)
    ultimately have "table_ok (t[i := Some (g\<lparr>rg_endpoints := es\<rparr>)])"
      using group_at_ok(3) [OF ok g] by (intro table_ok_put [OF ok]) simp_all
    then show ?thesis using Some \<open>route_index prefix ip = Some i\<close> by (simp add: update_slot_def es_def)
  qed
qed

lemma table_unregister_ok:
  assumes ok: "table_ok t"
  shows "table_ok (snd (table_unregister prefix ip r t))"
proof (cases "route_index prefix ip")
  case None
  then show ?thesis using ok by (simp add: table_unregister_def)
next
  case (Some i)
  show ?thesis
  proof (cases "t ! i")
    case None
    then show ?thesis using ok Some by (simp add: table_unregister_def)
  next
    case (Some g)
    have g: "group_at i t = Some g" using group_at_index [OF ok] \<open>route_index prefix ip = Some i\<close> Some by simp
    obtain b g' where u: "group_unregister r g = (b, g')" by (cases "group_unregister r g")
    then have "rg_scheduler g' = rg_scheduler g" by (auto simp: group_unregister_def Let_def)
    then have "table_ok (t[i := (if rg_endpoints g' = [] then None else Some g')])"
      using group_at_ok [OF ok g] group_unregister_ok [OF _ u]
      by (simp add: table_ok_put [OF ok] table_ok_clear [OF ok])
    then show ?thesis
      using Some \<open>route_index prefix ip = Some i\<close> u by (simp add: table_unregister_def)
  qed
qed

lemma select_window_endpoints:
  assumes "scheduler_ok (rg_scheduler g)" and "select_window cls g = (sel, g')"
  shows "rg_endpoints g' = rg_endpoints g" and "scheduler_ok (rg_scheduler g')"
    and "rg_endpoints g \<noteq> [] \<Longrightarrow>
      \<exists>start < length (rg_endpoints g). sel = Some \<lparr>sel_start = start, sel_len = length (rg_endpoints g)\<rparr>"
proof -
  obtain r s where r: "local_select (length (rg_endpoints g)) cls (rg_scheduler g) = (r, s)"
    by (rule prod.exhaust)
  note ok = local_select_ok [OF assms(1) r]
  show "rg_endpoints g' = rg_endpoints g" and "scheduler_ok (rg_scheduler g')"
    using assms(2) r ok(1) by (auto simp: select_window_def split: option.splits)
  show "\<exists>start < length (rg_endpoints g). sel = Some \<lparr>sel_start = start, sel_len = length (rg_endpoints g)\<rparr>"
    if "rg_endpoints g \<noteq> []"
    using assms(2) r ok(2) that by (auto simp: select_window_def)
qed

lemma select_key_window_ok:
  assumes ok: "table_ok t" and s: "select_key_window key cls t = (sel, t')"
  shows "table_ok t'" and "active_path_count k t' = active_path_count k t"
proof -
  have "table_ok t' \<and> active_path_count k t' = active_path_count k t"
  proof (cases "group_at key t")
    case None
    then show ?thesis using ok s by (simp add: select_key_window_def)
  next
    case (Some g)
    obtain w g' where w: "select_window cls g = (w, g')" by (cases "select_window cls g")
    note e = select_window_endpoints(1,2) [OF group_at_ok(3) [OF ok Some] w]
    have t': "t' = t[key := Some g']" using s Some w by (simp add: select_key_window_def)
    have "group_ok g'" using group_at_ok(2) [OF ok Some] e by (simp add: group_ok_def)
    then have "table_ok t'"
      unfolding t' using group_at_ok(1) [OF ok Some] e by (intro table_ok_put [OF ok]) simp_all
    moreover have "group_at k t' = (if k = key then Some g' else group_at k t)"
      using group_at_ok(4) [OF ok Some] ok
      by (auto simp: t' group_at_def get_at_def table_ok_def)
    ultimately show ?thesis using e Some by (simp add: active_path_count_def)
  qed
  then show "table_ok t'" and "active_path_count k t' = active_path_count k t" by simp_all
qed

section \<open>The window visits every endpoint once\<close>

lemma window_is_rotation:
  assumes "start < length (rg_endpoints g)"
  shows "map (\<lambda>off. group_endpoint_at \<lparr>sel_start = start, sel_len = length (rg_endpoints g)\<rparr> off g)
      [0..<length (rg_endpoints g)] = map Some (rotate start (rg_endpoints g))"
proof (rule nth_equalityI)
  let ?es = "rg_endpoints g"
  show "length (map (\<lambda>off. group_endpoint_at \<lparr>sel_start = start, sel_len = length ?es\<rparr> off g)
      [0..<length ?es]) = length (map Some (rotate start ?es))" by simp
next
  let ?es = "rg_endpoints g"
  fix i
  assume "i < length (map (\<lambda>off. group_endpoint_at \<lparr>sel_start = start, sel_len = length ?es\<rparr> off g)
      [0..<length ?es])"
  then have i: "i < length ?es" by simp
  have "(start + i) mod length ?es = (if length ?es \<le> start + i then start + i - length ?es else start + i)"
    using assms i by (simp add: mod_if)
  then show "map (\<lambda>off. group_endpoint_at \<lparr>sel_start = start, sel_len = length ?es\<rparr> off g)
      [0..<length ?es] ! i = map Some (rotate start ?es) ! i"
    using assms i by (auto simp: group_endpoint_at_def get_at_def nth_rotate Let_def)
qed

end
