(* ===== verification/Downlink_Queue.thy ===== *)
theory Downlink_Queue
  imports Route_Table
begin

text \<open>
  The server's egress queue (\<open>rust-server/downlink_queue.rs\<close>): per client lane
  and per packet class a fixed set of packet slots, and per class a ring of the
  active lanes with a cursor. The bulk ring holds a lane once per active path,
  which makes the round robin weighted.
\<close>

section \<open>Profiles\<close>

definition LATENCY_SLOTS :: nat where
  "LATENCY_SLOTS = 16"

definition PRIORITY_MIN_SLOTS :: nat where
  "PRIORITY_MIN_SLOTS = 32"

definition PRIORITY_MAX_SLOTS :: nat where
  "PRIORITY_MAX_SLOTS = 252"

definition PRIORITY_SLOTS_PER_PATH :: nat where
  "PRIORITY_SLOTS_PER_PATH = 2"

definition BULK_MIN_SLOTS :: nat where
  "BULK_MIN_SLOTS = 72"

definition BULK_MAX_SLOTS :: nat where
  "BULK_MAX_SLOTS = 1008"

definition BULK_SLOTS_PER_PATH :: nat where
  "BULK_SLOTS_PER_PATH = 8"

record queue_profile =
  latency_slots :: nat
  priority_slots :: nat
  bulk_slots :: nat

definition clamp :: "nat \<Rightarrow> nat \<Rightarrow> nat \<Rightarrow> nat" where
  "clamp lo hi n = (if n < lo then lo else if hi < n then hi else n)"

definition clip_paths :: "nat \<Rightarrow> nat" where
  "clip_paths active_paths = min active_paths (PRIORITY_MAX_SLOTS div PRIORITY_SLOTS_PER_PATH)"

definition profile_for_active_paths :: "nat \<Rightarrow> queue_profile" where
  "profile_for_active_paths paths =
     (let active_paths = clip_paths paths in
      if active_paths = 0 then \<lparr>latency_slots = 0, priority_slots = 0, bulk_slots = 0\<rparr>
      else \<lparr>latency_slots = LATENCY_SLOTS,
            priority_slots = clamp PRIORITY_MIN_SLOTS PRIORITY_MAX_SLOTS
              (active_paths * PRIORITY_SLOTS_PER_PATH),
            bulk_slots = clamp BULK_MIN_SLOTS BULK_MAX_SLOTS (active_paths * BULK_SLOTS_PER_PATH)\<rparr>)"

section \<open>Packet slots\<close>

text \<open>\<open>free\<close> is a stack whose top is at the end of the list; \<open>pending\<close> is a queue.\<close>

record packet_slots =
  sl_free :: "packet_buffer list"
  sl_pending :: "packet_buffer list"

definition slots_default :: packet_slots where
  "slots_default = \<lparr>sl_free = [], sl_pending = []\<rparr>"

definition slots_total :: "packet_slots \<Rightarrow> nat" where
  "slots_total s = length (sl_free s) + length (sl_pending s)"

function slots_grow :: "nat \<Rightarrow> packet_slots \<Rightarrow> packet_slots" where
  "slots_grow capacity s =
     (if slots_total s < capacity
      then slots_grow capacity (s\<lparr>sl_free := sl_free s @ [packet_buffer_new]\<rparr>) else s)"
  by pat_completeness auto
termination
  by (relation "measure (\<lambda>(c, s). c - slots_total s)") (auto simp: slots_total_def)

function slots_shrink :: "nat \<Rightarrow> packet_slots \<Rightarrow> packet_slots" where
  "slots_shrink capacity s =
     (if capacity < slots_total s
      then slots_shrink capacity
        (if sl_free s = [] then s\<lparr>sl_pending := butlast (sl_pending s)\<rparr>
         else s\<lparr>sl_free := butlast (sl_free s)\<rparr>)
      else s)"
  by pat_completeness auto
termination
  by (relation "measure (\<lambda>(c, s). slots_total s)") (auto simp: slots_total_def)

definition slots_resize :: "nat \<Rightarrow> packet_slots \<Rightarrow> packet_slots" where
  "slots_resize capacity s =
     (let s = slots_shrink capacity (slots_grow capacity s)
      in if capacity = 0 then s\<lparr>sl_free := [], sl_pending := []\<rparr> else s)"

definition slots_enqueue :: "bytes \<Rightarrow> packet_slots \<Rightarrow> bool \<times> packet_slots" where
  "slots_enqueue packet s =
     (if sl_free s = [] then (False, s)
      else let slot = last (sl_free s); rest = butlast (sl_free s) in
        case buffer_copy_from packet slot of
          (False, slot') \<Rightarrow> (False, s\<lparr>sl_free := rest @ [slot']\<rparr>)
        | (True, slot') \<Rightarrow> (True, s\<lparr>sl_free := rest, sl_pending := sl_pending s @ [slot']\<rparr>))"

definition slots_dequeue :: "packet_slots \<Rightarrow> packet_buffer option \<times> packet_slots" where
  "slots_dequeue s =
     (case sl_pending s of [] \<Rightarrow> (None, s) | p # ps \<Rightarrow> (Some p, s\<lparr>sl_pending := ps\<rparr>))"

definition slots_requeue_front :: "packet_buffer \<Rightarrow> packet_slots \<Rightarrow> packet_slots" where
  "slots_requeue_front p s = s\<lparr>sl_pending := p # sl_pending s\<rparr>"

definition slots_recycle :: "packet_buffer \<Rightarrow> packet_slots \<Rightarrow> packet_slots" where
  "slots_recycle p s = s\<lparr>sl_free := sl_free s @ [p]\<rparr>"

definition slots_clear_pending :: "packet_slots \<Rightarrow> packet_slots" where
  "slots_clear_pending s = s\<lparr>sl_free := sl_free s @ sl_pending s, sl_pending := []\<rparr>"

section \<open>Lanes\<close>

record egress_lane =
  la_active_paths :: nat
  la_latency :: packet_slots
  la_priority :: packet_slots
  la_bulk :: packet_slots

definition lane_default :: egress_lane where
  "lane_default = \<lparr>la_active_paths = 0, la_latency = slots_default, la_priority = slots_default,
                   la_bulk = slots_default\<rparr>"

definition lane_configure :: "nat \<Rightarrow> egress_lane \<Rightarrow> egress_lane" where
  "lane_configure active_paths l =
     (let l = l\<lparr>la_active_paths := clip_paths active_paths\<rparr>;
          profile = profile_for_active_paths (la_active_paths l)
      in l\<lparr>la_latency := slots_resize (latency_slots profile) (la_latency l),
           la_priority := slots_resize (priority_slots profile) (la_priority l),
           la_bulk := slots_resize (bulk_slots profile) (la_bulk l)\<rparr>)"

fun lane_queue :: "packet_class \<Rightarrow> egress_lane \<Rightarrow> packet_slots" where
  "lane_queue Latency l = la_latency l"
| "lane_queue Priority l = la_priority l"
| "lane_queue Bulk l = la_bulk l"

fun set_lane_queue :: "packet_class \<Rightarrow> packet_slots \<Rightarrow> egress_lane \<Rightarrow> egress_lane" where
  "set_lane_queue Latency s l = l\<lparr>la_latency := s\<rparr>"
| "set_lane_queue Priority s l = l\<lparr>la_priority := s\<rparr>"
| "set_lane_queue Bulk s l = l\<lparr>la_bulk := s\<rparr>"

definition lane_clear_pending :: "egress_lane \<Rightarrow> egress_lane" where
  "lane_clear_pending l =
     l\<lparr>la_latency := slots_clear_pending (la_latency l),
       la_priority := slots_clear_pending (la_priority l),
       la_bulk := slots_clear_pending (la_bulk l)\<rparr>"

section \<open>The queue\<close>

record downlink_queue =
  dq_lanes :: "egress_lane list"
  dq_latency_ring :: "nat list"
  dq_priority_ring :: "nat list"
  dq_bulk_ring :: "nat list"
  dq_latency_cursor :: nat
  dq_priority_cursor :: nat
  dq_bulk_cursor :: nat

definition downlink_default :: downlink_queue where
  "downlink_default =
     \<lparr>dq_lanes = replicate 256 lane_default, dq_latency_ring = [], dq_priority_ring = [],
      dq_bulk_ring = [], dq_latency_cursor = 0, dq_priority_cursor = 0, dq_bulk_cursor = 0\<rparr>"

definition active_keys :: "egress_lane list \<Rightarrow> nat list" where
  "active_keys lanes = filter (\<lambda>key. la_active_paths (lanes ! key) \<noteq> 0) [0..<length lanes]"

definition weighted_keys :: "egress_lane list \<Rightarrow> nat list" where
  "weighted_keys lanes =
     concat (map (\<lambda>key. replicate (la_active_paths (lanes ! key)) key) (active_keys lanes))"

definition rebuild_rings :: "downlink_queue \<Rightarrow> downlink_queue" where
  "rebuild_rings q =
     (let single = active_keys (dq_lanes q); weighted = weighted_keys (dq_lanes q)
      in q\<lparr>dq_latency_ring := single, dq_priority_ring := single, dq_bulk_ring := weighted,
           dq_latency_cursor := dq_latency_cursor q mod max (length single) 1,
           dq_priority_cursor := dq_priority_cursor q mod max (length single) 1,
           dq_bulk_cursor := dq_bulk_cursor q mod max (length weighted) 1\<rparr>)"

definition dq_configure :: "nat \<Rightarrow> nat \<Rightarrow> downlink_queue \<Rightarrow> downlink_queue" where
  "dq_configure key active_paths q =
     (case get_at (dq_lanes q) key of
        None \<Rightarrow> q
      | Some lane \<Rightarrow>
          if la_active_paths lane = clip_paths active_paths then q
          else rebuild_rings (q\<lparr>dq_lanes := (dq_lanes q)[key := lane_configure active_paths lane]\<rparr>))"

definition dq_enqueue :: "nat \<Rightarrow> packet_class \<Rightarrow> bytes \<Rightarrow> downlink_queue \<Rightarrow> bool \<times> downlink_queue" where
  "dq_enqueue key cls packet q =
     (case get_at (dq_lanes q) key of
        None \<Rightarrow> (False, q)
      | Some lane \<Rightarrow>
          if la_active_paths lane = 0 then (False, q)
          else case slots_enqueue packet (lane_queue cls lane) of
            (ok, s) \<Rightarrow> (ok, q\<lparr>dq_lanes := (dq_lanes q)[key := set_lane_queue cls s lane]\<rparr>))"

fun dq_ring :: "packet_class \<Rightarrow> downlink_queue \<Rightarrow> nat list" where
  "dq_ring Latency q = dq_latency_ring q"
| "dq_ring Priority q = dq_priority_ring q"
| "dq_ring Bulk q = dq_bulk_ring q"

fun dq_cursor :: "packet_class \<Rightarrow> downlink_queue \<Rightarrow> nat" where
  "dq_cursor Latency q = dq_latency_cursor q"
| "dq_cursor Priority q = dq_priority_cursor q"
| "dq_cursor Bulk q = dq_bulk_cursor q"

fun set_dq_cursor :: "packet_class \<Rightarrow> nat \<Rightarrow> downlink_queue \<Rightarrow> downlink_queue" where
  "set_dq_cursor Latency c q = q\<lparr>dq_latency_cursor := c\<rparr>"
| "set_dq_cursor Priority c q = q\<lparr>dq_priority_cursor := c\<rparr>"
| "set_dq_cursor Bulk c q = q\<lparr>dq_bulk_cursor := c\<rparr>"

definition ring_len :: "packet_class \<Rightarrow> downlink_queue \<Rightarrow> nat" where
  "ring_len cls q = length (dq_ring cls q)"

definition next_key :: "packet_class \<Rightarrow> downlink_queue \<Rightarrow> nat option \<times> downlink_queue" where
  "next_key cls q =
     (case get_at (dq_ring cls q) (dq_cursor cls q) of
        None \<Rightarrow> (None, q)
      | Some key \<Rightarrow>
          let cursor = dq_cursor cls q + 1;
              cursor = (if cursor = length (dq_ring cls q) then 0 else cursor)
          in (Some key, set_dq_cursor cls cursor q))"

definition put_slots :: "nat \<Rightarrow> packet_class \<Rightarrow> packet_slots \<Rightarrow> downlink_queue \<Rightarrow> downlink_queue" where
  "put_slots key cls s q =
     q\<lparr>dq_lanes := (dq_lanes q)[key := set_lane_queue cls s (dq_lanes q ! key)]\<rparr>"

fun dequeue_loop :: "nat \<Rightarrow> packet_class \<Rightarrow> downlink_queue \<Rightarrow> (nat \<times> packet_buffer) option \<times> downlink_queue" where
  "dequeue_loop 0 cls q = (None, q)"
| "dequeue_loop (Suc n) cls q =
     (case next_key cls q of
        (None, q') \<Rightarrow> (None, q')
      | (Some key, q') \<Rightarrow>
          (case slots_dequeue (lane_queue cls (dq_lanes q' ! key)) of
             (None, s) \<Rightarrow> dequeue_loop n cls q'
           | (Some packet, s) \<Rightarrow> (Some (key, packet), put_slots key cls s q')))"

definition dq_dequeue :: "packet_class \<Rightarrow> downlink_queue \<Rightarrow> (nat \<times> packet_buffer) option \<times> downlink_queue" where
  "dq_dequeue cls q = dequeue_loop (ring_len cls q) cls q"

definition dq_requeue_front :: "nat \<Rightarrow> packet_class \<Rightarrow> packet_buffer \<Rightarrow> downlink_queue \<Rightarrow> downlink_queue" where
  "dq_requeue_front key cls packet q =
     (case get_at (dq_lanes q) key of
        None \<Rightarrow> q
      | Some lane \<Rightarrow> put_slots key cls (slots_requeue_front packet (lane_queue cls lane)) q)"

definition dq_recycle :: "nat \<Rightarrow> packet_class \<Rightarrow> packet_buffer \<Rightarrow> downlink_queue \<Rightarrow> downlink_queue" where
  "dq_recycle key cls packet q =
     (case get_at (dq_lanes q) key of
        None \<Rightarrow> q
      | Some lane \<Rightarrow> put_slots key cls (slots_recycle packet (lane_queue cls lane)) q)"

definition dq_clear :: "nat \<Rightarrow> downlink_queue \<Rightarrow> downlink_queue" where
  "dq_clear key q =
     (case get_at (dq_lanes q) key of
        None \<Rightarrow> q
      | Some lane \<Rightarrow> q\<lparr>dq_lanes := (dq_lanes q)[key := lane_clear_pending lane]\<rparr>)"

section \<open>Slots\<close>

declare slots_grow.simps [simp del] slots_shrink.simps [simp del]

lemma slots_grow_spec:
  "sl_pending (slots_grow c s) = sl_pending s \<and> slots_total (slots_grow c s) = max c (slots_total s)"
proof (induction c s rule: slots_grow.induct)
  case (1 c s)
  show ?case
  proof (cases "slots_total s < c")
    case True
    then show ?thesis
      using 1 by (subst (1 2) slots_grow.simps) (auto simp: slots_total_def max_def)
  next
    case False
    then show ?thesis by (subst (1 2) slots_grow.simps) (auto simp: max_def)
  qed
qed

text \<open>Shrinking first gives up free slots and then the newest pending packets, so
  the packets that stay are a prefix of those that were pending.\<close>

lemma slots_shrink_spec:
  "(\<exists>n. sl_pending (slots_shrink c s) = take n (sl_pending s))
   \<and> slots_total (slots_shrink c s) = min c (slots_total s)"
proof (induction c s rule: slots_shrink.induct)
  case (1 c s)
  let ?t = "if sl_free s = [] then s\<lparr>sl_pending := butlast (sl_pending s)\<rparr>
    else s\<lparr>sl_free := butlast (sl_free s)\<rparr>"
  show ?case
  proof (cases "c < slots_total s")
    case True
    have t: "slots_total ?t = slots_total s - 1" using True by (cases "sl_free s") (auto simp: slots_total_def)
    obtain n where n: "sl_pending (slots_shrink c ?t) = take n (sl_pending ?t)"
      and total: "slots_total (slots_shrink c ?t) = min c (slots_total ?t)"
      using 1 [OF True] by blast
    have "\<exists>k. sl_pending ?t = take k (sl_pending s)"
      by (auto simp: butlast_conv_take intro: exI [of _ "length (sl_pending s)"])
    then obtain k where "sl_pending ?t = take k (sl_pending s)" by blast
    then have "sl_pending (slots_shrink c ?t) = take (min n k) (sl_pending s)" using n by simp
    then show ?thesis
      using True t total by (subst (1 2) slots_shrink.simps) auto
  next
    case False
    then show ?thesis
      by (subst (1 2) slots_shrink.simps) (auto intro: exI [of _ "length (sl_pending s)"])
  qed
qed

lemma slots_resize_spec:
  "(\<exists>n. sl_pending (slots_resize c s) = take n (sl_pending s)) \<and> slots_total (slots_resize c s) = c"
proof -
  define t where "t = slots_shrink c (slots_grow c s)"
  obtain n where "sl_pending t = take n (sl_pending s)" and total: "slots_total t = c"
    using slots_grow_spec [of c s] slots_shrink_spec [of c "slots_grow c s"] by (auto simp: t_def)
  then show ?thesis
    unfolding slots_resize_def Let_def t_def [symmetric]
    by (auto simp: slots_total_def intro: exI [of _ 0])
qed

lemma slots_enqueue_spec:
  assumes "slots_enqueue packet s = (ok, s')"
  shows "slots_total s' = slots_total s"
    and "ok \<longleftrightarrow> sl_free s \<noteq> [] \<and> length packet \<le> SERVER_PACKET_CAPACITY"
    and "map buffer_slice (sl_pending s') = map buffer_slice (sl_pending s) @ (if ok then [packet] else [])"
  using assms
  by (auto simp: slots_enqueue_def slots_total_def buffer_copy_from_def buffer_slice_def Let_def
      split: if_splits)

lemma lane_queue_set [simp]:
  "lane_queue c (set_lane_queue d s l) = (if c = d then s else lane_queue c l)"
  "la_active_paths (set_lane_queue d s l) = la_active_paths l"
  by (cases c; cases d; simp)+

lemma lane_queue_clear [simp]:
  "lane_queue c (lane_clear_pending l) = slots_clear_pending (lane_queue c l)"
  "la_active_paths (lane_clear_pending l) = la_active_paths l"
  by (cases c; simp add: lane_clear_pending_def)+

section \<open>The invariant\<close>

text \<open>\<open>owed k cls\<close> counts the packets taken from lane \<open>k\<close> that the caller has neither
  recycled nor requeued yet.\<close>

fun slots_for :: "packet_class \<Rightarrow> queue_profile \<Rightarrow> nat" where
  "slots_for Latency p = latency_slots p"
| "slots_for Priority p = priority_slots p"
| "slots_for Bulk p = bulk_slots p"

definition lane_capacity :: "packet_class \<Rightarrow> egress_lane \<Rightarrow> nat" where
  "lane_capacity cls l = slots_for cls (profile_for_active_paths (la_active_paths l))"

fun ring_of :: "packet_class \<Rightarrow> egress_lane list \<Rightarrow> nat list" where
  "ring_of Latency lanes = active_keys lanes"
| "ring_of Priority lanes = active_keys lanes"
| "ring_of Bulk lanes = weighted_keys lanes"

definition lane_ok :: "(packet_class \<Rightarrow> nat) \<Rightarrow> egress_lane \<Rightarrow> bool" where
  "lane_ok owed l \<longleftrightarrow> clip_paths (la_active_paths l) = la_active_paths l
     \<and> (\<forall>cls. slots_total (lane_queue cls l) + owed cls = lane_capacity cls l)"

definition rings_ok :: "downlink_queue \<Rightarrow> bool" where
  "rings_ok q \<longleftrightarrow> (\<forall>cls. dq_ring cls q = ring_of cls (dq_lanes q)
     \<and> dq_cursor cls q < max (length (ring_of cls (dq_lanes q))) 1)"

definition dq_inv :: "(nat \<Rightarrow> packet_class \<Rightarrow> nat) \<Rightarrow> downlink_queue \<Rightarrow> bool" where
  "dq_inv owed q \<longleftrightarrow> length (dq_lanes q) = 256
     \<and> (\<forall>k < 256. lane_ok (owed k) (dq_lanes q ! k)) \<and> rings_ok q"

definition contents :: "downlink_queue \<Rightarrow> nat \<Rightarrow> packet_class \<Rightarrow> bytes list" where
  "contents q k cls =
     (if k < length (dq_lanes q) then map buffer_slice (sl_pending (lane_queue cls (dq_lanes q ! k)))
      else [])"

definition owe :: "nat \<Rightarrow> packet_class \<Rightarrow> nat \<Rightarrow> (nat \<Rightarrow> packet_class \<Rightarrow> nat) \<Rightarrow> nat \<Rightarrow> packet_class \<Rightarrow> nat" where
  "owe k cls n owed = owed(k := (owed k)(cls := n))"

lemma owe_simps [simp]:
  "owe k cls n owed k cls = n" "owe k cls m (owe k cls n owed) = owe k cls m owed"
  "owe k cls (owed k cls) owed = owed"
  by (simp_all add: owe_def)

abbreviation nothing_owed :: "nat \<Rightarrow> packet_class \<Rightarrow> nat" where
  "nothing_owed \<equiv> \<lambda>_ _. 0"

lemma dq_inv_lanes: "dq_inv owed q \<Longrightarrow> length (dq_lanes q) = 256"
  by (simp add: dq_inv_def)

lemma dq_inv_lane: "dq_inv owed q \<Longrightarrow> k < 256 \<Longrightarrow> lane_ok (owed k) (dq_lanes q ! k)"
  by (simp add: dq_inv_def)

lemma dq_inv_rings: "dq_inv owed q \<Longrightarrow> rings_ok q"
  by (simp add: dq_inv_def)

lemma inactive_capacity: "la_active_paths l = 0 \<Longrightarrow> lane_capacity cls l = 0"
  by (cases cls) (simp_all add: lane_capacity_def profile_for_active_paths_def clip_paths_def)

lemma inactive_lane_empty:
  assumes "dq_inv owed q" and "k < 256" and "la_active_paths (dq_lanes q ! k) = 0"
  shows "contents q k cls = []"
proof -
  have "slots_total (lane_queue cls (dq_lanes q ! k)) = 0"
    using dq_inv_lane [OF assms(1,2)] inactive_capacity [OF assms(3), of cls]
    by (simp add: lane_ok_def) (metis add_is_0)
  then show ?thesis by (simp add: contents_def slots_total_def)
qed

section \<open>Rings\<close>

lemma active_keys_cong:
  assumes "map la_active_paths ls = map la_active_paths ms"
  shows "active_keys ls = active_keys ms" and "weighted_keys ls = weighted_keys ms"
proof -
  have len: "length ls = length ms" using assms by (rule map_eq_imp_length_eq)
  have nth: "la_active_paths (ls ! k) = la_active_paths (ms ! k)" if "k < length ms" for k
    using assms that len by (metis nth_map)
  then show keys: "active_keys ls = active_keys ms"
    unfolding active_keys_def len by (intro filter_cong) auto
  have "map (\<lambda>key. replicate (la_active_paths (ls ! key)) key) (active_keys ms)
      = map (\<lambda>key. replicate (la_active_paths (ms ! key)) key) (active_keys ms)"
    using nth by (intro map_cong) (auto simp: active_keys_def)
  then show "weighted_keys ls = weighted_keys ms" unfolding weighted_keys_def keys by (simp only:)
qed

lemma ring_of_cong:
  "map la_active_paths ls = map la_active_paths ms \<Longrightarrow> ring_of cls ls = ring_of cls ms"
  by (cases cls) (auto dest: active_keys_cong)

lemma set_ring_of:
  "set (ring_of cls ls) = {k. k < length ls \<and> la_active_paths (ls ! k) \<noteq> 0}"
  by (cases cls) (auto simp: active_keys_def weighted_keys_def)

lemma rebuild_rings_ok: "rings_ok (rebuild_rings q)"
proof -
  have "dq_ring cls (rebuild_rings q) = ring_of cls (dq_lanes (rebuild_rings q))
    \<and> dq_cursor cls (rebuild_rings q) < max (length (ring_of cls (dq_lanes (rebuild_rings q)))) 1" for cls
    by (cases cls) (simp_all add: rebuild_rings_def Let_def)
  then show ?thesis by (simp add: rings_ok_def)
qed

lemma dq_update_lanes [simp]:
  "dq_ring cls (q\<lparr>dq_lanes := x\<rparr>) = dq_ring cls q"
  "dq_cursor cls (q\<lparr>dq_lanes := x\<rparr>) = dq_cursor cls q"
  by (cases cls; simp)+

lemma dq_set_cursor [simp]:
  "dq_ring cls (set_dq_cursor d c q) = dq_ring cls q"
  "dq_cursor cls (set_dq_cursor d c q) = (if cls = d then c else dq_cursor cls q)"
  "dq_lanes (set_dq_cursor d c q) = dq_lanes q"
  by (cases cls; cases d; simp)+

section \<open>Changing one lane\<close>

text \<open>Every operation replaces one lane by one with the same number of paths.\<close>

lemma map_active_update:
  assumes "k < length ls" and "la_active_paths l = la_active_paths (ls ! k)"
  shows "map la_active_paths (ls[k := l]) = map la_active_paths ls"
proof -
  have "la_active_paths l = map la_active_paths ls ! k" using assms by simp
  then show ?thesis unfolding map_update by (simp only: list_update_id)
qed

lemma dq_inv_set_lane:
  assumes inv: "dq_inv owed q" and k: "k < 256"
    and "la_active_paths l = la_active_paths (dq_lanes q ! k)" and "lane_ok (owed' k) l"
    and "\<And>j. j \<noteq> k \<Longrightarrow> owed' j = owed j"
  shows "dq_inv owed' (q\<lparr>dq_lanes := (dq_lanes q)[k := l]\<rparr>)"
proof -
  have len: "length (dq_lanes q) = 256" using inv by (rule dq_inv_lanes)
  have "ring_of cls ((dq_lanes q)[k := l]) = ring_of cls (dq_lanes q)" for cls
    using assms(3) k len by (intro ring_of_cong map_active_update) auto
  then have "rings_ok (q\<lparr>dq_lanes := (dq_lanes q)[k := l]\<rparr>)"
    using dq_inv_rings [OF inv] by (simp add: rings_ok_def)
  moreover have "lane_ok (owed' j) ((dq_lanes q)[k := l] ! j)" if "j < 256" for j
    using that dq_inv_lane [OF inv that] assms(4,5) k len by (cases "j = k") auto
  ultimately show ?thesis using len by (simp add: dq_inv_def)
qed

lemma contents_set_lane:
  assumes "dq_inv owed q" and "k < 256"
  shows "contents (q\<lparr>dq_lanes := (dq_lanes q)[k := l]\<rparr>) j cls =
    (if j = k then map buffer_slice (sl_pending (lane_queue cls l)) else contents q j cls)"
  using assms dq_inv_lanes [OF assms(1)] by (auto simp: contents_def)

lemma lane_ok_set_queue:
  assumes "lane_ok owed l" and "slots_total s + n = slots_total (lane_queue cls l) + owed cls"
  shows "lane_ok (owed(cls := n)) (set_lane_queue cls s l)"
  using assms by (auto simp: lane_ok_def lane_capacity_def)

lemma put_slots_inv:
  assumes inv: "dq_inv owed q" and k: "k < 256"
    and "slots_total s + n = slots_total (lane_queue cls (dq_lanes q ! k)) + owed k cls"
  shows "dq_inv (owe k cls n owed) (put_slots k cls s q)"
  unfolding put_slots_def
  by (rule dq_inv_set_lane [OF inv k])
    (use lane_ok_set_queue [OF dq_inv_lane [OF inv k] assms(3)] in \<open>simp_all add: owe_def\<close>)

lemma contents_put_slots:
  assumes "dq_inv owed q" and "k < 256"
  shows "contents (put_slots k cls s q) j c =
    (if j = k \<and> c = cls then map buffer_slice (sl_pending s) else contents q j c)"
  unfolding put_slots_def contents_set_lane [OF assms]
  using dq_inv_lanes [OF assms(1)] assms(2) by (simp add: contents_def)

section \<open>The operations\<close>

lemma get_lane: "dq_inv owed q \<Longrightarrow> get_at (dq_lanes q) k = (if k < 256 then Some (dq_lanes q ! k) else None)"
  by (simp add: get_at_def dq_inv_lanes)

lemma lane_default_ok: "lane_ok (\<lambda>_. 0) lane_default"
proof -
  have "slots_total (lane_queue cls lane_default) = 0" for cls
    by (cases cls) (simp_all add: lane_default_def slots_default_def slots_total_def)
  moreover have "lane_capacity cls lane_default = 0" for cls
    by (rule inactive_capacity) (simp add: lane_default_def)
  ultimately show ?thesis by (simp add: lane_ok_def) (simp add: lane_default_def clip_paths_def)
qed

lemma ring_of_default: "ring_of cls (replicate n lane_default) = []"
proof -
  have "active_keys (replicate n lane_default) = []"
    by (simp add: active_keys_def lane_default_def filter_empty_conv)
  then show ?thesis by (cases cls) (simp_all add: weighted_keys_def)
qed

lemma default_inv: "dq_inv nothing_owed downlink_default"
proof -
  define ls where "ls = replicate 256 lane_default"
  have q: "dq_lanes downlink_default = ls" by (simp only: ls_def downlink_default_def downlink_queue.simps)
  have len: "length ls = 256" unfolding ls_def by (rule length_replicate)
  have nth: "ls ! k = lane_default" if "k < 256" for k
    unfolding ls_def using that by (rule nth_replicate)
  have "dq_ring cls downlink_default = []" "dq_cursor cls downlink_default = 0" for cls
    by (cases cls; simp only: downlink_default_def downlink_queue.simps dq_ring.simps dq_cursor.simps)+
  moreover have "ring_of cls ls = []" for cls unfolding ls_def by (rule ring_of_default)
  ultimately have "rings_ok downlink_default" by (simp add: rings_ok_def q)
  then show ?thesis by (simp add: dq_inv_def q len nth lane_default_ok)
qed

lemma lane_configure_ok:
  "lane_ok (\<lambda>_. 0) (lane_configure n l)"
  "\<exists>m. sl_pending (lane_queue cls (lane_configure n l)) = take m (sl_pending (lane_queue cls l))"
proof -
  have clip: "clip_paths (clip_paths n) = clip_paths n" by (simp add: clip_paths_def)
  have active: "la_active_paths (lane_configure n l) = clip_paths n"
    by (simp add: lane_configure_def Let_def)
  have queue: "lane_queue c (lane_configure n l)
      = slots_resize (slots_for c (profile_for_active_paths (clip_paths n))) (lane_queue c l)" for c
    by (cases c) (simp_all add: lane_configure_def Let_def)
  show "lane_ok (\<lambda>_. 0) (lane_configure n l)"
    unfolding lane_ok_def lane_capacity_def active queue
    using slots_resize_spec clip by simp
  show "\<exists>m. sl_pending (lane_queue cls (lane_configure n l)) = take m (sl_pending (lane_queue cls l))"
    unfolding queue using slots_resize_spec by blast
qed

lemma configure_inv:
  assumes inv: "dq_inv owed q" and "owed k = (\<lambda>_. 0)"
  shows "dq_inv owed (dq_configure k n q)"
proof (cases "k < 256 \<and> la_active_paths (dq_lanes q ! k) \<noteq> clip_paths n")
  case False
  then show ?thesis using inv by (auto simp: dq_configure_def get_lane [OF inv])
next
  case True
  let ?ls = "(dq_lanes q)[k := lane_configure n (dq_lanes q ! k)]"
  have "dq_configure k n q = rebuild_rings (q\<lparr>dq_lanes := ?ls\<rparr>)"
    using True by (simp add: dq_configure_def get_lane [OF inv])
  moreover have "dq_lanes (rebuild_rings (q\<lparr>dq_lanes := ?ls\<rparr>)) = ?ls"
    by (simp add: rebuild_rings_def Let_def)
  moreover have "lane_ok (owed j) (?ls ! j)" if "j < 256" for j
    using that dq_inv_lane [OF inv that] lane_configure_ok(1) assms(2) True dq_inv_lanes [OF inv]
    by (cases "j = k") auto
  ultimately show ?thesis
    using rebuild_rings_ok dq_inv_lanes [OF inv] by (simp add: dq_inv_def)
qed

lemma configure_contents:
  assumes inv: "dq_inv owed q"
  shows "\<exists>m. contents (dq_configure k n q) j cls = (if j = k then take m (contents q j cls) else contents q j cls)"
proof (cases "k < 256 \<and> la_active_paths (dq_lanes q ! k) \<noteq> clip_paths n")
  case False
  then show ?thesis
    by (auto simp: dq_configure_def get_lane [OF inv] intro: exI [of _ "length (contents q j cls)"])
next
  case True
  let ?q = "q\<lparr>dq_lanes := (dq_lanes q)[k := lane_configure n (dq_lanes q ! k)]\<rparr>"
  have "dq_configure k n q = rebuild_rings ?q"
    using True by (simp add: dq_configure_def get_lane [OF inv])
  moreover have "contents (rebuild_rings ?q) j cls = contents ?q j cls"
    by (simp add: contents_def rebuild_rings_def Let_def)
  moreover obtain m where "sl_pending (lane_queue cls (lane_configure n (dq_lanes q ! k)))
      = take m (sl_pending (lane_queue cls (dq_lanes q ! k)))"
    using lane_configure_ok(2) by blast
  ultimately show ?thesis
    using contents_set_lane [OF inv, of k] True dq_inv_lanes [OF inv]
    by (auto simp: contents_def take_map intro!: exI [of _ m])
qed

lemma enqueue_inv:
  assumes inv: "dq_inv owed q" and e: "dq_enqueue k cls packet q = (ok, q')"
  shows "dq_inv owed q'"
    and "ok \<longleftrightarrow> k < 256 \<and> length packet \<le> SERVER_PACKET_CAPACITY
      \<and> length (contents q k cls) + owed k cls < lane_capacity cls (dq_lanes q ! k)"
    and "contents q' j c = contents q j c @ (if ok \<and> j = k \<and> c = cls then [packet] else [])"
proof -
  let ?l = "dq_lanes q ! k"
  have "dq_inv owed q' \<and> (ok \<longleftrightarrow> k < 256 \<and> length packet \<le> SERVER_PACKET_CAPACITY
      \<and> length (contents q k cls) + owed k cls < lane_capacity cls ?l)
    \<and> contents q' j c = contents q j c @ (if ok \<and> j = k \<and> c = cls then [packet] else [])"
  proof (cases "k < 256")
    case False
    then show ?thesis using e inv by (auto simp: dq_enqueue_def get_lane [OF inv])
  next
    case k: True
    have lane: "slots_total (lane_queue cls ?l) + owed k cls = lane_capacity cls ?l"
      using dq_inv_lane [OF inv k] by (simp add: lane_ok_def)
    have len: "length (contents q k cls) = length (sl_pending (lane_queue cls ?l))"
      using k dq_inv_lanes [OF inv] by (simp add: contents_def)
    show ?thesis
    proof (cases "la_active_paths ?l = 0")
      case True
      then show ?thesis using e inv inactive_capacity [OF True, of cls] by (simp add: dq_enqueue_def get_lane [OF inv] k)
    next
      case False
      obtain b s where s: "slots_enqueue packet (lane_queue cls ?l) = (b, s)" by (rule prod.exhaust)
      note spec = slots_enqueue_spec [OF s]
      have q': "ok = b" "q' = put_slots k cls s q"
        using e k s False by (simp_all add: dq_enqueue_def get_lane [OF inv] put_slots_def)
      have "dq_inv (owe k cls (owed k cls) owed) q'"
        unfolding q' by (rule put_slots_inv [OF inv k]) (simp add: spec(1))
      moreover have "contents q' j c = contents q j c @ (if ok \<and> j = k \<and> c = cls then [packet] else [])"
        unfolding q' contents_put_slots [OF inv k]
        using spec(3) k dq_inv_lanes [OF inv] by (simp add: contents_def)
      moreover have "sl_free (lane_queue cls ?l) \<noteq> []
          \<longleftrightarrow> length (contents q k cls) + owed k cls < lane_capacity cls ?l"
        unfolding len lane [symmetric] slots_total_def by simp
      ultimately show ?thesis using spec(2) k q'(1) by auto
    qed
  qed
  then show "dq_inv owed q'"
    and "ok \<longleftrightarrow> k < 256 \<and> length packet \<le> SERVER_PACKET_CAPACITY
      \<and> length (contents q k cls) + owed k cls < lane_capacity cls ?l"
    and "contents q' j c = contents q j c @ (if ok \<and> j = k \<and> c = cls then [packet] else [])"
    by blast+
qed

lemma requeue_front_inv:
  assumes inv: "dq_inv owed q" and k: "k < 256" and "owed k cls = Suc n"
  shows "dq_inv (owe k cls n owed) (dq_requeue_front k cls p q)"
    and "contents (dq_requeue_front k cls p q) j c =
      (if j = k \<and> c = cls then buffer_slice p # contents q j c else contents q j c)"
proof -
  have r: "dq_requeue_front k cls p q = put_slots k cls (slots_requeue_front p (lane_queue cls (dq_lanes q ! k))) q"
    by (simp add: dq_requeue_front_def get_lane [OF inv] k)
  show "dq_inv (owe k cls n owed) (dq_requeue_front k cls p q)"
    unfolding r by (rule put_slots_inv [OF inv k])
      (simp add: assms(3) slots_total_def slots_requeue_front_def)
  show "contents (dq_requeue_front k cls p q) j c =
      (if j = k \<and> c = cls then buffer_slice p # contents q j c else contents q j c)"
    unfolding r contents_put_slots [OF inv k]
    using k dq_inv_lanes [OF inv] by (simp add: slots_requeue_front_def contents_def)
qed

lemma recycle_inv:
  assumes inv: "dq_inv owed q" and k: "k < 256" and "owed k cls = Suc n"
  shows "dq_inv (owe k cls n owed) (dq_recycle k cls p q)"
    and "contents (dq_recycle k cls p q) = contents q"
proof -
  have r: "dq_recycle k cls p q = put_slots k cls (slots_recycle p (lane_queue cls (dq_lanes q ! k))) q"
    by (simp add: dq_recycle_def get_lane [OF inv] k)
  show "dq_inv (owe k cls n owed) (dq_recycle k cls p q)"
    unfolding r by (rule put_slots_inv [OF inv k]) (simp add: assms(3) slots_total_def slots_recycle_def)
  show "contents (dq_recycle k cls p q) = contents q"
    unfolding r by (intro ext, subst contents_put_slots [OF inv k])
      (use k dq_inv_lanes [OF inv] in \<open>simp add: slots_recycle_def contents_def\<close>)
qed

lemma clear_inv:
  assumes inv: "dq_inv owed q"
  shows "dq_inv owed (dq_clear k q)"
    and "contents (dq_clear k q) j c = (if j = k then [] else contents q j c)"
proof -
  have "dq_inv owed (dq_clear k q) \<and> contents (dq_clear k q) j c = (if j = k then [] else contents q j c)"
  proof (cases "k < 256")
    case False
    then show ?thesis using inv by (auto simp: dq_clear_def get_lane [OF inv] contents_def dq_inv_lanes)
  next
    case True
    have r: "dq_clear k q = q\<lparr>dq_lanes := (dq_lanes q)[k := lane_clear_pending (dq_lanes q ! k)]\<rparr>"
      using True by (simp add: dq_clear_def get_lane [OF inv])
    have "lane_ok (owed k) (lane_clear_pending (dq_lanes q ! k))"
      using dq_inv_lane [OF inv True]
      by (simp add: lane_ok_def lane_capacity_def slots_total_def slots_clear_pending_def)
    then show ?thesis
      unfolding r using dq_inv_set_lane [OF inv True, of _ owed] contents_set_lane [OF inv True]
      by (simp add: slots_clear_pending_def)
  qed
  then show "dq_inv owed (dq_clear k q)"
    and "contents (dq_clear k q) j c = (if j = k then [] else contents q j c)" by blast+
qed

section \<open>The round robin\<close>

definition ring_key :: "packet_class \<Rightarrow> downlink_queue \<Rightarrow> nat \<Rightarrow> nat" where
  "ring_key cls q i = dq_ring cls q ! ((dq_cursor cls q + i) mod length (dq_ring cls q))"

definition idle_key :: "packet_class \<Rightarrow> downlink_queue \<Rightarrow> nat \<Rightarrow> bool" where
  "idle_key cls q k \<longleftrightarrow> sl_pending (lane_queue cls (dq_lanes q ! k)) = []"

definition take_from :: "packet_class \<Rightarrow> nat \<Rightarrow> downlink_queue \<Rightarrow> downlink_queue" where
  "take_from cls k q =
     put_slots k cls ((lane_queue cls (dq_lanes q ! k))
       \<lparr>sl_pending := tl (sl_pending (lane_queue cls (dq_lanes q ! k)))\<rparr>) q"

lemma set_dq_cursor_twice [simp]: "set_dq_cursor cls a (set_dq_cursor cls b q) = set_dq_cursor cls a q"
  by (cases cls) simp_all

lemma set_dq_cursor_same [simp]: "set_dq_cursor cls (dq_cursor cls q) q = q"
  by (cases cls) simp_all

lemma idle_key_set_cursor [simp]: "idle_key cls (set_dq_cursor d c q) k = idle_key cls q k"
  by (simp add: idle_key_def)

lemma next_key_advance:
  assumes "dq_cursor cls q < length (dq_ring cls q)"
  shows "next_key cls q = (Some (ring_key cls q 0),
    set_dq_cursor cls ((dq_cursor cls q + 1) mod length (dq_ring cls q)) q)"
  using assms by (auto simp: next_key_def get_at_def ring_key_def Let_def mod_Suc)

lemma ring_key_advance:
  "ring_key cls (set_dq_cursor cls ((dq_cursor cls q + 1) mod length (dq_ring cls q)) q) i
    = ring_key cls q (Suc i)"
  by (simp add: ring_key_def mod_add_left_eq)

text \<open>The loop serves the first lane of the ring, from the cursor on, that has a
  packet of the class, and leaves the cursor behind it.\<close>

lemma dequeue_loop_spec:
  assumes "dq_cursor cls q < length (dq_ring cls q)"
  shows "(\<forall>i < n. idle_key cls q (ring_key cls q i)) \<and>
      dequeue_loop n cls q = (None, set_dq_cursor cls ((dq_cursor cls q + n) mod length (dq_ring cls q)) q)
    \<or> (\<exists>i < n. (\<forall>j < i. idle_key cls q (ring_key cls q j)) \<and> \<not> idle_key cls q (ring_key cls q i) \<and>
      dequeue_loop n cls q =
        (Some (ring_key cls q i, hd (sl_pending (lane_queue cls (dq_lanes q ! ring_key cls q i)))),
         take_from cls (ring_key cls q i)
           (set_dq_cursor cls ((dq_cursor cls q + Suc i) mod length (dq_ring cls q)) q)))"
  using assms
proof (induction n arbitrary: q)
  case 0
  then show ?case by simp
next
  case (Suc n)
  let ?m = "length (dq_ring cls q)"
  define q1 where "q1 = set_dq_cursor cls ((dq_cursor cls q + 1) mod ?m) q"
  have key: "next_key cls q = (Some (ring_key cls q 0), q1)"
    unfolding q1_def by (rule next_key_advance [OF Suc.prems])
  have lanes: "dq_lanes q1 = dq_lanes q" "dq_ring cls q1 = dq_ring cls q"
    "dq_cursor cls q1 = (dq_cursor cls q + 1) mod ?m" by (simp_all add: q1_def)
  show ?case
  proof (cases "idle_key cls q (ring_key cls q 0)")
    case False
    then have "dequeue_loop (Suc n) cls q =
        (Some (ring_key cls q 0, hd (sl_pending (lane_queue cls (dq_lanes q ! ring_key cls q 0)))),
         take_from cls (ring_key cls q 0) q1)"
      by (auto simp: key lanes idle_key_def slots_dequeue_def take_from_def split: list.split)
    then show ?thesis using False by (intro disjI2 exI [of _ 0]) (simp add: q1_def)
  next
    case True
    then have loop: "dequeue_loop (Suc n) cls q = dequeue_loop n cls q1"
      by (simp add: key lanes idle_key_def slots_dequeue_def)
    have "dq_cursor cls q1 < length (dq_ring cls q1)"
      unfolding lanes using Suc.prems by (intro mod_less_divisor) auto
    note IH = Suc.IH [OF this]
    have adv: "ring_key cls q1 i = ring_key cls q (Suc i)" "idle_key cls q1 k = idle_key cls q k" for i k
      unfolding q1_def by (simp_all add: ring_key_advance del: One_nat_def)
    have cur: "set_dq_cursor cls ((dq_cursor cls q1 + i) mod ?m) q1
        = set_dq_cursor cls ((dq_cursor cls q + Suc i) mod ?m) q" for i
      unfolding lanes by (simp add: q1_def mod_add_left_eq)
    have split: "(\<forall>i < Suc k. idle_key cls q (ring_key cls q i)) \<longleftrightarrow>
        (\<forall>i < k. idle_key cls q (ring_key cls q (Suc i)))" for k
      using True by (simp add: All_less_Suc2)
    from IH [unfolded adv lanes(1,2) cur] show ?thesis
    proof (elim disjE exE conjE)
      fix i
      assume i: "i < n" "\<forall>j<i. idle_key cls q (ring_key cls q (Suc j))"
        and rest: "\<not> idle_key cls q (ring_key cls q (Suc i))"
          "dequeue_loop n cls q1 = (Some (ring_key cls q (Suc i),
            hd (sl_pending (lane_queue cls (dq_lanes q ! ring_key cls q (Suc i))))),
            take_from cls (ring_key cls q (Suc i))
              (set_dq_cursor cls ((dq_cursor cls q + Suc (Suc i)) mod ?m) q))"
      show ?thesis
        unfolding loop
        by (intro disjI2 exI [of _ "Suc i"] conjI rest) (use i split in simp_all)
    qed (simp only: loop split, blast)
  qed
qed

lemma ring_positions:
  assumes "c < m" and "i < (m::nat)"
  obtains j where "j < m" and "(c + j) mod m = i"
proof -
  let ?j = "if c \<le> i then i - c else m + i - c"
  have "c + ?j = i \<or> c + ?j = m + i" using assms by auto
  then have "(c + ?j) mod m = i" using assms(2) by (auto simp: mod_add_left_eq)
  moreover have "?j < m" using assms by auto
  ultimately show thesis using that by blast
qed

lemma take_from_inv:
  assumes inv: "dq_inv owed q" and k: "k < 256" and "\<not> idle_key cls q k"
  shows "dq_inv (owe k cls (Suc (owed k cls)) owed) (take_from cls k q)"
    and "contents (take_from cls k q) j c = (if j = k \<and> c = cls then tl (contents q j c) else contents q j c)"
proof -
  let ?s = "lane_queue cls (dq_lanes q ! k)"
  have "sl_pending ?s \<noteq> []" using assms(3) by (simp add: idle_key_def)
  then show "dq_inv (owe k cls (Suc (owed k cls)) owed) (take_from cls k q)"
    unfolding take_from_def by (intro put_slots_inv [OF inv k]) (cases "sl_pending ?s"; simp add: slots_total_def)
  show "contents (take_from cls k q) j c = (if j = k \<and> c = cls then tl (contents q j c) else contents q j c)"
    unfolding take_from_def contents_put_slots [OF inv k]
    using k dq_inv_lanes [OF inv] by (simp add: contents_def map_tl)
qed

lemma set_cursor_inv:
  assumes "dq_inv owed q" and "c < max (length (dq_ring cls q)) 1"
  shows "dq_inv owed (set_dq_cursor cls c q)" and "contents (set_dq_cursor cls c q) = contents q"
  using assms by (auto simp: dq_inv_def rings_ok_def contents_def fun_eq_iff)

lemma idle_contents: "dq_inv owed q \<Longrightarrow> k < 256 \<Longrightarrow> idle_key cls q k \<longleftrightarrow> contents q k cls = []"
  by (simp add: idle_key_def contents_def dq_inv_lanes)

lemma ring_key_active:
  assumes "dq_inv owed q" and "dq_ring cls q \<noteq> []"
  shows "ring_key cls q i < 256" and "la_active_paths (dq_lanes q ! ring_key cls q i) \<noteq> 0"
proof -
  have "ring_key cls q i \<in> set (dq_ring cls q)"
    unfolding ring_key_def using assms(2) by (intro nth_mem) simp
  then have "ring_key cls q i \<in> set (ring_of cls (dq_lanes q))"
    using dq_inv_rings [OF assms(1)] by (simp add: rings_ok_def)
  then show "ring_key cls q i < 256" and "la_active_paths (dq_lanes q ! ring_key cls q i) \<noteq> 0"
    using dq_inv_lanes [OF assms(1)] by (simp_all add: set_ring_of)
qed

text \<open>A dequeue takes the oldest packet of a lane, and finds one whenever there is
  a packet of the class.\<close>

lemma dequeue_empty_ring:
  assumes inv: "dq_inv owed q" and ring: "dq_ring cls q = []"
  shows "dq_dequeue cls q = (None, q)" and "contents q k cls = []"
proof -
  show "dq_dequeue cls q = (None, q)" using ring by (simp add: dq_dequeue_def ring_len_def)
  have "set (ring_of cls (dq_lanes q)) = {}"
    using dq_inv_rings [OF inv] ring by (simp add: rings_ok_def)
  then show "contents q k cls = []"
    using inactive_lane_empty [OF inv, of k cls] dq_inv_lanes [OF inv]
    by (cases "k < 256") (auto simp: set_ring_of contents_def)
qed

lemma ring_cursor:
  assumes inv: "dq_inv owed q"
  shows "dq_ring cls q = ring_of cls (dq_lanes q)"
    and "dq_ring cls q \<noteq> [] \<Longrightarrow> dq_cursor cls q < length (dq_ring cls q)"
proof -
  have r: "dq_ring cls q = ring_of cls (dq_lanes q)"
    and c: "dq_cursor cls q < max (length (ring_of cls (dq_lanes q))) 1"
    using dq_inv_rings [OF inv] unfolding rings_ok_def by blast+
  show "dq_ring cls q = ring_of cls (dq_lanes q)" by (rule r)
  show "dq_cursor cls q < length (dq_ring cls q)" if "dq_ring cls q \<noteq> []"
  proof -
    have "0 < length (dq_ring cls q)" using that by simp
    then show ?thesis using c unfolding r [symmetric] by linarith
  qed
qed

lemma ring_covers_active:
  assumes inv: "dq_inv owed q" and "k < 256" and "contents q k cls \<noteq> []"
  obtains i where "i < ring_len cls q" and "ring_key cls q i = k"
proof -
  have "k \<in> set (dq_ring cls q)"
    using inactive_lane_empty [OF inv assms(2)] assms(2,3) dq_inv_lanes [OF inv]
    by (auto simp: ring_cursor(1) [OF inv] set_ring_of)
  then obtain p where p: "p < length (dq_ring cls q)" "dq_ring cls q ! p = k"
    by (auto simp: in_set_conv_nth)
  then have "dq_cursor cls q < length (dq_ring cls q)" using ring_cursor(2) [OF inv, of cls] by fastforce
  then obtain i where "i < length (dq_ring cls q)" "(dq_cursor cls q + i) mod length (dq_ring cls q) = p"
    using p(1) ring_positions by blast
  then show thesis using that p(2) by (simp add: ring_len_def ring_key_def)
qed

lemma dequeue_cases:
  assumes inv: "dq_inv owed q"
  obtains (none) q' where "dq_dequeue cls q = (None, q')" and "dq_inv owed q'"
      and "contents q' = contents q" and "\<And>k. contents q k cls = []"
  | (some) k p q' where "dq_dequeue cls q = (Some (k, p), q')" and "k < 256"
      and "la_active_paths (dq_lanes q ! k) \<noteq> 0"
      and "dq_inv (owe k cls (Suc (owed k cls)) owed) q'"
      and "contents q k cls = buffer_slice p # contents q' k cls"
      and "\<And>j c. \<not> (j = k \<and> c = cls) \<Longrightarrow> contents q' j c = contents q j c"
proof (cases "dq_ring cls q = []")
  case True
  then show thesis using none [OF _ inv] dequeue_empty_ring [OF inv True] by blast
next
  case False
  let ?m = "length (dq_ring cls q)"
  note cursor = ring_cursor(2) [OF inv False]
  have mod: "n mod ?m < max ?m 1" for n
    using False mod_less_divisor [of ?m n] by (simp add: less_max_iff_disj)
  from dequeue_loop_spec [OF cursor, of ?m] show thesis
  proof (elim disjE exE conjE)
    assume idle: "\<forall>i < ?m. idle_key cls q (ring_key cls q i)"
      and loop: "dequeue_loop ?m cls q = (None, set_dq_cursor cls ((dq_cursor cls q + ?m) mod ?m) q)"
    have "contents q k cls = []" for k
    proof (rule ccontr)
      assume "contents q k cls \<noteq> []"
      moreover from this have "k < 256" using dq_inv_lanes [OF inv] by (simp add: contents_def split: if_splits)
      ultimately obtain i where "i < ?m" "ring_key cls q i = k"
        using ring_covers_active [OF inv] unfolding ring_len_def by blast
      then show False
        using idle idle_contents [OF inv \<open>k < 256\<close>] \<open>contents q k cls \<noteq> []\<close> by blast
    qed
    then show thesis
      using none loop set_cursor_inv [OF inv mod] by (simp add: dq_dequeue_def ring_len_def)
  next
    fix i
    let ?k = "ring_key cls q i" and ?q = "set_dq_cursor cls ((dq_cursor cls q + Suc i) mod ?m) q"
    assume busy: "\<not> idle_key cls q ?k"
      and loop: "dequeue_loop ?m cls q =
        (Some (?k, hd (sl_pending (lane_queue cls (dq_lanes q ! ?k)))), take_from cls ?k ?q)"
    note active = ring_key_active [OF inv False, of i]
    note inv' = set_cursor_inv(1) [OF inv mod]
    have busy': "\<not> idle_key cls ?q ?k" using busy by simp
    note taken = take_from_inv [OF inv' active(1) busy']
    have "contents q ?k cls = buffer_slice (hd (sl_pending (lane_queue cls (dq_lanes q ! ?k)))) # tl (contents q ?k cls)"
      using busy active(1) dq_inv_lanes [OF inv] by (auto simp: contents_def idle_key_def neq_Nil_conv)
    moreover have rest: "contents (take_from cls ?k ?q) j c =
        (if j = ?k \<and> c = cls then tl (contents q j c) else contents q j c)" for j c
      unfolding taken(2) set_cursor_inv(2) [OF inv mod] by (rule refl)
    moreover have "dq_dequeue cls q = (Some (?k, hd (sl_pending (lane_queue cls (dq_lanes q ! ?k)))),
        take_from cls ?k ?q)"
      using loop by (simp add: dq_dequeue_def ring_len_def)
    ultimately show thesis
      by (intro some [OF _ active taken(1)]) (simp_all only: rest simp_thms if_True if_False)
  qed
qed

section \<open>Fairness\<close>

text \<open>The lanes served by consecutive dequeues whose packets are recycled.\<close>

fun serve_keys :: "nat \<Rightarrow> packet_class \<Rightarrow> downlink_queue \<Rightarrow> nat list" where
  "serve_keys 0 cls q = []"
| "serve_keys (Suc n) cls q =
     (case dq_dequeue cls q of
        (None, q') \<Rightarrow> []
      | (Some (k, p), q') \<Rightarrow> k # serve_keys n cls (dq_recycle k cls p q'))"

lemma put_slots_rings [simp]:
  "dq_ring c (put_slots k cls s q) = dq_ring c q" "dq_cursor c (put_slots k cls s q) = dq_cursor c q"
  by (simp_all add: put_slots_def)

lemma dequeue_busy:
  assumes inv: "dq_inv owed q" and ring: "dq_ring cls q \<noteq> []"
    and busy: "\<not> idle_key cls q (ring_key cls q 0)"
  shows "dq_dequeue cls q =
    (Some (ring_key cls q 0, hd (sl_pending (lane_queue cls (dq_lanes q ! ring_key cls q 0)))),
     take_from cls (ring_key cls q 0)
       (set_dq_cursor cls ((dq_cursor cls q + 1) mod length (dq_ring cls q)) q))"
proof -
  obtain n where n: "ring_len cls q = Suc n" using ring by (cases "dq_ring cls q") (auto simp: ring_len_def)
  show ?thesis
    using busy next_key_advance [OF ring_cursor(2) [OF inv ring]] unfolding dq_dequeue_def n
    by (auto simp: idle_key_def slots_dequeue_def take_from_def split: list.split)
qed

lemma serve_keys_ring:
  assumes "dq_inv nothing_owed q" and "dq_ring cls q \<noteq> []"
    and "\<And>k. count_list (map (ring_key cls q) [0..<n]) k \<le> length (contents q k cls)"
  shows "serve_keys n cls q = map (ring_key cls q) [0..<n]"
  using assms
proof (induction n arbitrary: q)
  case 0
  then show ?case by simp
next
  case (Suc n)
  let ?k = "ring_key cls q 0" and ?m = "length (dq_ring cls q)"
  let ?p = "hd (sl_pending (lane_queue cls (dq_lanes q ! ?k)))"
  let ?q = "set_dq_cursor cls ((dq_cursor cls q + 1) mod ?m) q"
  define r where "r = dq_recycle ?k cls ?p (take_from cls ?k ?q)"
  have upt: "map (ring_key cls q) [0..<Suc n] = ?k # map (\<lambda>i. ring_key cls q (Suc i)) [0..<n]"
    by (simp add: upt_conv_Cons map_Suc_upt [symmetric] del: upt_Suc)
  have k: "?k < 256" by (rule ring_key_active [OF Suc.prems(1,2)])
  have "0 < length (contents q ?k cls)" using Suc.prems(3) [of ?k] unfolding upt by fastforce
  then have busy: "\<not> idle_key cls q ?k" using idle_contents [OF Suc.prems(1) k] by auto
  have mod: "(dq_cursor cls q + 1) mod ?m < max ?m 1"
    using Suc.prems(2) mod_less_divisor [of ?m] by (simp add: less_max_iff_disj)
  note cur = set_cursor_inv [OF Suc.prems(1) mod]
  have busy': "\<not> idle_key cls ?q ?k" using busy by simp
  note taken = take_from_inv [OF cur(1) k busy']
  have owed: "owe ?k cls (Suc 0) nothing_owed ?k cls = Suc 0" by simp
  note rec = recycle_inv [OF taken(1) k owed]
  have "owe ?k cls 0 nothing_owed = nothing_owed" using owe_simps(3) [of ?k cls nothing_owed] by simp
  then have inv_r: "dq_inv nothing_owed r" using rec(1) [of ?p] by (simp add: r_def)
  have ring_r: "dq_ring cls r = dq_ring cls q" "dq_cursor cls r = (dq_cursor cls q + 1) mod ?m"
    unfolding r_def by (simp_all add: dq_recycle_def take_from_def split: option.split)
  have key_r: "ring_key cls r i = ring_key cls q (Suc i)" for i
    unfolding ring_key_def ring_r by (simp add: mod_add_left_eq)
  have "count_list (map (ring_key cls r) [0..<n]) k \<le> length (contents r k cls)" for k
    using Suc.prems(3) [of k] unfolding upt key_r unfolding r_def rec(2) taken(2) cur(2)
    by (auto split: if_splits)
  then have "serve_keys n cls r = map (ring_key cls r) [0..<n]"
    using Suc.IH [OF inv_r] Suc.prems(2) ring_r(1) by simp
  then show ?case
    using dequeue_busy [OF Suc.prems(1,2) busy] unfolding upt key_r by (simp add: r_def)
qed

lemma ring_keys_rotate:
  assumes "dq_inv owed q" and "dq_ring cls q \<noteq> []"
  shows "map (ring_key cls q) [0..<ring_len cls q] = rotate (dq_cursor cls q) (dq_ring cls q)"
  by (rule nth_equalityI) (simp_all add: ring_len_def ring_key_def nth_rotate)

lemma count_list_rotate: "count_list (rotate n xs) k = count_list xs k"
proof (induction n)
  case (Suc n)
  have "count_list (rotate1 ys) k = count_list ys k" for ys :: "'a list"
    by (cases ys) auto
  then show ?case using Suc by simp
qed simp

lemma count_list_replicate: "count_list (replicate n x) k = (if x = k then n else 0)"
  by (induction n) auto

lemma count_list_distinct: "distinct xs \<Longrightarrow> count_list xs k = (if k \<in> set xs then 1 else 0)"
  by (induction xs) auto

lemma count_concat_replicate:
  assumes "distinct ks"
  shows "count_list (concat (map (\<lambda>k. replicate (f k) k) ks)) k = (if k \<in> set ks then f k else 0)"
  using assms by (induction ks) (auto simp: count_list_replicate)

text \<open>How often a lane stands on the ring of a class.\<close>

fun lane_weight :: "packet_class \<Rightarrow> nat \<Rightarrow> nat" where
  "lane_weight Bulk paths = paths"
| "lane_weight cls paths = (if paths = 0 then 0 else 1)"

lemma count_ring_of:
  "k < length ls \<Longrightarrow> count_list (ring_of cls ls) k = lane_weight cls (la_active_paths (ls ! k))"
  "\<not> k < length ls \<Longrightarrow> count_list (ring_of cls ls) k = 0"
proof -
  have d: "distinct (active_keys ls)" by (simp add: active_keys_def)
  show "k < length ls \<Longrightarrow> count_list (ring_of cls ls) k = lane_weight cls (la_active_paths (ls ! k))"
    using d by (cases cls) (auto simp: count_list_distinct weighted_keys_def count_concat_replicate active_keys_def)
  show "\<not> k < length ls \<Longrightarrow> count_list (ring_of cls ls) k = 0"
    using set_ring_of [of cls ls] by (simp add: count_list_0_iff)
qed

section \<open>Properties\<close>

text \<open>C12: The queue implements one first-in-first-out queue per client and class, of the capacity
  its profile gives. Offering a packet succeeds exactly when the lane has room and the packet fits a
  slot, and then appends it to this queue and no other; taking a packet of a class fails exactly when
  no client has one, and otherwise removes the oldest packet of one client; configuring a lane keeps a
  prefix of its packets and clearing it empties it, and neither touches another lane. Every operation
  accounts for all slots of all lanes.\<close>

theorem downlink_queue_refines_fifos:
  assumes inv: "dq_inv owed q" and "owed key = (\<lambda>_. 0)"
  shows "(case dq_enqueue k cls packet q of (ok, q') \<Rightarrow>
        dq_inv owed q'
        \<and> (ok \<longleftrightarrow> k < 256 \<and> length packet \<le> SERVER_PACKET_CAPACITY
              \<and> length (contents q k cls) + owed k cls < lane_capacity cls (dq_lanes q ! k))
        \<and> (\<forall>j c. contents q' j c = contents q j c @ (if ok \<and> j = k \<and> c = cls then [packet] else [])))
    \<and> (case dq_dequeue cls q of
        (None, q') \<Rightarrow> dq_inv owed q' \<and> contents q' = contents q \<and> (\<forall>j. contents q j cls = [])
      | (Some (j, p), q') \<Rightarrow>
          dq_inv (owe j cls (Suc (owed j cls)) owed) q'
          \<and> contents q j cls = buffer_slice p # contents q' j cls
          \<and> (\<forall>i c. i = j \<and> c = cls \<or> contents q' i c = contents q i c))
    \<and> (dq_inv owed (dq_configure key paths q)
        \<and> (\<forall>j c. \<exists>m. contents (dq_configure key paths q) j c
              = (if j = key then take m (contents q j c) else contents q j c)))
    \<and> (dq_inv owed (dq_clear k q)
        \<and> (\<forall>j c. contents (dq_clear k q) j c = (if j = k then [] else contents q j c)))"
proof (intro conjI)
  obtain ok q' where e: "dq_enqueue k cls packet q = (ok, q')" by (rule prod.exhaust)
  show "(case dq_enqueue k cls packet q of (ok, q') \<Rightarrow>
      dq_inv owed q'
      \<and> (ok \<longleftrightarrow> k < 256 \<and> length packet \<le> SERVER_PACKET_CAPACITY
            \<and> length (contents q k cls) + owed k cls < lane_capacity cls (dq_lanes q ! k))
      \<and> (\<forall>j c. contents q' j c = contents q j c @ (if ok \<and> j = k \<and> c = cls then [packet] else [])))"
    unfolding e prod.case using enqueue_inv [OF inv e] by blast
  show "(case dq_dequeue cls q of
        (None, q') \<Rightarrow> dq_inv owed q' \<and> contents q' = contents q \<and> (\<forall>j. contents q j cls = [])
      | (Some (j, p), q') \<Rightarrow>
          dq_inv (owe j cls (Suc (owed j cls)) owed) q'
          \<and> contents q j cls = buffer_slice p # contents q' j cls
          \<and> (\<forall>i c. i = j \<and> c = cls \<or> contents q' i c = contents q i c))"
    by (rule dequeue_cases [OF inv, of cls]) auto
qed (use assms(2) configure_inv [OF inv] configure_contents [OF inv] clear_inv [OF inv] in blast)+

definition example_queue :: downlink_queue where
  "example_queue = snd (dq_enqueue 2 Bulk [69] (dq_configure 2 1 downlink_default))"

lemma example_configured:
  "dq_inv nothing_owed (dq_configure 2 1 downlink_default)"
  "la_active_paths (dq_lanes (dq_configure 2 1 downlink_default) ! 2) = 1"
  "k < 256 \<Longrightarrow> k \<noteq> 2 \<Longrightarrow> la_active_paths (dq_lanes (dq_configure 2 1 downlink_default) ! k) = 0"
  "contents (dq_configure 2 1 downlink_default) j cls = []"
proof -
  let ?q = "dq_configure 2 1 downlink_default"
  show "dq_inv nothing_owed ?q" by (rule configure_inv [OF default_inv refl])
  have default: "dq_lanes downlink_default ! k = lane_default" if "k < 256" for k
    using that unfolding downlink_default_def downlink_queue.simps by (rule nth_replicate)
  have clip: "clip_paths 1 = 1"
    by (simp add: clip_paths_def PRIORITY_MAX_SLOTS_def PRIORITY_SLOTS_PER_PATH_def)
  have lanes: "dq_lanes ?q = (dq_lanes downlink_default)[2 := lane_configure 1 lane_default]"
    unfolding dq_configure_def get_lane [OF default_inv] default [of 2, simplified]
    by (simp add: clip rebuild_rings_def Let_def lane_default_def del: One_nat_def)
  show "la_active_paths (dq_lanes ?q ! 2) = 1"
    unfolding lanes using dq_inv_lanes [OF default_inv] clip by (simp add: lane_configure_def Let_def del: One_nat_def)
  show "la_active_paths (dq_lanes ?q ! k) = 0" if "k < 256" "k \<noteq> 2" for k
    unfolding lanes using that dq_inv_lanes [OF default_inv] by (simp add: default lane_default_def)
  have "contents downlink_default j cls = []" for j cls
    by (cases "j < 256"; cases cls)
      (simp_all add: contents_def default dq_inv_lanes [OF default_inv] lane_default_def slots_default_def)
  then show "contents ?q j cls = []"
    using configure_contents [OF default_inv, of 2 1 j cls] by (auto split: if_splits)
qed

lemma example_queue_ok:
  "dq_inv nothing_owed example_queue"
  "k < 256 \<Longrightarrow> la_active_paths (dq_lanes example_queue ! k) = (if k = 2 then 1 else 0)"
  "contents example_queue j c = (if j = 2 \<and> c = Bulk then [[69]] else [])"
proof -
  let ?q = "dq_configure 2 1 downlink_default"
  obtain ok q' where e: "dq_enqueue 2 Bulk [69] ?q = (ok, q')" by (rule prod.exhaust)
  have q': "example_queue = q'" unfolding example_queue_def e by (rule snd_conv)
  note spec = enqueue_inv [OF example_configured(1) e]
  have "lane_capacity Bulk (dq_lanes ?q ! 2) = 72"
    unfolding lane_capacity_def example_configured(2)
    by (simp add: profile_for_active_paths_def clip_paths_def Let_def
        clamp_def BULK_MIN_SLOTS_def BULK_MAX_SLOTS_def BULK_SLOTS_PER_PATH_def
        PRIORITY_MAX_SLOTS_def PRIORITY_SLOTS_PER_PATH_def)
  then have ok using spec(2) by (simp add: example_configured(4) SERVER_PACKET_CAPACITY_def del: One_nat_def)
  then show "contents example_queue j c = (if j = 2 \<and> c = Bulk then [[69]] else [])"
    unfolding q' spec(3) example_configured(4) by simp
  show "dq_inv nothing_owed example_queue" unfolding q' by (rule spec(1))
  have "map la_active_paths (dq_lanes q') = map la_active_paths (dq_lanes ?q)"
    using e dq_inv_lanes [OF example_configured(1)] example_configured(2)
    unfolding dq_enqueue_def get_lane [OF example_configured(1)]
    by (auto split: prod.splits intro!: map_active_update)
  then show "la_active_paths (dq_lanes example_queue ! k) = (if k = 2 then 1 else 0)" if "k < 256"
    unfolding q' using that example_configured(2,3) dq_inv_lanes [OF spec(1)]
      dq_inv_lanes [OF example_configured(1)] by (metis nth_map)
qed

theorem downlink_queue_refines_fifos_witness:
  "(case dq_enqueue 2 Bulk [70] example_queue of (ok, q') \<Rightarrow>
        dq_inv nothing_owed q'
        \<and> (ok \<longleftrightarrow> (2::nat) < 256 \<and> length [70 :: u8] \<le> SERVER_PACKET_CAPACITY
              \<and> length (contents example_queue 2 Bulk) + 0 < lane_capacity Bulk (dq_lanes example_queue ! 2)))
   \<and> dq_inv nothing_owed (dq_configure 2 7 example_queue)
   \<and> contents (dq_clear 2 example_queue) 2 Bulk = []"
  using downlink_queue_refines_fifos [where key = 2 and k = 2 and cls = Bulk and packet = "[70]" and paths = 7,
      OF example_queue_ok(1) refl]
  by (auto split: prod.splits)

text \<open>C28: The round robin is weighted by the number of active paths. When every lane has at
  least as many packets of a class as it has places on the ring of this class, one turn of the ring
  serves each client exactly as often as it stands on it: as often as it has active paths for bulk
  packets, and once for the other classes.\<close>

theorem egress_round_robin_is_weighted:
  assumes inv: "dq_inv nothing_owed q"
    and busy: "\<forall>k < 256. lane_weight cls (la_active_paths (dq_lanes q ! k)) \<le> length (contents q k cls)"
  shows "length (serve_keys (ring_len cls q) cls q) = ring_len cls q
    \<and> (\<forall>k < 256. count_list (serve_keys (ring_len cls q) cls q) k
          = lane_weight cls (la_active_paths (dq_lanes q ! k)))"
proof -
  have served: "serve_keys (ring_len cls q) cls q = rotate (dq_cursor cls q) (dq_ring cls q)"
  proof (cases "dq_ring cls q = []")
    case False
    have "count_list (map (ring_key cls q) [0..<ring_len cls q]) k \<le> length (contents q k cls)" for k
      unfolding ring_keys_rotate [OF inv False] count_list_rotate ring_cursor(1) [OF inv]
      using busy count_ring_of [of k "dq_lanes q" cls] dq_inv_lanes [OF inv] by (cases "k < 256") auto
    then show ?thesis using serve_keys_ring [OF inv False] ring_keys_rotate [OF inv False] by simp
  qed (simp add: ring_len_def)
  show ?thesis
    unfolding served count_list_rotate
    using dq_inv_lanes [OF inv] ring_cursor(1) [OF inv, of cls] by (simp add: count_ring_of ring_len_def)
qed

theorem egress_round_robin_is_weighted_witness:
  "count_list (serve_keys (ring_len Bulk example_queue) Bulk example_queue) 2 = 1
   \<and> length (serve_keys (ring_len Bulk example_queue) Bulk example_queue) = ring_len Bulk example_queue"
  using egress_round_robin_is_weighted [OF example_queue_ok(1), of Bulk]
  by (simp add: example_queue_ok(2,3))

end
