(* ===== verification/Packet_Sink.thy ===== *)
theory Packet_Sink
  imports Packet_Class Packet_Pool Stream_Frames "HOL-Library.Sublist"
begin

text \<open>
  The transmit side of the server's dataplane (\<open>rust-server/tokio_io.rs\<close>): the
  slots of the UDP socket and of the network device, their queues per packet
  class, and the flushes that hand them to the kernel. The results of the system
  calls are arguments.
\<close>

section \<open>Counters and slots\<close>

definition MAX_DATAGRAMS :: nat where
  "MAX_DATAGRAMS = 100"

definition MIN_DATAGRAMS :: nat where
  "MIN_DATAGRAMS = 16"

definition PRIORITY_DATAGRAMS :: nat where
  "PRIORITY_DATAGRAMS = MIN_DATAGRAMS"

definition FEC_TX_SLOT_RESERVE :: nat where
  "FEC_TX_SLOT_RESERVE = 32"

definition URGENCY_FLUSH_SYSCALLS :: nat where
  "URGENCY_FLUSH_SYSCALLS = 1"

record io_counters =
  udp_tx_packets :: u64
  udp_tx_bytes :: u64
  udp_tx_errors :: u64
  udp_tx_drops :: u64
  udp_tx_eagain :: u64
  udp_tx_enobufs :: u64
  partial_sendmmsg :: u64
  tun_tx_packets :: u64
  tun_tx_bytes :: u64
  tun_tx_errors :: u64
  tun_tx_drops :: u64

definition counters_default :: io_counters where
  "counters_default =
     \<lparr>udp_tx_packets = 0, udp_tx_bytes = 0, udp_tx_errors = 0, udp_tx_drops = 0, udp_tx_eagain = 0,
      udp_tx_enobufs = 0, partial_sendmmsg = 0, tun_tx_packets = 0, tun_tx_bytes = 0,
      tun_tx_errors = 0, tun_tx_drops = 0\<rparr>"

type_synonym peer = "ip_addr \<times> u16"

record udp_slot =
  us_buffer :: "server_packet_buf option"
  us_peer :: "peer option"
  us_source :: "ip_addr option"

definition udp_slot_new :: udp_slot where
  "udp_slot_new = \<lparr>us_buffer = None, us_peer = None, us_source = None\<rparr>"

text \<open>The source address goes into the control data only between IPv4 addresses, and
  never when it is unspecified.\<close>

definition prepare_current :: "peer \<Rightarrow> ip_addr option \<Rightarrow> udp_slot \<Rightarrow> udp_slot" where
  "prepare_current p source_ip slot =
     slot\<lparr>us_peer := Some p,
          us_source := (case (p, source_ip) of
              ((V4 _ _ _ _, _), Some (V4 a b c d)) \<Rightarrow>
                if v4_unspecified a b c d then None else Some (V4 a b c d)
            | _ \<Rightarrow> None)\<rparr>"

text \<open>Slot numbers are either free or wait in the queue of their class.\<close>

record tx_queue =
  tx_free :: "nat list"
  tx_pending :: "packet_class \<Rightarrow> nat list"

record packet_sink =
  ps_pool :: packet_pool
  ps_udp_tx :: "udp_slot list"
  ps_udp :: tx_queue
  ps_tun_tx :: "server_packet_buf option list"
  ps_tun :: tx_queue
  ps_counters :: io_counters
  ps_tun_fatal :: bool
  ps_urgent_flush :: bool

definition tx_new :: "nat \<Rightarrow> tx_queue" where
  "tx_new n = \<lparr>tx_free = [0..<n], tx_pending = (\<lambda>_. [])\<rparr>"

definition sink_new :: packet_sink where
  "sink_new =
     \<lparr>ps_pool = server_pool_new server_packet_pool_size,
      ps_udp_tx = replicate UDP_TX_SLOTS udp_slot_new, ps_udp = tx_new UDP_TX_SLOTS,
      ps_tun_tx = replicate TUN_TX_SLOTS None, ps_tun = tx_new TUN_TX_SLOTS,
      ps_counters = counters_default, ps_tun_fatal = False, ps_urgent_flush = False\<rparr>"

definition tx_enqueue :: "nat \<Rightarrow> packet_class \<Rightarrow> tx_queue \<Rightarrow> tx_queue" where
  "tx_enqueue slot_id cls t =
     t\<lparr>tx_pending := (tx_pending t)(cls := tx_pending t cls @ [slot_id])\<rparr>"

definition tx_len :: "tx_queue \<Rightarrow> nat" where
  "tx_len t = length (tx_pending t Latency) + length (tx_pending t Priority) + length (tx_pending t Bulk)"

definition front_class :: "tx_queue \<Rightarrow> packet_class" where
  "front_class t =
     (if tx_pending t Latency \<noteq> [] then Latency
      else if tx_pending t Priority \<noteq> [] then Priority else Bulk)"

definition front_pending :: "tx_queue \<Rightarrow> nat option" where
  "front_pending t = (case tx_pending t (front_class t) of [] \<Rightarrow> None | i # _ \<Rightarrow> Some i)"

definition pop_pending :: "tx_queue \<Rightarrow> nat option \<times> tx_queue" where
  "pop_pending t =
     (case tx_pending t (front_class t) of
        [] \<Rightarrow> (None, t)
      | i # is \<Rightarrow> (Some i, t\<lparr>tx_pending := (tx_pending t)(front_class t := is)\<rparr>))"

section \<open>Sending\<close>

definition has_udp_tx_slot :: "packet_sink \<Rightarrow> bool" where
  "has_udp_tx_slot s \<longleftrightarrow> tx_free (ps_udp s) \<noteq> []"

definition count_udp_drop :: "packet_sink \<Rightarrow> packet_sink" where
  "count_udp_drop s =
     s\<lparr>ps_counters := (ps_counters s)\<lparr>udp_tx_drops := saturating_add (udp_tx_drops (ps_counters s)) 1\<rparr>\<rparr>"

definition fill_udp_slot ::
  "nat \<Rightarrow> server_packet_buf \<Rightarrow> peer \<Rightarrow> ip_addr option \<Rightarrow> packet_class \<Rightarrow> packet_sink \<Rightarrow> packet_sink" where
  "fill_udp_slot slot_id buffer p source_ip cls s =
     s\<lparr>ps_udp_tx := (ps_udp_tx s)
          [slot_id := prepare_current p source_ip ((ps_udp_tx s ! slot_id)\<lparr>us_buffer := Some buffer\<rparr>)],
       ps_udp := tx_enqueue slot_id cls (ps_udp s)\<rparr>"

text \<open>The copies of a packet that may need a second chance, as long as a reserve
  of slots stays free.\<close>

fun send_copies ::
  "nat \<Rightarrow> bytes \<Rightarrow> peer \<Rightarrow> ip_addr option \<Rightarrow> packet_class \<Rightarrow> packet_sink \<Rightarrow> packet_sink" where
  "send_copies 0 data p source_ip cls s = s"
| "send_copies (Suc n) data p source_ip cls s =
     (case tx_free (ps_udp s) of
        [] \<Rightarrow> s
      | duplicate_id # free \<Rightarrow>
          if \<not> FEC_TX_SLOT_RESERVE < length (tx_free (ps_udp s)) then s
          else case server_try_acquire (ps_pool s) of
            None \<Rightarrow> s
          | Some (buffer, pool) \<Rightarrow>
              (case server_copy_from data buffer of
                 (False, buffer') \<Rightarrow> s\<lparr>ps_pool := server_drop_buf buffer' pool\<rparr>
               | (True, buffer') \<Rightarrow>
                   send_copies n data p source_ip cls
                     (fill_udp_slot duplicate_id buffer' p source_ip cls
                       (s\<lparr>ps_pool := pool, ps_udp := (ps_udp s)\<lparr>tx_free := free\<rparr>\<rparr>))))"

text \<open>\<open>built\<close> is what the packet builder returns when it runs: the datagram it wrote,
  or nothing when it failed. The first result tells whether it ran.\<close>

definition send_udp_with_duplicate_priority ::
  "peer \<Rightarrow> ip_addr option \<Rightarrow> nat \<Rightarrow> packet_class \<Rightarrow> bytes option \<Rightarrow> packet_sink \<Rightarrow> bool \<times> bool \<times> packet_sink" where
  "send_udp_with_duplicate_priority p source_ip extra_copies cls built s =
     (case tx_free (ps_udp s) of
        [] \<Rightarrow> (False, False, count_udp_drop s)
      | slot_id # free \<Rightarrow>
          (case server_try_acquire (ps_pool s) of
             None \<Rightarrow> (False, False, count_udp_drop s)
           | Some (buffer, pool) \<Rightarrow>
               (case built of
                  None \<Rightarrow> (True, False, count_udp_drop (s\<lparr>ps_pool := server_drop_buf buffer pool\<rparr>))
                | Some data \<Rightarrow>
                    (case server_copy_from data buffer of
                       (False, buffer') \<Rightarrow>
                         (True, False, count_udp_drop (s\<lparr>ps_pool := server_drop_buf buffer' pool\<rparr>))
                     | (True, buffer') \<Rightarrow>
                         (True, True, send_copies extra_copies data p source_ip cls
                           (fill_udp_slot slot_id buffer' p source_ip cls
                             (s\<lparr>ps_pool := pool, ps_udp := (ps_udp s)\<lparr>tx_free := free\<rparr>\<rparr>)))))))"

definition request_udp_flush :: "packet_sink \<Rightarrow> packet_sink" where
  "request_udp_flush s = s\<lparr>ps_urgent_flush := True\<rparr>"

definition send_udp :: "peer \<Rightarrow> ip_addr option \<Rightarrow> bytes \<Rightarrow> packet_sink \<Rightarrow> bool \<times> packet_sink" where
  "send_udp p source_ip payload s =
     (case tx_free (ps_udp s) of
        [] \<Rightarrow> (False, count_udp_drop s)
      | slot_id # free \<Rightarrow>
          (case server_try_acquire (ps_pool s) of
             None \<Rightarrow> (False, count_udp_drop s)
           | Some (buffer, pool) \<Rightarrow>
               (case server_copy_from payload buffer of
                  (False, buffer') \<Rightarrow> (False, count_udp_drop (s\<lparr>ps_pool := server_drop_buf buffer' pool\<rparr>))
                | (True, buffer') \<Rightarrow>
                    (True, fill_udp_slot slot_id buffer' p source_ip Bulk
                      (s\<lparr>ps_pool := pool, ps_udp := (ps_udp s)\<lparr>tx_free := free\<rparr>\<rparr>)))))"

text \<open>One write to the network device: written, would block, or failed.\<close>

datatype tun_write = TunWritten | TunBlocked | TunFailed

definition count_tun_drop :: "packet_sink \<Rightarrow> packet_sink" where
  "count_tun_drop s =
     s\<lparr>ps_counters := (ps_counters s)\<lparr>tun_tx_drops := saturating_add (tun_tx_drops (ps_counters s)) 1\<rparr>\<rparr>"

definition count_tun_error :: "packet_sink \<Rightarrow> packet_sink" where
  "count_tun_error s =
     count_tun_drop (s\<lparr>ps_counters := (ps_counters s)
       \<lparr>tun_tx_errors := saturating_add (tun_tx_errors (ps_counters s)) 1\<rparr>\<rparr>)"

definition count_tun_written :: "nat \<Rightarrow> packet_sink \<Rightarrow> packet_sink" where
  "count_tun_written len s =
     s\<lparr>ps_counters := (ps_counters s)
        \<lparr>tun_tx_packets := saturating_add (tun_tx_packets (ps_counters s)) 1,
         tun_tx_bytes := saturating_add (tun_tx_bytes (ps_counters s)) (word_of_nat len)\<rparr>\<rparr>"

definition queue_tun :: "bytes \<Rightarrow> packet_class \<Rightarrow> packet_sink \<Rightarrow> bool \<times> packet_sink" where
  "queue_tun payload cls s =
     (case tx_free (ps_tun s) of
        [] \<Rightarrow> (False, count_tun_drop s)
      | slot_id # free \<Rightarrow>
          (case server_try_acquire (ps_pool s) of
             None \<Rightarrow> (False, count_tun_drop s)
           | Some (buffer, pool) \<Rightarrow>
               (case server_copy_from payload buffer of
                  (False, buffer') \<Rightarrow> (False, count_tun_drop (s\<lparr>ps_pool := server_drop_buf buffer' pool\<rparr>))
                | (True, buffer') \<Rightarrow>
                    (True, s\<lparr>ps_pool := pool, ps_tun_tx := (ps_tun_tx s)[slot_id := Some buffer'],
                             ps_tun := tx_enqueue slot_id cls ((ps_tun s)\<lparr>tx_free := free\<rparr>)\<rparr>))))"

definition write_tun_priority ::
  "tun_write \<Rightarrow> bytes \<Rightarrow> packet_class \<Rightarrow> packet_sink \<Rightarrow> bool \<times> packet_sink" where
  "write_tun_priority io payload cls s =
     (if tx_len (ps_tun s) = 0 then
        (case io of
           TunWritten \<Rightarrow> (True, count_tun_written (length payload) s)
         | TunFailed \<Rightarrow> (False, (count_tun_error s)\<lparr>ps_tun_fatal := True\<rparr>)
         | TunBlocked \<Rightarrow> queue_tun payload cls s)
      else queue_tun payload cls s)"

section \<open>Flushing\<close>

text \<open>One \<open>sendmmsg\<close>: blocked, out of buffers, failed, or the lengths of the datagrams
  the kernel took.\<close>

datatype udp_result = UdpBlocked | UdpNoBuffers | UdpFailed | UdpSent "nat list"

definition batch_limit :: "tx_queue \<Rightarrow> nat" where
  "batch_limit t =
     (case front_class t of Latency \<Rightarrow> 1 | Priority \<Rightarrow> PRIORITY_DATAGRAMS | Bulk \<Rightarrow> MAX_DATAGRAMS)"

definition pending_udp_tx_batch_len :: "nat \<Rightarrow> packet_sink \<Rightarrow> nat" where
  "pending_udp_tx_batch_len limit s =
     length (takeWhile (\<lambda>slot_id. us_buffer (ps_udp_tx s ! slot_id) \<noteq> None)
       (take limit (tx_pending (ps_udp s) (front_class (ps_udp s)))))"

text \<open>Taking the buffer out of a slot returns its storage to the pool.\<close>

definition release_udp_slot :: "nat \<Rightarrow> packet_sink \<Rightarrow> packet_sink" where
  "release_udp_slot slot_id s =
     s\<lparr>ps_pool := (case us_buffer (ps_udp_tx s ! slot_id) of
                    None \<Rightarrow> ps_pool s | Some b \<Rightarrow> server_drop_buf b (ps_pool s)),
       ps_udp_tx := (ps_udp_tx s)[slot_id := (ps_udp_tx s ! slot_id)\<lparr>us_buffer := None\<rparr>],
       ps_udp := (ps_udp s)\<lparr>tx_free := tx_free (ps_udp s) @ [slot_id]\<rparr>\<rparr>"

definition count_udp_error :: "packet_sink \<Rightarrow> packet_sink" where
  "count_udp_error s =
     count_udp_drop (s\<lparr>ps_counters := (ps_counters s)
       \<lparr>udp_tx_errors := saturating_add (udp_tx_errors (ps_counters s)) 1\<rparr>\<rparr>)"

text \<open>The datagrams taken by the kernel leave their slots in the order they were
  queued; \<open>wire\<close> collects them.\<close>

fun complete_sent :: "nat list \<Rightarrow> packet_sink \<Rightarrow> bytes list \<times> packet_sink" where
  "complete_sent [] s = ([], s)"
| "complete_sent (len # lens) s =
     (case pop_pending (ps_udp s) of
        (None, t) \<Rightarrow> ([], s)
      | (Some slot_id, t) \<Rightarrow>
          (case complete_sent lens (release_udp_slot slot_id
             (s\<lparr>ps_counters := (ps_counters s)
                  \<lparr>udp_tx_packets := saturating_add (udp_tx_packets (ps_counters s)) 1,
                   udp_tx_bytes := saturating_add (udp_tx_bytes (ps_counters s)) (word_of_nat len)\<rparr>,
                ps_udp := t\<rparr>)) of
             (wire, s') \<Rightarrow>
               (case us_buffer (ps_udp_tx s ! slot_id) of
                  None \<Rightarrow> (wire, s') | Some b \<Rightarrow> (server_as_slice b # wire, s'))))"

lemma pop_pending_len: "pop_pending t = (Some i, t') \<Longrightarrow> tx_len t = Suc (tx_len t')"
  by (cases "tx_pending t Latency"; cases "tx_pending t Priority")
    (auto simp: pop_pending_def front_class_def tx_len_def split: list.splits)

lemma pop_pending_less: "(Some i, t') = pop_pending t \<Longrightarrow> tx_len t' < tx_len t"
  using pop_pending_len [of t i t'] by simp

lemma tx_len_free [simp]: "tx_len (t\<lparr>tx_free := f\<rparr>) = tx_len t"
  by (simp add: tx_len_def)

lemma count_udp_error_queue [simp]: "ps_udp (count_udp_error s) = ps_udp s"
  by (simp add: count_udp_error_def count_udp_drop_def)

function flush_udp_tx :: "udp_result list \<Rightarrow> nat \<Rightarrow> packet_sink \<Rightarrow> bytes list \<times> packet_sink" where
  "flush_udp_tx io max_syscalls s =
     (if tx_len (ps_udp s) = 0 \<or> max_syscalls = 0 then ([], s)
      else let batch_len = pending_udp_tx_batch_len (batch_limit (ps_udp s)) s in
        if batch_len = 0 then
          (case pop_pending (ps_udp s) of
             (None, t) \<Rightarrow> ([], s)
           | (Some slot_id, t) \<Rightarrow>
               flush_udp_tx io max_syscalls
                 ((count_udp_error s)\<lparr>ps_udp := t\<lparr>tx_free := tx_free t @ [slot_id]\<rparr>\<rparr>))
        else
          (case io of
             [] \<Rightarrow> ([], s)
           | UdpBlocked # rest \<Rightarrow>
               ([], s\<lparr>ps_counters := (ps_counters s)
                 \<lparr>udp_tx_eagain := saturating_add (udp_tx_eagain (ps_counters s)) 1\<rparr>\<rparr>)
           | UdpNoBuffers # rest \<Rightarrow>
               ([], s\<lparr>ps_counters := (ps_counters s)
                 \<lparr>udp_tx_enobufs := saturating_add (udp_tx_enobufs (ps_counters s)) 1\<rparr>\<rparr>)
           | UdpFailed # rest \<Rightarrow>
               (case pop_pending (ps_udp s) of
                  (None, t) \<Rightarrow> flush_udp_tx rest (max_syscalls - 1) (count_udp_error s)
                | (Some slot_id, t) \<Rightarrow>
                    flush_udp_tx rest (max_syscalls - 1)
                      (release_udp_slot slot_id ((count_udp_error s)\<lparr>ps_udp := t\<rparr>)))
           | UdpSent lens # rest \<Rightarrow>
               if lens = [] then
                 ([], s\<lparr>ps_counters := (ps_counters s)
                   \<lparr>udp_tx_eagain := saturating_add (udp_tx_eagain (ps_counters s)) 1\<rparr>\<rparr>)
               else
                 let s1 = (if length lens < batch_len
                   then s\<lparr>ps_counters := (ps_counters s)
                     \<lparr>partial_sendmmsg := saturating_add (partial_sendmmsg (ps_counters s)) 1\<rparr>\<rparr>
                   else s)
                 in case complete_sent lens s1 of
                   (wire, s2) \<Rightarrow>
                     (case flush_udp_tx rest (max_syscalls - 1) s2 of (wire', s3) \<Rightarrow> (wire @ wire', s3))))"
  by pat_completeness auto
termination
  by (relation "measures [\<lambda>(io, n, s). n, \<lambda>(io, n, s). tx_len (ps_udp s)]")
    (auto dest: pop_pending_less)

definition release_tun_slot :: "nat \<Rightarrow> packet_sink \<Rightarrow> packet_sink" where
  "release_tun_slot slot_id s =
     s\<lparr>ps_pool := (case ps_tun_tx s ! slot_id of
                    None \<Rightarrow> ps_pool s | Some b \<Rightarrow> server_drop_buf b (ps_pool s)),
       ps_tun_tx := (ps_tun_tx s)[slot_id := None],
       ps_tun := (ps_tun s)\<lparr>tx_free := tx_free (ps_tun s) @ [slot_id]\<rparr>\<rparr>"

lemma tun_queue_simps [simp]:
  "ps_tun (count_tun_drop s) = ps_tun s" "ps_tun (count_tun_error s) = ps_tun s"
  "ps_tun (count_tun_written n s) = ps_tun s"
  "tx_len (ps_tun (release_tun_slot i s)) = tx_len (ps_tun s)"
  by (simp_all add: count_tun_drop_def count_tun_error_def count_tun_written_def release_tun_slot_def)

function flush_tun_tx :: "tun_write list \<Rightarrow> packet_sink \<Rightarrow> bytes list \<times> packet_sink" where
  "flush_tun_tx io s =
     (case pop_pending (ps_tun s) of
        (None, t) \<Rightarrow> ([], s)
      | (Some slot_id, t) \<Rightarrow>
          (case ps_tun_tx s ! slot_id of
             None \<Rightarrow> flush_tun_tx io ((count_tun_error s)\<lparr>ps_tun := t\<lparr>tx_free := tx_free t @ [slot_id]\<rparr>\<rparr>)
           | Some buffer \<Rightarrow>
               (case io of
                  [] \<Rightarrow> ([], s)
                | TunBlocked # rest \<Rightarrow> ([], s)
                | TunFailed # rest \<Rightarrow>
                    ([], release_tun_slot slot_id ((count_tun_error s)\<lparr>ps_tun_fatal := True, ps_tun := t\<rparr>))
                | TunWritten # rest \<Rightarrow>
                    (case flush_tun_tx rest (release_tun_slot slot_id
                       ((count_tun_written (sb_len buffer) s)\<lparr>ps_tun := t\<rparr>)) of
                       (written, s') \<Rightarrow> (server_as_slice buffer # written, s')))))"
  by pat_completeness auto
termination
  by (relation "measure (\<lambda>(io, s). tx_len (ps_tun s))")
    (auto dest: pop_pending_less)

definition adapt_udp_rx_batch :: "nat \<Rightarrow> nat \<Rightarrow> nat" where
  "adapt_udp_rx_batch batch limit =
     (if limit \<le> batch \<and> limit < MAX_DATAGRAMS then
        (if limit \<le> MIN_DATAGRAMS then 32 else if limit \<le> 32 then 64 else MAX_DATAGRAMS)
      else if batch = 0 \<or> batch * 4 \<le> limit then
        (if 65 \<le> limit then 64 else if 33 \<le> limit then 32 else MIN_DATAGRAMS)
      else limit)"

definition with_sink_flush :: "udp_result list \<Rightarrow> packet_sink \<Rightarrow> bytes list \<times> packet_sink" where
  "with_sink_flush io s =
     (if ps_urgent_flush s then flush_udp_tx io URGENCY_FLUSH_SYSCALLS (s\<lparr>ps_urgent_flush := False\<rparr>)
      else ([], s))"

section \<open>Slots are conserved\<close>

definition waiting :: "tx_queue \<Rightarrow> nat list" where
  "waiting t = tx_pending t Latency @ tx_pending t Priority @ tx_pending t Bulk"

text \<open>Every slot number below \<open>n\<close> stands in exactly one queue, and exactly the waiting
  slots hold a buffer.\<close>

definition tx_ok :: "nat \<Rightarrow> (nat \<Rightarrow> bool) \<Rightarrow> tx_queue \<Rightarrow> bool" where
  "tx_ok n full t \<longleftrightarrow> distinct (tx_free t @ waiting t) \<and> set (tx_free t @ waiting t) = {..<n}
     \<and> (\<forall>i < n. full i \<longleftrightarrow> i \<in> set (waiting t))"

lemma tx_len_waiting: "tx_len t = length (waiting t)"
  by (simp add: tx_len_def waiting_def)

lemma waiting_free [simp]: "waiting (t\<lparr>tx_free := f\<rparr>) = waiting t"
  by (simp add: waiting_def)

lemma pop_pending_waiting:
  "pop_pending t = (Some i, t') \<Longrightarrow> waiting t = i # waiting t' \<and> tx_free t' = tx_free t"
  "fst (pop_pending t) = None \<longleftrightarrow> waiting t = []"
  by (cases "tx_pending t Latency"; cases "tx_pending t Priority"; cases "tx_pending t Bulk";
      auto simp: pop_pending_def front_class_def waiting_def)+

lemma tx_enqueue_waiting:
  "tx_free (tx_enqueue i cls t) = tx_free t"
  "set (waiting (tx_enqueue i cls t)) = insert i (set (waiting t))"
  "length (waiting (tx_enqueue i cls t)) = Suc (length (waiting t))"
  "i \<notin> set (waiting t) \<Longrightarrow> distinct (waiting t) \<Longrightarrow> distinct (waiting (tx_enqueue i cls t))"
  by (cases cls; auto simp: tx_enqueue_def waiting_def)+

lemma tx_new_ok: "(\<And>i. i < n \<Longrightarrow> \<not> full i) \<Longrightarrow> tx_ok n full (tx_new n)"
  by (auto simp: tx_ok_def tx_new_def waiting_def)

lemma tx_take_ok:
  assumes "tx_ok n full t" and "tx_free t = i # free"
  shows "tx_ok n (full(i := True)) (tx_enqueue i cls (t\<lparr>tx_free := free\<rparr>))" and "i < n"
proof -
  have i: "i \<notin> set (waiting t)" "i \<notin> set free" "i < n"
    using assms by (auto simp: tx_ok_def)
  show "i < n" by (rule i(3))
  show "tx_ok n (full(i := True)) (tx_enqueue i cls (t\<lparr>tx_free := free\<rparr>))"
    using assms i tx_enqueue_waiting [where i = i and cls = cls and t = "t\<lparr>tx_free := free\<rparr>"]
    unfolding tx_ok_def by auto
qed

lemma tx_release_ok:
  assumes "tx_ok n full t" and "pop_pending t = (Some i, t')"
  shows "tx_ok n (full(i := False)) (t'\<lparr>tx_free := tx_free t' @ [i]\<rparr>)" and "i < n" and "full i"
proof -
  note p = pop_pending_waiting(1) [OF assms(2)]
  show "i < n" and "full i" using assms(1) p by (auto simp: tx_ok_def)
  show "tx_ok n (full(i := False)) (t'\<lparr>tx_free := tx_free t' @ [i]\<rparr>)"
    using assms(1) p unfolding tx_ok_def by auto
qed

section \<open>The sink\<close>

definition udp_full :: "packet_sink \<Rightarrow> nat \<Rightarrow> bool" where
  "udp_full s i \<longleftrightarrow> us_buffer (ps_udp_tx s ! i) \<noteq> None"

definition tun_full :: "packet_sink \<Rightarrow> nat \<Rightarrow> bool" where
  "tun_full s i \<longleftrightarrow> ps_tun_tx s ! i \<noteq> None"

definition buffers_ok :: "packet_sink \<Rightarrow> bool" where
  "buffers_ok s \<longleftrightarrow> length (ps_udp_tx s) = UDP_TX_SLOTS \<and> length (ps_tun_tx s) = TUN_TX_SLOTS
     \<and> (\<forall>i < UDP_TX_SLOTS. \<forall>b. us_buffer (ps_udp_tx s ! i) = Some b \<longrightarrow> server_buf_ok b)
     \<and> (\<forall>i < TUN_TX_SLOTS. \<forall>b. ps_tun_tx s ! i = Some b \<longrightarrow> server_buf_ok b)"

definition sink_ok :: "packet_sink \<Rightarrow> bool" where
  "sink_ok s \<longleftrightarrow> buffers_ok s \<and> tx_ok UDP_TX_SLOTS (udp_full s) (ps_udp s)
     \<and> tx_ok TUN_TX_SLOTS (tun_full s) (ps_tun s)
     \<and> server_accounted server_packet_pool_size (tx_len (ps_udp s) + tx_len (ps_tun s)) (ps_pool s)"

lemma sink_new_ok: "sink_ok sink_new"
proof -
  have "server_accounted (max server_packet_pool_size 1) 0 (server_pool_new server_packet_pool_size)"
    by (simp add: server_accounted_def server_pool_new_def pool_new_accounted)
      (simp add: pool_new_def Let_def)
  then show ?thesis
    by (auto simp: sink_ok_def sink_new_def buffers_ok_def udp_full_def tun_full_def udp_slot_new_def
        tx_len_def intro!: tx_new_ok)
      (simp add: tx_new_def server_packet_pool_size_def UDP_TX_SLOTS_def TUN_TX_SLOTS_def)
qed

text \<open>Only counters and flags change.\<close>

lemma sink_ok_counters [simp]:
  "sink_ok (s\<lparr>ps_counters := c\<rparr>) = sink_ok s" "sink_ok (s\<lparr>ps_tun_fatal := b\<rparr>) = sink_ok s"
  "sink_ok (s\<lparr>ps_urgent_flush := b\<rparr>) = sink_ok s"
  by (simp_all add: sink_ok_def buffers_ok_def udp_full_def [abs_def] tun_full_def [abs_def])

lemma sink_ok_counts [simp]:
  "sink_ok (count_udp_drop s) = sink_ok s" "sink_ok (count_udp_error s) = sink_ok s"
  "sink_ok (count_tun_drop s) = sink_ok s" "sink_ok (count_tun_error s) = sink_ok s"
  "sink_ok (count_tun_written n s) = sink_ok s"
  by (simp_all add: count_udp_drop_def count_udp_error_def count_tun_drop_def count_tun_error_def
      count_tun_written_def)

lemma server_copy_from_ok:
  "server_buf_ok b \<Longrightarrow> server_copy_from data b = (ok, b') \<Longrightarrow> server_buf_ok b'"
  "server_copy_from data b = (True, b') \<Longrightarrow> server_as_slice b' = data"
  by (auto simp: server_copy_from_def server_buf_ok_def server_as_slice_def split: if_splits)

text \<open>An acquired buffer that is dropped again leaves the sink as it was.\<close>

lemma sink_ok_drop:
  assumes "sink_ok s" and "server_try_acquire (ps_pool s) = Some (b, pool)" and "server_buf_ok b'"
  shows "sink_ok (s\<lparr>ps_pool := server_drop_buf b' pool\<rparr>)"
  using assms server_pool.acquire_accounted server_pool.release_accounted
  unfolding sink_ok_def buffers_ok_def udp_full_def [abs_def] tun_full_def [abs_def] by simp blast

lemma acquire_ok:
  assumes "sink_ok s" and "server_try_acquire (ps_pool s) = Some (b, pool)"
  shows "server_buf_ok b"
    and "server_accounted server_packet_pool_size (Suc (tx_len (ps_udp s) + tx_len (ps_tun s))) pool"
  using assms server_pool.acquire_accounted unfolding sink_ok_def by blast+

lemma fill_udp_slot_ok:
  assumes ok: "sink_ok s" and free: "tx_free (ps_udp s) = i # free"
    and acq: "server_try_acquire (ps_pool s) = Some (b, pool)" and b': "server_buf_ok b'"
  shows "sink_ok (fill_udp_slot i b' p src cls (s\<lparr>ps_pool := pool, ps_udp := (ps_udp s)\<lparr>tx_free := free\<rparr>\<rparr>))"
    (is "sink_ok ?s")
proof -
  have udp: "tx_ok UDP_TX_SLOTS (udp_full s) (ps_udp s)" and tun: "tx_ok TUN_TX_SLOTS (tun_full s) (ps_tun s)"
    and bufs: "buffers_ok s" using ok by (simp_all add: sink_ok_def)
  note taken = tx_take_ok [OF udp free]
  have full: "udp_full ?s = (udp_full s)(i := True)"
    using bufs taken(2) by (auto simp: fun_eq_iff udp_full_def fill_udp_slot_def prepare_current_def buffers_ok_def nth_list_update)
  have "buffers_ok ?s"
    using bufs b' taken(2)
    by (auto simp: buffers_ok_def fill_udp_slot_def prepare_current_def nth_list_update split: if_splits)
  moreover have "tx_ok UDP_TX_SLOTS (udp_full ?s) (ps_udp ?s)"
    unfolding full using taken(1) [of cls] by (simp add: fill_udp_slot_def)
  moreover have "tx_ok TUN_TX_SLOTS (tun_full ?s) (ps_tun ?s)"
    using tun by (simp add: fill_udp_slot_def tun_full_def [abs_def])
  moreover have "tx_len (ps_udp ?s) = Suc (tx_len (ps_udp s))"
    by (simp add: fill_udp_slot_def tx_len_waiting tx_enqueue_waiting)
  ultimately show ?thesis
    using acquire_ok(2) [OF ok acq] by (simp add: sink_ok_def) (simp add: fill_udp_slot_def)
qed

lemma send_copies_ok: "sink_ok s \<Longrightarrow> sink_ok (send_copies n data p src cls s)"
proof (induction n arbitrary: s)
  case 0
  then show ?case by simp
next
  case (Suc n)
  show ?case
  proof (cases "tx_free (ps_udp s)")
    case Nil
    then show ?thesis using Suc.prems by simp
  next
    case (Cons i free)
    show ?thesis
    proof (cases "server_try_acquire (ps_pool s)")
      case None
      then show ?thesis using Suc.prems Cons by simp
    next
      case (Some bp)
      obtain b pool where acq: "server_try_acquire (ps_pool s) = Some (b, pool)" using Some by (cases bp) simp
      obtain ok b' where copy: "server_copy_from data b = (ok, b')" by (rule prod.exhaust)
      have b': "server_buf_ok b'" by (rule server_copy_from_ok(1) [OF acquire_ok(1) [OF Suc.prems acq] copy])
      show ?thesis
        using Suc.IH [OF fill_udp_slot_ok [OF Suc.prems Cons acq b', of p src cls]]
          sink_ok_drop [OF Suc.prems acq b'] Suc.prems
        by (cases ok) (simp_all add: Cons acq copy)
    qed
  qed
qed

text \<open>Both ways of sending take a free slot and a buffer; they differ in the copies.\<close>

lemma send_dup_ok:
  assumes ok: "sink_ok s"
  shows "sink_ok (snd (snd (send_udp_with_duplicate_priority p src n cls built s)))"
proof (cases "tx_free (ps_udp s)")
  case Nil
  then show ?thesis using ok by (simp add: send_udp_with_duplicate_priority_def)
next
  case (Cons i free)
  show ?thesis
  proof (cases "server_try_acquire (ps_pool s)")
    case None
    then show ?thesis using ok Cons by (simp add: send_udp_with_duplicate_priority_def)
  next
    case (Some bp)
    obtain b pool where acq: "server_try_acquire (ps_pool s) = Some (b, pool)" using Some by (cases bp) simp
    note b = acquire_ok(1) [OF ok acq]
    show ?thesis
    proof (cases built)
      case None
      then show ?thesis
        using sink_ok_drop [OF ok acq b] by (simp add: send_udp_with_duplicate_priority_def Cons acq)
    next
      case (Some data)
      obtain r b' where copy: "server_copy_from data b = (r, b')" by (rule prod.exhaust)
      note b' = server_copy_from_ok(1) [OF b copy]
      show ?thesis
        using sink_ok_drop [OF ok acq b'] send_copies_ok [OF fill_udp_slot_ok [OF ok Cons acq b']]
        by (cases r) (simp_all add: send_udp_with_duplicate_priority_def Cons acq Some copy)
    qed
  qed
qed

lemma send_udp_ok:
  assumes ok: "sink_ok s"
  shows "sink_ok (snd (send_udp p src payload s))"
proof (cases "tx_free (ps_udp s)")
  case Nil
  then show ?thesis using ok by (simp add: send_udp_def)
next
  case (Cons i free)
  show ?thesis
  proof (cases "server_try_acquire (ps_pool s)")
    case None
    then show ?thesis using ok Cons by (simp add: send_udp_def)
  next
    case (Some bp)
    obtain b pool where acq: "server_try_acquire (ps_pool s) = Some (b, pool)" using Some by (cases bp) simp
    obtain r b' where copy: "server_copy_from payload b = (r, b')" by (rule prod.exhaust)
    note b' = server_copy_from_ok(1) [OF acquire_ok(1) [OF ok acq] copy]
    show ?thesis
      using sink_ok_drop [OF ok acq b'] fill_udp_slot_ok [OF ok Cons acq b']
      by (cases r) (simp_all add: send_udp_def Cons acq copy)
  qed
qed

lemma queue_tun_ok:
  assumes ok: "sink_ok s"
  shows "sink_ok (snd (queue_tun payload cls s))"
proof (cases "tx_free (ps_tun s)")
  case Nil
  then show ?thesis using ok by (simp add: queue_tun_def)
next
  case (Cons i free)
  show ?thesis
  proof (cases "server_try_acquire (ps_pool s)")
    case None
    then show ?thesis using ok Cons by (simp add: queue_tun_def)
  next
    case (Some bp)
    obtain b pool where acq: "server_try_acquire (ps_pool s) = Some (b, pool)" using Some by (cases bp) simp
    obtain r b' where copy: "server_copy_from payload b = (r, b')" by (rule prod.exhaust)
    note b' = server_copy_from_ok(1) [OF acquire_ok(1) [OF ok acq] copy]
    have tun: "tx_ok TUN_TX_SLOTS (tun_full s) (ps_tun s)" and bufs: "buffers_ok s"
      using ok by (simp_all add: sink_ok_def)
    note taken = tx_take_ok [OF tun Cons]
    let ?s = "s\<lparr>ps_pool := pool, ps_tun_tx := (ps_tun_tx s)[i := Some b'],
      ps_tun := tx_enqueue i cls ((ps_tun s)\<lparr>tx_free := free\<rparr>)\<rparr>"
    have "tun_full ?s = (tun_full s)(i := True)"
      using bufs taken(2) by (auto simp: fun_eq_iff tun_full_def buffers_ok_def nth_list_update)
    moreover have "buffers_ok ?s"
      using bufs b' taken(2) by (auto simp: buffers_ok_def nth_list_update split: if_splits)
    moreover have "udp_full ?s = udp_full s" by (simp add: udp_full_def [abs_def])
    moreover have "tx_len (ps_tun ?s) = Suc (tx_len (ps_tun s))"
      by (simp add: tx_len_waiting tx_enqueue_waiting)
    ultimately have "sink_ok ?s"
      using ok taken(1) [of cls] acquire_ok(2) [OF ok acq] by (simp add: sink_ok_def)
    then show ?thesis
      using sink_ok_drop [OF ok acq b'] by (cases r) (simp_all add: queue_tun_def Cons acq copy)
  qed
qed

lemma write_tun_priority_ok: "sink_ok s \<Longrightarrow> sink_ok (snd (write_tun_priority io payload cls s))"
  using queue_tun_ok [of s] by (cases io) (simp_all add: write_tun_priority_def)

section \<open>Flushing keeps the order\<close>

lemma pop_release_udp:
  assumes ok: "sink_ok s" and pop: "pop_pending (ps_udp s) = (Some i, t)"
  shows "sink_ok (release_udp_slot i (s\<lparr>ps_udp := t\<rparr>))"
    and "\<exists>b. us_buffer (ps_udp_tx s ! i) = Some b \<and> server_buf_ok b"
    and "i < UDP_TX_SLOTS"
proof -
  have udp: "tx_ok UDP_TX_SLOTS (udp_full s) (ps_udp s)" and bufs: "buffers_ok s"
    and acc: "server_accounted server_packet_pool_size (tx_len (ps_udp s) + tx_len (ps_tun s)) (ps_pool s)"
    using ok by (simp_all add: sink_ok_def)
  note rel = tx_release_ok [OF udp pop]
  show "i < UDP_TX_SLOTS" by (rule rel(2))
  obtain b where b: "us_buffer (ps_udp_tx s ! i) = Some b" "server_buf_ok b"
    using rel(2,3) bufs by (auto simp: udp_full_def buffers_ok_def)
  then show "\<exists>b. us_buffer (ps_udp_tx s ! i) = Some b \<and> server_buf_ok b" by blast
  let ?s = "release_udp_slot i (s\<lparr>ps_udp := t\<rparr>)"
  have "udp_full ?s = (udp_full s)(i := False)"
    using bufs rel(2) by (auto simp: fun_eq_iff udp_full_def release_udp_slot_def buffers_ok_def nth_list_update)
  moreover have "tun_full ?s = tun_full s" by (simp add: tun_full_def [abs_def] release_udp_slot_def)
  moreover have "buffers_ok ?s"
    using bufs rel(2) by (auto simp: buffers_ok_def release_udp_slot_def nth_list_update split: if_splits)
  moreover have "server_accounted server_packet_pool_size (tx_len t + tx_len (ps_tun s)) (ps_pool ?s)"
    using server_pool.release_accounted [OF _ b(2)] acc pop_pending_len [OF pop] b(1)
    by (simp add: release_udp_slot_def)
  ultimately show "sink_ok ?s"
    using ok rel(1) by (simp add: sink_ok_def release_udp_slot_def)
qed

lemma pop_release_tun:
  assumes ok: "sink_ok s" and pop: "pop_pending (ps_tun s) = (Some i, t)"
  shows "sink_ok (release_tun_slot i (s\<lparr>ps_tun := t\<rparr>))"
    and "\<exists>b. ps_tun_tx s ! i = Some b \<and> server_buf_ok b"
proof -
  have tun: "tx_ok TUN_TX_SLOTS (tun_full s) (ps_tun s)" and bufs: "buffers_ok s"
    and acc: "server_accounted server_packet_pool_size (tx_len (ps_udp s) + tx_len (ps_tun s)) (ps_pool s)"
    using ok by (simp_all add: sink_ok_def)
  note rel = tx_release_ok [OF tun pop]
  obtain b where b: "ps_tun_tx s ! i = Some b" "server_buf_ok b"
    using rel(2,3) bufs by (auto simp: tun_full_def buffers_ok_def)
  then show "\<exists>b. ps_tun_tx s ! i = Some b \<and> server_buf_ok b" by blast
  let ?s = "release_tun_slot i (s\<lparr>ps_tun := t\<rparr>)"
  have "tun_full ?s = (tun_full s)(i := False)"
    using bufs rel(2) by (auto simp: fun_eq_iff tun_full_def release_tun_slot_def buffers_ok_def nth_list_update)
  moreover have "udp_full ?s = udp_full s" by (simp add: udp_full_def [abs_def] release_tun_slot_def)
  moreover have "buffers_ok ?s"
    using bufs rel(2) by (auto simp: buffers_ok_def release_tun_slot_def nth_list_update split: if_splits)
  moreover have "server_accounted server_packet_pool_size (tx_len (ps_udp s) + tx_len t) (ps_pool ?s)"
    using server_pool.release_accounted [OF _ b(2)] acc pop_pending_len [OF pop] b(1)
    by (simp add: release_tun_slot_def)
  ultimately show "sink_ok ?s"
    using ok rel(1) by (simp add: sink_ok_def release_tun_slot_def)
qed

definition udp_data :: "packet_sink \<Rightarrow> nat \<Rightarrow> bytes" where
  "udp_data s i = (case us_buffer (ps_udp_tx s ! i) of None \<Rightarrow> [] | Some b \<Rightarrow> server_as_slice b)"

text \<open>The datagrams that wait, in the order of their classes.\<close>

definition queued :: "packet_sink \<Rightarrow> bytes list" where
  "queued s = map (udp_data s) (waiting (ps_udp s))"

lemma queued_counters [simp]: "queued (s\<lparr>ps_counters := c\<rparr>) = queued s"
  by (simp add: queued_def udp_data_def [abs_def])

lemma queued_release:
  assumes ok: "sink_ok s" and pop: "pop_pending (ps_udp s) = (Some i, t)"
  shows "queued s = udp_data s i # queued (release_udp_slot i (s\<lparr>ps_udp := t\<rparr>))"
proof -
  have w: "waiting (ps_udp s) = i # waiting t" using pop_pending_waiting(1) [OF pop] by simp
  have "distinct (waiting (ps_udp s))" using ok by (simp add: sink_ok_def tx_ok_def)
  then have "i \<notin> set (waiting t)" using w by simp
  then have "i \<noteq> j" if "j \<in> set (waiting t)" for j using that by blast
  then have "map (udp_data (release_udp_slot i (s\<lparr>ps_udp := t\<rparr>))) (waiting t) = map (udp_data s) (waiting t)"
    by (intro map_cong) (simp_all add: udp_data_def release_udp_slot_def)
  then show ?thesis by (simp add: queued_def w) (simp add: release_udp_slot_def)
qed

lemma complete_sent_ok:
  assumes "sink_ok s" and "complete_sent lens s = (wire, s')"
  shows "sink_ok s' \<and> queued s = wire @ queued s'"
  using assms
proof (induction lens arbitrary: s wire s')
  case Nil
  then show ?case by simp
next
  case (Cons len lens)
  show ?case
  proof (cases "pop_pending (ps_udp s)")
    case (Pair r t)
    show ?thesis
    proof (cases r)
      case None
      then show ?thesis using Cons.prems Pair by simp
    next
      case (Some i)
      define s0 where "s0 = s\<lparr>ps_counters := (ps_counters s)
        \<lparr>udp_tx_packets := saturating_add (udp_tx_packets (ps_counters s)) 1,
         udp_tx_bytes := saturating_add (udp_tx_bytes (ps_counters s)) (word_of_nat len)\<rparr>\<rparr>"
      have ok0: "sink_ok s0" and pop0: "pop_pending (ps_udp s0) = (Some i, t)"
        and q0: "queued s0 = queued s" and d0: "udp_data s0 = udp_data s"
        using Cons.prems(1) Pair Some by (simp_all add: s0_def udp_data_def [abs_def])
      let ?s1 = "release_udp_slot i (s0\<lparr>ps_udp := t\<rparr>)"
      obtain w1 s1 where rest: "complete_sent lens ?s1 = (w1, s1)" by (rule prod.exhaust)
      note IH = Cons.IH [OF pop_release_udp(1) [OF ok0 pop0] rest]
      obtain b where b: "us_buffer (ps_udp_tx s ! i) = Some b"
        using pop_release_udp(2) [OF Cons.prems(1)] Pair Some by blast
      have "complete_sent (len # lens) s = (server_as_slice b # w1, s1)"
        using Pair Some rest b by (simp add: s0_def)
      then show ?thesis
        using Cons.prems(2) IH queued_release [OF ok0 pop0] q0 d0 b by (simp add: udp_data_def)
    qed
  qed
qed

lemma batch_not_empty:
  assumes "sink_ok s" and "tx_len (ps_udp s) \<noteq> 0"
  shows "0 < pending_udp_tx_batch_len (batch_limit (ps_udp s)) s"
proof -
  obtain i t where pop: "pop_pending (ps_udp s) = (Some i, t)"
    using pop_pending_waiting(2) [of "ps_udp s"] assms(2) unfolding tx_len_waiting
    by (metis length_0_conv not_None_eq prod.collapse)
  then obtain rest where "tx_pending (ps_udp s) (front_class (ps_udp s)) = i # rest"
    by (auto simp: pop_pending_def split: list.splits)
  moreover have "us_buffer (ps_udp_tx s ! i) \<noteq> None" using pop_release_udp(2) [OF assms(1) pop] by auto
  moreover have "0 < batch_limit (ps_udp s)"
    by (simp add: batch_limit_def PRIORITY_DATAGRAMS_def MIN_DATAGRAMS_def MAX_DATAGRAMS_def split: packet_class.split)
  ultimately show ?thesis by (cases "batch_limit (ps_udp s)") (simp_all add: pending_udp_tx_batch_len_def)
qed

definition drained :: "packet_sink \<Rightarrow> bytes list \<Rightarrow> packet_sink \<Rightarrow> bool" where
  "drained s wire s' \<longleftrightarrow> sink_ok s' \<and> (\<exists>gone. queued s = gone @ queued s' \<and> subseq wire gone)"

lemma drained_refl: "sink_ok s \<Longrightarrow> drained s [] s"
  by (simp add: drained_def)

lemma drained_step:
  assumes "sink_ok t" and "queued s = gone @ queued t" and "subseq w gone" and "drained t wire s'"
  shows "drained s (w @ wire) s'"
proof -
  obtain rest where "queued t = rest @ queued s'" "subseq wire rest" "sink_ok s'"
    using assms(4) by (auto simp: drained_def)
  then show ?thesis
    using assms(2,3) list_emb_append_mono [of "(=)" w gone wire rest] unfolding drained_def
    by (intro conjI exI [of _ "gone @ rest"]) simp_all
qed

declare flush_udp_tx.simps [simp del] flush_tun_tx.simps [simp del]

lemma flush_udp_tx_drains:
  assumes "sink_ok s"
  shows "drained s (fst (flush_udp_tx io n s)) (snd (flush_udp_tx io n s))"
  using assms
proof (induction n arbitrary: io s)
  case 0
  then show ?case by (simp add: flush_udp_tx.simps drained_refl)
next
  case (Suc n)
  let ?count = "\<lambda>c. s\<lparr>ps_counters := c\<rparr>"
  have same: "drained s [] (?count c)" for c
    using Suc.prems by (simp add: drained_def)
  show ?case
  proof (cases "tx_len (ps_udp s) = 0 \<or> io = []")
    case True
    then show ?thesis
      using Suc.prems batch_not_empty [OF Suc.prems]
      by (cases "tx_len (ps_udp s) = 0") (auto simp: flush_udp_tx.simps [of io "Suc n" s] flush_udp_tx.simps [of "[]" "Suc n" s] Let_def drained_refl)
  next
    case False
    then obtain r rest where io: "io = r # rest" and len: "tx_len (ps_udp s) \<noteq> 0" by (cases io) auto
    obtain i t where pop: "pop_pending (ps_udp s) = (Some i, t)"
      using pop_pending_waiting(2) [of "ps_udp s"] len unfolding tx_len_waiting
      by (metis length_0_conv not_None_eq prod.collapse)
    note unfold = flush_udp_tx.simps [of "r # rest" "Suc n" s] batch_not_empty [OF Suc.prems len] len
    show ?thesis
    proof (cases r)
      case UdpFailed
      let ?e = "count_udp_error s"
      have e: "sink_ok ?e" "pop_pending (ps_udp ?e) = (Some i, t)" "queued ?e = queued s"
        using Suc.prems pop by (simp_all add: count_udp_error_def count_udp_drop_def)
      note rel = pop_release_udp(1) [OF e(1,2)]
      have "drained s ([] @ fst (flush_udp_tx rest n (release_udp_slot i (?e\<lparr>ps_udp := t\<rparr>))))
          (snd (flush_udp_tx rest n (release_udp_slot i (?e\<lparr>ps_udp := t\<rparr>))))"
        by (rule drained_step [OF rel _ _ Suc.IH [OF rel], of _ "[udp_data ?e i]"])
          (use queued_release [OF e(1,2)] e(3) in simp_all)
      then show ?thesis using unfold pop UdpFailed by (simp add: io Let_def)
    next
      case (UdpSent lens)
      define s1 where "s1 = (if length lens < pending_udp_tx_batch_len (batch_limit (ps_udp s)) s
        then s\<lparr>ps_counters := (ps_counters s)
          \<lparr>partial_sendmmsg := saturating_add (partial_sendmmsg (ps_counters s)) 1\<rparr>\<rparr> else s)"
      have s1: "sink_ok s1" "queued s1 = queued s" using Suc.prems by (simp_all add: s1_def)
      obtain w s2 where c: "complete_sent lens s1 = (w, s2)" by (rule prod.exhaust)
      obtain w' s3 where f: "flush_udp_tx rest n s2 = (w', s3)" by (rule prod.exhaust)
      note sent = complete_sent_ok [OF s1(1) c]
      have "drained s (w @ w') s3"
        by (rule drained_step [of s2 s w w w' s3]) (use sent s1(2) Suc.IH [of s2 rest] f in auto)
      then show ?thesis
        using unfold UdpSent same c f by (simp add: io Let_def s1_def [symmetric])
    qed (use unfold same in \<open>simp_all add: io Let_def\<close>)
  qed
qed

lemma flush_tun_tx_ok: "sink_ok s \<Longrightarrow> sink_ok (snd (flush_tun_tx io s))"
proof (induction io arbitrary: s)
  case Nil
  then show ?case
    using pop_release_tun(2) [OF Nil]
    by (fastforce simp: flush_tun_tx.simps [of "[]" s] split: prod.splits option.splits)
next
  case (Cons x rest)
  note unfold = flush_tun_tx.simps [of "y # rest" s for y]
  show ?case
  proof (cases "pop_pending (ps_tun s)")
    case (Pair r t)
    show ?thesis
    proof (cases r)
      case None
      then show ?thesis using Pair Cons.prems by (simp add: unfold)
    next
      case (Some i)
      note pop = Pair [unfolded Some]
      obtain b where b: "ps_tun_tx s ! i = Some b" using pop_release_tun(2) [OF Cons.prems pop] by blast
      let ?e = "(count_tun_error s)\<lparr>ps_tun_fatal := True\<rparr>" and ?w = "count_tun_written (sb_len b) s"
      have "sink_ok ?e" "pop_pending (ps_tun ?e) = (Some i, t)" using Cons.prems pop by simp_all
      note fail = pop_release_tun(1) [OF this]
      have "sink_ok ?w" "pop_pending (ps_tun ?w) = (Some i, t)" using Cons.prems pop by simp_all
      note written = Cons.IH [OF pop_release_tun(1) [OF this]]
      show ?thesis
        using Cons.prems fail written pop b by (cases x) (simp_all add: unfold case_prod_beta)
    qed
  qed
qed

section \<open>Programs over the sink\<close>

datatype sink_event =
    SendDuplicated peer "ip_addr option" nat packet_class "bytes option"
  | SendUdp peer "ip_addr option" bytes
  | RequestFlush
  | WriteTun tun_write bytes packet_class
  | FlushUdp "udp_result list" nat
  | FlushTun "tun_write list"

fun sink_step :: "sink_event \<Rightarrow> packet_sink \<Rightarrow> packet_sink" where
  "sink_step (SendDuplicated p src n cls built) s = snd (snd (send_udp_with_duplicate_priority p src n cls built s))"
| "sink_step (SendUdp p src payload) s = snd (send_udp p src payload s)"
| "sink_step RequestFlush s = request_udp_flush s"
| "sink_step (WriteTun io payload cls) s = snd (write_tun_priority io payload cls s)"
| "sink_step (FlushUdp io n) s = snd (flush_udp_tx io n s)"
| "sink_step (FlushTun io) s = snd (flush_tun_tx io s)"

lemma sink_step_ok: "sink_ok s \<Longrightarrow> sink_ok (sink_step ev s)"
  using send_dup_ok send_udp_ok write_tun_priority_ok flush_udp_tx_drains flush_tun_tx_ok
  by (cases ev) (simp_all add: request_udp_flush_def drained_def)

lemma sink_run_ok: "sink_ok s \<Longrightarrow> sink_ok (fold sink_step evs s)"
  by (induction evs arbitrary: s) (simp_all add: sink_step_ok)

lemma tx_len_bound:
  assumes "tx_ok n full t"
  shows "length (tx_free t) + tx_len t = n"
proof -
  have "length (tx_free t @ waiting t) = card (set (tx_free t @ waiting t))"
    using assms by (metis distinct_card tx_ok_def)
  also have "\<dots> = n" using assms by (simp add: tx_ok_def)
  finally show ?thesis by (simp add: tx_len_waiting)
qed

section \<open>Properties\<close>

text \<open>The transmit slots are conserved. After any program of sends, writes to the network device
  and flushes, whatever the kernel answers, every slot number of the socket and of the device stands in
  exactly one queue, exactly the waiting slots hold a buffer, and the buffers of the pool are exactly
  those of the waiting slots and the retained ones. So a send that finds a free slot also gets a buffer.\<close>

theorem transmit_slots_are_conserved:
  "let s = fold sink_step evs sink_new in
     distinct (tx_free (ps_udp s) @ waiting (ps_udp s))
     \<and> set (tx_free (ps_udp s) @ waiting (ps_udp s)) = {..<UDP_TX_SLOTS}
     \<and> {i. i < UDP_TX_SLOTS \<and> udp_full s i} = set (waiting (ps_udp s))
     \<and> distinct (tx_free (ps_tun s) @ waiting (ps_tun s))
     \<and> set (tx_free (ps_tun s) @ waiting (ps_tun s)) = {..<TUN_TX_SLOTS}
     \<and> {i. i < TUN_TX_SLOTS \<and> tun_full s i} = set (waiting (ps_tun s))
     \<and> pp_allocated (ps_pool s)
         = length (waiting (ps_udp s)) + length (waiting (ps_tun s)) + length (pp_queue (ps_pool s))
     \<and> (tx_free (ps_udp s) = [] \<and> tx_free (ps_tun s) = []
          \<or> (\<exists>b pool. server_try_acquire (ps_pool s) = Some (b, pool)))"
proof -
  define s where "s = fold sink_step evs sink_new"
  have ok: "sink_ok s" unfolding s_def by (rule sink_run_ok [OF sink_new_ok])
  then have udp: "tx_ok UDP_TX_SLOTS (udp_full s) (ps_udp s)"
    and tun: "tx_ok TUN_TX_SLOTS (tun_full s) (ps_tun s)"
    and pool: "server_accounted server_packet_pool_size (tx_len (ps_udp s) + tx_len (ps_tun s)) (ps_pool s)"
    by (simp_all add: sink_ok_def)
  have "tx_free (ps_udp s) = [] \<and> tx_free (ps_tun s) = []" if "server_try_acquire (ps_pool s) = None"
  proof -
    have "tx_len (ps_udp s) + tx_len (ps_tun s) = UDP_TX_SLOTS + TUN_TX_SLOTS"
      using that server_bounds [OF pool] by (simp add: server_packet_pool_size_def)
    then have "length (tx_free (ps_udp s)) + length (tx_free (ps_tun s)) = 0"
      using tx_len_bound [OF udp] tx_len_bound [OF tun] by linarith
    then show ?thesis by simp
  qed
  then have "tx_free (ps_udp s) = [] \<and> tx_free (ps_tun s) = []
      \<or> (\<exists>b pool. server_try_acquire (ps_pool s) = Some (b, pool))"
    by (cases "server_try_acquire (ps_pool s)") auto
  then show ?thesis
    unfolding s_def [symmetric] Let_def
    using udp tun server_bounds [OF pool] by (auto simp: tx_ok_def tx_len_waiting)
qed

text \<open>A flush of the socket sends the waiting datagrams in their order: all latency packets before
  all priority packets before all bulk packets, and in each class in the order they were queued. What the
  kernel took is a subsequence of a first part of the waiting datagrams (without the ones dropped after an
  error), and exactly the rest still waits, in the same order.\<close>

theorem flush_keeps_class_order:
  assumes "sink_ok s"
  shows "case flush_udp_tx io n s of (wire, s') \<Rightarrow>
    sink_ok s' \<and> (\<exists>gone. queued s = gone @ queued s' \<and> subseq wire gone)"
  using flush_udp_tx_drains [OF assms, of io n] by (simp add: drained_def case_prod_beta)

theorem flush_keeps_class_order_witness:
  "case flush_udp_tx [UdpBlocked] 1 (snd (send_udp (V4 10 0 0 1, 9) None [1, 2] sink_new)) of (wire, s') \<Rightarrow>
    sink_ok s' \<and> (\<exists>gone. queued (snd (send_udp (V4 10 0 0 1, 9) None [1, 2] sink_new)) = gone @ queued s'
      \<and> subseq wire gone)"
  by (rule flush_keeps_class_order [OF send_udp_ok [OF sink_new_ok]])

end
