(* ===== verification/Stream_Repair.thy ===== *)
theory Stream_Repair
  imports Prelude
begin

text \<open>
  Repair of missing streams. The server counts the workers of a client
  (\<open>StreamInventory\<close>), decides when to ask for a repair (\<open>StreamRepairRound\<close>) and
  encodes the request (\<open>rust-server/protocol.rs\<close>); the client parses it
  (\<open>rust-client/protocol.rs\<close>) and restarts the workers (\<open>rust-client/repair.rs\<close>).
\<close>

section \<open>Control messages\<close>

definition STREAM_REPAIR_PREFIX :: bytes where
  "STREAM_REPAIR_PREFIX = 0xff # ascii ''CSQTT_STREAM_REPAIR_V1''"

definition STREAM_ALIVE_PREFIX :: bytes where
  "STREAM_ALIVE_PREFIX = 0xff # ascii ''CSQTT_STREAM_ALIVE_V1''"

definition MAX_STREAM_WORKERS :: nat where
  "MAX_STREAM_WORKERS = 126"

definition stream_control_payload :: "bytes \<Rightarrow> u64 \<Rightarrow> u16 \<Rightarrow> u16 list \<Rightarrow> bytes" where
  "stream_control_payload pre sequence desired_count worker_ids =
     (let count = min (length worker_ids) 255
      in pre @ to_be sequence @ to_be desired_count @ [word_of_nat count]
         @ concat (map to_be (take count worker_ids)))"

record stream_command =
  sc_sequence :: u64
  sc_desired_count :: u16
  sc_worker_ids :: "u16 list"

fun chunks2 :: "bytes \<Rightarrow> u16 list" where
  "chunks2 (a # b # rest) = from_be [a, b] # chunks2 rest"
| "chunks2 _ = []"

definition parse_stream_command :: "bytes \<Rightarrow> bytes \<Rightarrow> stream_command option" where
  "parse_stream_command payload pre =
     (if \<not> starts_with payload pre then None
      else let rest = drop (length pre) payload in
        if length rest < 11 then None
        else let sequence = from_be (take 8 rest);
                 desired_count = from_be (take 2 (drop 8 rest));
                 count = unat (rest ! 10);
                 ids = drop 11 rest
             in if sequence = 0 \<or> desired_count = 0 \<or> word_of_nat MAX_STREAM_WORKERS < desired_count
                   \<or> length ids \<noteq> count * 2 then None
                else let worker_ids = chunks2 ids in
                  if list_ex (\<lambda>w. w = 0 \<or> desired_count < w) worker_ids \<or> worker_ids = [] then None
                  else Some \<lparr>sc_sequence = sequence, sc_desired_count = desired_count,
                             sc_worker_ids = worker_ids\<rparr>)"

definition parse_stream_repair :: "bytes \<Rightarrow> stream_command option" where
  "parse_stream_repair payload = parse_stream_command payload STREAM_REPAIR_PREFIX"

definition parse_stream_alive :: "bytes \<Rightarrow> stream_command option" where
  "parse_stream_alive payload = parse_stream_command payload STREAM_ALIVE_PREFIX"

section \<open>The inventory of a client's streams\<close>

record stream_identity =
  sid_device_id :: "nat list"
  sid_generation_id :: u64
  sid_session_salt :: "nat list"

definition STREAM_CONTROL_CARRIERS :: nat where
  "STREAM_CONTROL_CARRIERS = 3"

record stream_inventory =
  si_desired_count :: u16
  si_desired_session_id :: u64
  si_present :: "bool list"
  si_carriers :: "nat list"
  si_seen :: bool

definition inventory_new :: stream_inventory where
  "inventory_new =
     \<lparr>si_desired_count = 0, si_desired_session_id = 0,
      si_present = replicate (MAX_STREAM_WORKERS + 1) False, si_carriers = [], si_seen = False\<rparr>"

definition inventory_reset :: "stream_inventory \<Rightarrow> stream_inventory" where
  "inventory_reset i =
     i\<lparr>si_desired_count := 0, si_desired_session_id := 0,
       si_present := replicate (length (si_present i)) False, si_carriers := [], si_seen := False\<rparr>"

definition inventory_observe ::
  "nat \<Rightarrow> u64 \<Rightarrow> u16 \<Rightarrow> nat \<Rightarrow> stream_inventory \<Rightarrow> stream_inventory" where
  "inventory_observe slot session_id session_desired worker_id i =
     (let i = (if si_desired_session_id i \<le> session_id
               then i\<lparr>si_desired_count := session_desired, si_desired_session_id := session_id\<rparr> else i);
          i = i\<lparr>si_present := (si_present i)[worker_id := True], si_seen := True\<rparr>
      in if length (si_carriers i) < STREAM_CONTROL_CARRIERS
         then i\<lparr>si_carriers := si_carriers i @ [slot]\<rparr> else i)"

definition fill_missing :: "stream_inventory \<Rightarrow> u16 list" where
  "fill_missing i =
     (let desired = min (unat (si_desired_count i)) MAX_STREAM_WORKERS
      in map word_of_nat (filter (\<lambda>worker. \<not> si_present i ! worker) [1..<Suc desired]))"

section \<open>Repair rounds\<close>

definition STREAM_REPAIR_GRACE_MS :: u64 where
  "STREAM_REPAIR_GRACE_MS = 30000"

definition STREAM_REPAIR_ESCALATE_MS :: u64 where
  "STREAM_REPAIR_ESCALATE_MS = 60000"

definition STREAM_ALIVE_INTERVAL_MS :: u64 where
  "STREAM_ALIVE_INTERVAL_MS = 10000"

definition STREAM_ALIVE_REPEAT :: u8 where
  "STREAM_ALIVE_REPEAT = 2"

record repair_round =
  rr_sequence :: u64
  rr_last_missing :: "u16 list"
  rr_first_missing_ms :: u64
  rr_last_sent_ms :: u64
  rr_alive_ids :: "u16 list"
  rr_alive_desired_count :: u16
  rr_alive_sent_ms :: u64
  rr_alive_sent :: u8
  rr_last_seen_ms :: u64

definition round_default :: repair_round where
  "round_default =
     \<lparr>rr_sequence = 0, rr_last_missing = [], rr_first_missing_ms = 0, rr_last_sent_ms = 0,
      rr_alive_ids = [], rr_alive_desired_count = 0, rr_alive_sent_ms = 0, rr_alive_sent = 0,
      rr_last_seen_ms = 0\<rparr>"

definition next_sequence :: "u64 \<Rightarrow> u64" where
  "next_sequence n = max (n + 1) 1"

definition repair_payload ::
  "u16 list \<Rightarrow> u16 \<Rightarrow> u64 \<Rightarrow> repair_round \<Rightarrow> bytes option \<times> repair_round" where
  "repair_payload missing desired_count now_ms r0 =
     (let r = (if missing \<noteq> rr_last_missing r0
               then r0\<lparr>rr_sequence := next_sequence (rr_sequence r0), rr_last_missing := missing,
                       rr_first_missing_ms := now_ms, rr_last_sent_ms := 0, rr_alive_ids := [],
                       rr_alive_sent := 0\<rparr>
               else r0)
      in if saturating_sub now_ms (rr_first_missing_ms r) < STREAM_REPAIR_GRACE_MS then (None, r)
         else if rr_last_sent_ms r \<noteq> 0
           \<and> saturating_sub now_ms (rr_last_sent_ms r) < STREAM_REPAIR_ESCALATE_MS then (None, r)
         else let r = (if rr_last_sent_ms r \<noteq> 0
                       then r\<lparr>rr_sequence := next_sequence (rr_sequence r)\<rparr> else r);
                  r = r\<lparr>rr_last_sent_ms := now_ms\<rparr>
              in (Some (stream_control_payload STREAM_REPAIR_PREFIX (rr_sequence r) desired_count
                    (rr_last_missing r)), r))"

definition recovered :: "u16 \<Rightarrow> u64 \<Rightarrow> repair_round \<Rightarrow> repair_round" where
  "recovered desired_count now_ms r =
     (if rr_last_missing r = [] then r
      else r\<lparr>rr_alive_ids := rr_last_missing r, rr_last_missing := [],
             rr_alive_desired_count := desired_count, rr_alive_sent_ms := 0, rr_alive_sent := 0,
             rr_first_missing_ms := now_ms, rr_last_sent_ms := 0\<rparr>)"

definition alive_payload :: "u64 \<Rightarrow> repair_round \<Rightarrow> bytes option \<times> repair_round" where
  "alive_payload now_ms r =
     (if rr_alive_ids r = [] \<or> STREAM_ALIVE_REPEAT \<le> rr_alive_sent r
         \<or> (rr_alive_sent_ms r \<noteq> 0
              \<and> saturating_sub now_ms (rr_alive_sent_ms r) < STREAM_ALIVE_INTERVAL_MS) then (None, r)
      else let r = r\<lparr>rr_alive_sent := saturating_add (rr_alive_sent r) 1, rr_alive_sent_ms := now_ms\<rparr>
           in (Some (stream_control_payload STREAM_ALIVE_PREFIX (rr_sequence r)
                 (rr_alive_desired_count r) (rr_alive_ids r)), r))"

definition round_active :: "repair_round \<Rightarrow> bool" where
  "round_active r \<longleftrightarrow> rr_last_missing r \<noteq> []
     \<or> (rr_alive_ids r \<noteq> [] \<and> rr_alive_sent r < STREAM_ALIVE_REPEAT)"

section \<open>The client's repair state\<close>

record repair_slot =
  rs_restart_generation :: u64
  rs_credential_generation :: u64
  rs_last_sequence :: u64
  rs_ready_sequence :: u64

definition repair_slot_new :: repair_slot where
  "repair_slot_new = \<lparr>rs_restart_generation = 0, rs_credential_generation = 0, rs_last_sequence = 0,
                      rs_ready_sequence = 0\<rparr>"

type_synonym repair_state = "repair_slot list"

definition repair_state_new :: "nat \<Rightarrow> repair_state" where
  "repair_state_new desired_count = replicate (desired_count + 1) repair_slot_new"

definition repair_slot_at :: "nat \<Rightarrow> repair_state \<Rightarrow> repair_slot option" where
  "repair_slot_at worker_id st = (if worker_id = 0 then None else get_at st worker_id)"


definition credential_generation :: "nat \<Rightarrow> repair_state \<Rightarrow> u64" where
  "credential_generation worker_id st =
     (case repair_slot_at worker_id st of None \<Rightarrow> 0 | Some s \<Rightarrow> rs_credential_generation s)"

definition mark_ready :: "nat \<Rightarrow> repair_state \<Rightarrow> repair_state" where
  "mark_ready worker_id st =
     (case repair_slot_at worker_id st of
        None \<Rightarrow> st
      | Some s \<Rightarrow> st[worker_id := s\<lparr>rs_ready_sequence := rs_last_sequence s\<rparr>])"

text \<open>The result counts restarts and credential resets.\<close>

definition repair_one :: "u64 \<Rightarrow> nat \<Rightarrow> repair_state \<times> nat \<times> nat \<Rightarrow> repair_state \<times> nat \<times> nat" where
  "repair_one sequence worker_id res =
     (case res of (st, restarts, resets) \<Rightarrow>
        (case repair_slot_at worker_id st of
           None \<Rightarrow> (st, restarts, resets)
         | Some s \<Rightarrow>
             if sequence \<le> rs_last_sequence s then (st, restarts, resets)
             else let previous = rs_last_sequence s;
                      reset = (previous \<noteq> 0 \<and> rs_ready_sequence s < previous);
                      s = s\<lparr>rs_last_sequence := sequence,
                            rs_credential_generation :=
                              (if reset then rs_credential_generation s + 1 else rs_credential_generation s),
                            rs_restart_generation := rs_restart_generation s + 1\<rparr>
                  in (st[worker_id := s], restarts + 1, if reset then resets + 1 else resets)))"

definition apply_repair :: "stream_command \<Rightarrow> repair_state \<Rightarrow> repair_state \<times> nat \<times> nat" where
  "apply_repair command st =
     fold (\<lambda>w. repair_one (sc_sequence command) (unat w)) (sc_worker_ids command) (st, 0, 0)"

definition apply_alive :: "stream_command \<Rightarrow> repair_state \<Rightarrow> repair_state \<times> nat" where
  "apply_alive command st =
     fold (\<lambda>w (st, applied).
       case repair_slot_at (unat w) st of
         None \<Rightarrow> (st, applied)
       | Some s \<Rightarrow> (st[unat w := s\<lparr>rs_ready_sequence := max (rs_ready_sequence s) (sc_sequence command)\<rparr>],
                    applied + 1))
       (sc_worker_ids command) (st, 0)"

section \<open>Reconciliation\<close>

text \<open>What \<open>reconcile_streams\<close> reads of a session; \<open>ss_worker_id\<close> is the public worker
  number, \<open>ss_registered\<close> says that the session has a route registration.\<close>

record stream_session =
  ss_slot :: nat
  ss_id :: u64
  ss_identity :: stream_identity
  ss_desired_stream_count :: u16
  ss_registered :: bool
  ss_worker_id :: nat

record stream_action =
  sa_carriers :: "nat list"
  sa_payload :: bytes
  sa_repair :: "(stream_identity \<times> u16 \<times> u64 \<times> u16 list) option"

record stream_state =
  st_inventory :: "(stream_identity \<times> stream_inventory) list"
  st_repairs :: "(stream_identity \<times> repair_round) list"
  st_dirty :: bool
  st_last_resync_ms :: u64
  st_last_reconcile_ms :: u64

definition STREAM_RECONCILE_INTERVAL_MS :: u64 where
  "STREAM_RECONCILE_INTERVAL_MS = 3000"

definition STREAM_INVENTORY_RESYNC_MS :: u64 where
  "STREAM_INVENTORY_RESYNC_MS = 60000"

definition STREAM_ROUND_ORPHAN_TTL_MS :: u64 where
  "STREAM_ROUND_ORPHAN_TTL_MS = 60000"

definition stream_counted :: "stream_session \<Rightarrow> bool" where
  "stream_counted ss \<longleftrightarrow>
     (let desired_count = unat (ss_desired_stream_count ss) in
        \<not> (desired_count = 0 \<or> desired_count > MAX_STREAM_WORKERS \<or> \<not> ss_registered ss)
        \<and> \<not> (ss_worker_id ss = 0 \<or> ss_worker_id ss > desired_count
               \<or> ss_worker_id ss > MAX_STREAM_WORKERS))"

definition observe_session ::
  "stream_session \<Rightarrow> (stream_identity \<times> stream_inventory) list
     \<Rightarrow> (stream_identity \<times> stream_inventory) list" where
  "observe_session ss inventory =
     (if stream_counted ss then
        let streams = (case map_of inventory (ss_identity ss) of
                         None \<Rightarrow> inventory_new | Some streams \<Rightarrow> streams)
        in AList.update (ss_identity ss)
             (inventory_observe (ss_slot ss) (ss_id ss) (ss_desired_stream_count ss) (ss_worker_id ss)
               streams) inventory
      else inventory)"

definition rebuild_inventory ::
  "stream_session list \<Rightarrow> (stream_identity \<times> stream_inventory) list
     \<Rightarrow> (stream_identity \<times> stream_inventory) list" where
  "rebuild_inventory sessions inventory =
     filter (\<lambda>(_, streams). si_seen streams)
       (fold observe_session sessions (map (\<lambda>(k, streams). (k, inventory_reset streams)) inventory))"

definition reconcile_round ::
  "u64 \<Rightarrow> stream_inventory \<Rightarrow> stream_identity \<Rightarrow> repair_round \<Rightarrow> stream_action option \<times> repair_round" where
  "reconcile_round now_ms streams ident r0 =
     (let r = r0\<lparr>rr_last_seen_ms := now_ms\<rparr>;
          missing = fill_missing streams
      in if missing = [] then
           (case alive_payload now_ms (recovered (si_desired_count streams) now_ms r) of
              (None, r) \<Rightarrow> (None, r)
            | (Some payload, r) \<Rightarrow>
                (Some \<lparr>sa_carriers = si_carriers streams, sa_payload = payload, sa_repair = None\<rparr>, r))
         else
           (case repair_payload missing (si_desired_count streams) now_ms r of
              (None, r) \<Rightarrow> (None, r)
            | (Some payload, r) \<Rightarrow>
                (Some \<lparr>sa_carriers = si_carriers streams, sa_payload = payload,
                       sa_repair = Some (ident, si_desired_count streams, rr_sequence r, missing)\<rparr>, r)))"

fun reconcile_rounds ::
  "u64 \<Rightarrow> (stream_identity \<times> stream_inventory) list \<Rightarrow> (stream_identity \<times> repair_round) list
     \<Rightarrow> stream_action list \<times> (stream_identity \<times> repair_round) list" where
  "reconcile_rounds now_ms [] rounds = ([], rounds)"
| "reconcile_rounds now_ms ((ident, streams) # rest) rounds =
     (let r = (case map_of rounds ident of None \<Rightarrow> round_default | Some r \<Rightarrow> r);
          (action, r) = reconcile_round now_ms streams ident r;
          (actions, rounds) = reconcile_rounds now_ms rest (AList.update ident r rounds)
      in ((case action of None \<Rightarrow> actions | Some a \<Rightarrow> a # actions), rounds))"

definition round_retained ::
  "u64 \<Rightarrow> (stream_identity \<times> stream_inventory) list \<Rightarrow> stream_identity \<Rightarrow> repair_round \<Rightarrow> bool" where
  "round_retained now_ms inventory ident r \<longleftrightarrow>
     ident \<in> set (map fst inventory) \<or> \<not> round_active r
     \<or> saturating_sub now_ms (rr_last_seen_ms r) < STREAM_ROUND_ORPHAN_TTL_MS"

text \<open>\<open>reconcile_streams\<close> up to the sending of its actions.\<close>

definition reconcile_streams ::
  "u64 \<Rightarrow> stream_session list \<Rightarrow> stream_state \<Rightarrow> stream_action list \<times> stream_state" where
  "reconcile_streams now_ms sessions s0 =
     (if saturating_sub now_ms (st_last_reconcile_ms s0) < STREAM_RECONCILE_INTERVAL_MS then ([], s0)
      else let s = s0\<lparr>st_last_reconcile_ms := now_ms\<rparr>;
               s = (if st_dirty s
                       \<or> STREAM_INVENTORY_RESYNC_MS \<le> saturating_sub now_ms (st_last_resync_ms s)
                    then s\<lparr>st_inventory := rebuild_inventory sessions (st_inventory s), st_dirty := False,
                           st_last_resync_ms := now_ms\<rparr>
                    else s);
               (actions, rounds) = reconcile_rounds now_ms (st_inventory s) (st_repairs s)
           in (actions,
               s\<lparr>st_repairs := filter (\<lambda>(k, r). round_retained now_ms (st_inventory s) k r) rounds\<rparr>))"

text \<open>A run of reconciliations: for each the clock, the sessions, and whether a session came or went
  since the last one.\<close>

fun reconcile_run ::
  "(u64 \<times> stream_session list \<times> bool) list \<Rightarrow> stream_state \<Rightarrow> stream_action list \<times> stream_state" where
  "reconcile_run [] s = ([], s)"
| "reconcile_run ((now_ms, sessions, changed) # rest) s =
     (let (actions, s) = reconcile_streams now_ms sessions (s\<lparr>st_dirty := st_dirty s \<or> changed\<rparr>);
          (later, s) = reconcile_run rest s
      in (actions @ later, s))"

section \<open>The control messages round-trip\<close>




section \<open>Missing workers\<close>












section \<open>Repairs on the wire\<close>






















section \<open>Restarting the workers\<close>








definition sample_identity :: stream_identity where
  "sample_identity = \<lparr>sid_device_id = [100], sid_generation_id = 1, sid_session_salt = [115]\<rparr>"

definition sample_session :: "nat \<Rightarrow> stream_session" where
  "sample_session w =
     \<lparr>ss_slot = w, ss_id = word_of_nat w, ss_identity = sample_identity, ss_desired_stream_count = 3,
      ss_registered = True, ss_worker_id = w\<rparr>"

definition sample_streams :: stream_state where
  "sample_streams =
     \<lparr>st_inventory = [], st_repairs = [], st_dirty = False, st_last_resync_ms = 0,
      st_last_reconcile_ms = 0\<rparr>"



text \<open>A client of three workers loses the third, then the second, and is told so twice; then every
  session is gone for more than a minute, and the round, still active, is dropped. When the first
  worker is back the numbering starts again: the third repair has the number of the first, and a
  client that obeyed the second one takes it for an old copy.\<close>

theorem repair_numbers_restart_after_an_outage:
  "(let run = reconcile_run
      [(3000, [sample_session 1, sample_session 2], True), (33000, [sample_session 1, sample_session 2], False),
       (36000, [sample_session 1], True), (66000, [sample_session 1], False),
       (69000, [], True), (129000, [], False),
       (132000, [sample_session 1], True), (162000, [sample_session 1], False)] sample_streams;
       commands = List.map_filter (\<lambda>a. parse_stream_repair (sa_payload a)) (fst run)
    in map (\<lambda>c. (sc_sequence c, sc_worker_ids c)) commands = [(1, [3]), (2, [2, 3]), (1, [2, 3])]
       \<and> map (\<lambda>n. fst (snd (apply_repair (commands ! n)
            (fst (fold (\<lambda>c (st, _). apply_repair c st) (take n commands) (repair_state_new 3, 0, 0))))))
           [0, 1, 2] = [1, 2, 0])"
  by code_simp

end
