(* ===== verification/Turn_Stream.thy ===== *)
theory Turn_Stream
  imports Packet_Pool
begin

text \<open>
  TURN over a stream transport (\<open>rust-client/turn_stream.rs\<close>): the reader that cuts the byte
  stream into STUN messages and padded ChannelData messages, and the writer with its two queues.
  What the stream delivers is a list of read results; the TCP and TLS connection itself is not
  modelled.
\<close>

unbundle bit_operations_syntax

section \<open>Frames\<close>

definition MAX_CONTROL_FRAME_BYTES :: nat where
  "MAX_CONTROL_FRAME_BYTES = 4096"

definition MAX_DATA_FRAME_BYTES :: nat where
  "MAX_DATA_FRAME_BYTES = PACKET_CAPACITY - PACKET_HEADROOM"

definition STREAM_READ_BUFFER_BYTES :: nat where
  "STREAM_READ_BUFFER_BYTES = MAX_CONTROL_FRAME_BYTES"

datatype stream_error =
    UnalignedLength
  | ControlTooLong
  | InvalidCookie
  | ReservedType
  | DataTooLong
  | BufferError buf_error
  | HardLimit
  | ReadFailed
  | ClosedByPeer

datatype frame_kind = ControlKind nat | ChannelDataKind nat nat

datatype turn_stream_frame = ControlFrame bytes | DataFrame packet_buf | DataDropped

text \<open>The two \<open>checked_add\<close>s of the source cannot fail: a length field has 16 bits.\<close>

definition frame_start :: "bytes \<Rightarrow> stream_error + frame_kind option" where
  "frame_start bs =
     (if length bs < 4 then Inr None
      else let declared = unat (be16 bs 2) in
        if bs ! 0 AND 0xc0 = 0 then
          if \<not> 4 dvd declared then Inl UnalignedLength
          else let frame_bytes = 20 + declared in
            if MAX_CONTROL_FRAME_BYTES < frame_bytes then Inl ControlTooLong
            else if length bs < 8 then Inr None
            else if take 4 (drop 4 bs) \<noteq> [0x21, 0x12, 0xa4, 0x42] then Inl InvalidCookie
            else Inr (Some (ControlKind frame_bytes))
        else if bs ! 0 AND 0xc0 \<noteq> 0x40 then Inl ReservedType
        else let frame_bytes = 4 + declared;
                 padding = (4 - declared mod 4) mod 4
             in if MAX_DATA_FRAME_BYTES < frame_bytes + padding then Inl DataTooLong
                else Inr (Some (ChannelDataKind frame_bytes padding)))"

definition copy_channel_data ::
  "bytes \<Rightarrow> packet_pool \<Rightarrow> stream_error + (turn_stream_frame \<times> packet_pool)" where
  "copy_channel_data wire pool =
     (case client_try_acquire pool of
        None \<Rightarrow> Inr (DataDropped, pool)
      | Some (packet, pool) \<Rightarrow>
          (case set_read_len (length wire) packet of
             Inl e \<Rightarrow> Inl (BufferError e)
           | Inr packet \<Rightarrow> Inr (DataFrame (write_at (pb_start packet) wire packet), pool)))"

record stream_reader =
  sr_buffer :: bytes
  sr_pool :: packet_pool

definition decode_frame :: "stream_reader \<Rightarrow> stream_error + (turn_stream_frame option \<times> stream_reader)" where
  "decode_frame r =
     (let bs = sr_buffer r in
      case frame_start bs of
        Inl e \<Rightarrow> Inl e
      | Inr None \<Rightarrow> Inr (None, r)
      | Inr (Some (ControlKind frame_bytes)) \<Rightarrow>
          if length bs < frame_bytes then Inr (None, r)
          else Inr (Some (ControlFrame (take frame_bytes bs)), r\<lparr>sr_buffer := drop frame_bytes bs\<rparr>)
      | Inr (Some (ChannelDataKind frame_bytes padding)) \<Rightarrow>
          if length bs < frame_bytes + padding then Inr (None, r)
          else (case copy_channel_data (take (frame_bytes + padding) bs) (sr_pool r) of
                  Inl e \<Rightarrow> Inl e
                | Inr (frame, pool) \<Rightarrow>
                    Inr (Some frame, r\<lparr>sr_buffer := drop (frame_bytes + padding) bs, sr_pool := pool\<rparr>)))"

text \<open>One result of \<open>read_buf\<close>: some bytes (none at the end of the stream) or a failure. \<open>None\<close>
  as the result of \<open>read_frame\<close> means that it still waits for the stream.\<close>

datatype read_event = ReadBytes bytes | ReadError

fun read_frame ::
  "read_event list \<Rightarrow> stream_reader
     \<Rightarrow> (stream_error + turn_stream_frame) option \<times> stream_reader \<times> read_event list" where
  "read_frame evs r =
     (case decode_frame r of
        Inl e \<Rightarrow> (Some (Inl e), r, evs)
      | Inr (Some frame, r) \<Rightarrow> (Some (Inr frame), r, evs)
      | Inr (None, r) \<Rightarrow>
          if STREAM_READ_BUFFER_BYTES \<le> length (sr_buffer r) then (Some (Inl HardLimit), r, evs)
          else case evs of
                 [] \<Rightarrow> (None, r, [])
               | ReadError # evs \<Rightarrow> (Some (Inl ReadFailed), r, evs)
               | ReadBytes bs # evs \<Rightarrow>
                   if bs = [] then (Some (Inl ClosedByPeer), r, evs)
                   else read_frame evs (r\<lparr>sr_buffer := sr_buffer r @ bs\<rparr>))"

declare read_frame.simps [simp del]

text \<open>The owner's loop: frames until the first failure, the end of the budget or the wait for
  more input.\<close>

fun read_frames ::
  "nat \<Rightarrow> read_event list \<Rightarrow> stream_reader \<Rightarrow> turn_stream_frame list \<times> stream_reader \<times> read_event list" where
  "read_frames 0 evs r = ([], r, evs)"
| "read_frames (Suc n) evs r =
     (case read_frame evs r of
        (Some (Inr frame), r, evs) \<Rightarrow>
          (case read_frames n evs r of (frames, r, evs) \<Rightarrow> (frame # frames, r, evs))
      | (_, r, evs) \<Rightarrow> ([], r, evs))"

section \<open>The writer\<close>

definition CONTROL_QUEUE_CAPACITY :: nat where
  "CONTROL_QUEUE_CAPACITY = 16"

definition DATA_QUEUE_CAPACITY :: nat where
  "DATA_QUEUE_CAPACITY = 8"

text \<open>The two channels; \<open>sw_stopped\<close> after the loop has returned, \<open>sw_closed\<close> once the
  \<open>TurnStreamWriter\<close>, which owns both senders, is gone.\<close>

record stream_writer =
  sw_control :: "bytes list"
  sw_data :: "packet_buf list"
  sw_closed :: bool
  sw_stopped :: bool
  sw_wire :: bytes
  sw_failure :: bool

definition writer_new :: stream_writer where
  "writer_new = \<lparr>sw_control = [], sw_data = [], sw_closed = False, sw_stopped = False, sw_wire = [],
                 sw_failure = False\<rparr>"

text \<open>\<open>None\<close>: the queue is full and the caller waits.\<close>

definition write_control :: "bytes \<Rightarrow> stream_writer \<Rightarrow> (bool \<times> stream_writer) option" where
  "write_control wire w =
     (if sw_stopped w then Some (False, w)
      else if length (sw_control w) < CONTROL_QUEUE_CAPACITY
      then Some (True, w\<lparr>sw_control := sw_control w @ [wire]\<rparr>)
      else None)"

text \<open>\<open>None\<close>: the error of a closed queue.\<close>

definition try_write_data :: "packet_buf \<Rightarrow> stream_writer \<Rightarrow> (bool \<times> stream_writer) option" where
  "try_write_data packet w =
     (if sw_stopped w then None
      else if length (sw_data w) < DATA_QUEUE_CAPACITY
      then Some (True, w\<lparr>sw_data := sw_data w @ [packet]\<rparr>)
      else Some (False, w))"

datatype stream_outbound = OutControl bytes | OutData packet_buf

definition writer_next :: "stream_writer \<Rightarrow> (stream_outbound \<times> stream_writer) option" where
  "writer_next w =
     (case sw_control w of
        wire # rest \<Rightarrow> Some (OutControl wire, w\<lparr>sw_control := rest\<rparr>)
      | [] \<Rightarrow>
          (case sw_data w of
             packet # rest \<Rightarrow> Some (OutData packet, w\<lparr>sw_data := rest\<rparr>)
           | [] \<Rightarrow> None))"

definition outbound_wire :: "stream_outbound \<Rightarrow> bytes" where
  "outbound_wire ob = (case ob of OutControl wire \<Rightarrow> wire | OutData packet \<Rightarrow> as_slice packet)"

text \<open>One round of the loop; \<open>written\<close> is the result of \<open>write_all\<close>: all bytes, or a failure after
  some of them.\<close>

definition writer_round :: "nat option \<Rightarrow> stream_writer \<Rightarrow> stream_writer" where
  "writer_round written w =
     (if sw_stopped w then w
      else case writer_next w of
        None \<Rightarrow> if sw_closed w then w\<lparr>sw_stopped := True\<rparr> else w
      | Some (ob, w) \<Rightarrow>
          (case written of
             None \<Rightarrow> w\<lparr>sw_wire := sw_wire w @ outbound_wire ob\<rparr>
           | Some n \<Rightarrow> w\<lparr>sw_wire := sw_wire w @ take n (outbound_wire ob), sw_stopped := True,
                         sw_failure := True\<rparr>))"

section \<open>Well-formed frames\<close>

text \<open>What a TURN server may put on the stream: a STUN message, or ChannelData padded to a
  multiple of four.\<close>

definition control_wire :: "bytes \<Rightarrow> bool" where
  "control_wire w \<longleftrightarrow> 20 \<le> length w \<and> length w \<le> MAX_CONTROL_FRAME_BYTES \<and> w ! 0 AND 0xc0 = 0
     \<and> length w = 20 + unat (be16 w 2) \<and> 4 dvd length w
     \<and> take 4 (drop 4 w) = [0x21, 0x12, 0xa4, 0x42]"

definition data_wire :: "bytes \<Rightarrow> bool" where
  "data_wire w \<longleftrightarrow> 4 \<le> length w \<and> length w \<le> MAX_DATA_FRAME_BYTES \<and> w ! 0 AND 0xc0 = 0x40
     \<and> 4 dvd length w \<and> 4 + unat (be16 w 2) \<le> length w \<and> length w < 8 + unat (be16 w 2)"

lemma be16_append: "i + 2 \<le> length bs \<Longrightarrow> be16 (bs @ cs) i = be16 bs i"
  by (simp add: be16_def)

lemma padded_length:
  assumes "4 dvd (n :: nat)" and "4 + d \<le> n" and "n < 8 + d"
  shows "4 + d + (4 - d mod 4) mod 4 = n"
proof -
  obtain m where m: "n = 4 * m" using assms(1) by blast
  define q t where "q = d div 4" and "t = d mod 4"
  have d: "d = 4 * q + t" and "t < 4" by (simp_all add: q_def t_def)
  then have "t = 0 \<or> t = 1 \<or> t = 2 \<or> t = 3" by linarith
  then have "4 + (4 * q + t) + (4 - t) mod 4 = 4 * m"
    using assms(2,3) unfolding m d by (elim disjE) (simp_all, presburger+)
  then show ?thesis by (simp only: m t_def [symmetric]) (simp only: d)
qed

text \<open>The header decides about the frame, whether the buffer holds less or more than it.\<close>

lemma frame_start_control:
  assumes "control_wire w" and "4 \<le> length bs" and "bs ! 0 = w ! 0" and "be16 bs 2 = be16 w 2"
    and "8 \<le> length bs \<Longrightarrow> take 4 (drop 4 bs) = take 4 (drop 4 w)"
  shows "frame_start bs = Inr (if length bs < 8 then None else Some (ControlKind (length w)))"
proof -
  have len: "length w = 20 + unat (be16 bs 2)" and "4 dvd length w"
    using assms(1,4) by (auto simp: control_wire_def)
  then have "4 dvd unat (be16 bs 2)" by presburger
  then show ?thesis
    using assms len by (auto simp: frame_start_def Let_def control_wire_def)
qed

lemma frame_start_data:
  assumes "data_wire w" and "4 \<le> length bs" and "bs ! 0 = w ! 0" and "be16 bs 2 = be16 w 2"
  shows "\<exists>f p. f + p = length w \<and> frame_start bs = Inr (Some (ChannelDataKind f p))"
proof -
  let ?d = "unat (be16 bs 2)"
  have pad: "4 + ?d + (4 - ?d mod 4) mod 4 = length w"
    using assms(1,4) unfolding data_wire_def by (intro padded_length) auto
  moreover have "length w \<le> MAX_DATA_FRAME_BYTES" "bs ! 0 AND 0xc0 = 0x40"
    using assms(1,3) by (simp_all add: data_wire_def)
  ultimately have "frame_start bs = Inr (Some (ChannelDataKind (4 + ?d) ((4 - ?d mod 4) mod 4)))"
    using assms(2) by (simp add: frame_start_def Let_def)
  then show ?thesis using pad by blast
qed

lemma header_prefix:
  assumes "4 \<le> length bs"
  shows "(bs @ cs) ! 0 = bs ! 0" "be16 (bs @ cs) 2 = be16 bs 2"
    "8 \<le> length bs \<Longrightarrow> take 4 (drop 4 (bs @ cs)) = take 4 (drop 4 bs)"
  using assms be16_append [of 2 bs cs] by (auto simp: nth_append)

section \<open>The reader\<close>

definition frame_carries :: "bytes \<Rightarrow> turn_stream_frame \<Rightarrow> bool" where
  "frame_carries w f =
     (case f of
        ControlFrame bs \<Rightarrow> control_wire w \<and> bs = w
      | DataFrame packet \<Rightarrow> data_wire w \<and> as_slice packet = w \<and> buf_ok packet
      | DataDropped \<Rightarrow> False)"

definition pool_room :: "nat \<Rightarrow> packet_pool \<Rightarrow> bool" where
  "pool_room k pool \<longleftrightarrow> (\<exists>n. pool_accounted PACKET_CAPACITY n pool \<and> n + k \<le> pp_capacity pool)"

lemma pool_room_less: "pool_room (Suc k) pool \<Longrightarrow> pool_room k pool"
  by (auto simp: pool_room_def)

lemma copy_channel_data_ok:
  assumes "data_wire w" and "pool_room (Suc k) pool"
  shows "\<exists>packet pool'. copy_channel_data w pool = Inr (DataFrame packet, pool')
    \<and> frame_carries w (DataFrame packet) \<and> pool_room k pool'"
proof -
  obtain n where n: "pool_accounted PACKET_CAPACITY n pool" "n + Suc k \<le> pp_capacity pool"
    using assms(2) by (auto simp: pool_room_def)
  then obtain s pool' where acq: "acquire_storage PACKET_CAPACITY pool = Some (s, pool')"
    using acquire_storage_None [OF n(1)] by (cases "acquire_storage PACKET_CAPACITY pool") auto
  have s: "length s = PACKET_CAPACITY" and p': "pool_accounted PACKET_CAPACITY (Suc n) pool'"
    using acquire_storage_accounted [OF n(1) acq] by auto
  have "pool_room k pool'" using p' n(2) acquire_capacity [OF acq] by (auto simp: pool_room_def)
  moreover have l: "length w \<le> PACKET_CAPACITY - PACKET_HEADROOM"
    using assms(1) by (simp add: data_wire_def MAX_DATA_FRAME_BYTES_def)
  ultimately show ?thesis
    using acq s assms(1)
    by (auto simp: copy_channel_data_def client_try_acquire_def set_read_len_def write_at_def
        frame_carries_def as_slice_def buf_ok_def PACKET_CAPACITY_def PACKET_HEADROOM_def)
qed

text \<open>A buffer that starts with a whole frame yields it; one that ends inside the first frame
  waits for more.\<close>

lemma decode_frame_whole:
  assumes "sr_buffer r = w @ rest" and "control_wire w \<or> data_wire w" and "pool_room (Suc k) (sr_pool r)"
  shows "\<exists>f pool'. decode_frame r = Inr (Some f, r\<lparr>sr_buffer := rest, sr_pool := pool'\<rparr>)
    \<and> frame_carries w f \<and> pool_room k pool'"
  using assms(2)
proof
  assume c: "control_wire w"
  then have l: "8 \<le> length w" by (simp add: control_wire_def)
  have "frame_start (w @ rest) = Inr (Some (ControlKind (length w)))"
    using frame_start_control [OF c, of "w @ rest"] header_prefix [of w rest] l by auto
  then have "decode_frame r = Inr (Some (ControlFrame w), r\<lparr>sr_buffer := rest\<rparr>)"
    using assms(1) by (simp add: decode_frame_def Let_def)
  then show ?thesis
    using c pool_room_less [OF assms(3)]
    by (intro exI [of _ "ControlFrame w"] exI [of _ "sr_pool r"]) (simp add: frame_carries_def)
next
  assume d: "data_wire w"
  then have l: "4 \<le> length w" by (simp add: data_wire_def)
  obtain f p where fp: "f + p = length w" "frame_start (w @ rest) = Inr (Some (ChannelDataKind f p))"
    using frame_start_data [OF d, of "w @ rest"] header_prefix [of w rest] l by auto
  obtain packet pool' where "copy_channel_data w (sr_pool r) = Inr (DataFrame packet, pool')"
    and "frame_carries w (DataFrame packet)" "pool_room k pool'"
    using copy_channel_data_ok [OF d assms(3)] by blast
  then show ?thesis using fp assms(1)
    by (intro exI [of _ "DataFrame packet"] exI [of _ pool']) (simp add: decode_frame_def Let_def)
qed

lemma decode_frame_partial:
  assumes "w = sr_buffer r @ rest" and "rest \<noteq> []" and "control_wire w \<or> data_wire w"
  shows "decode_frame r = Inr (None, r) \<and> length (sr_buffer r) < STREAM_READ_BUFFER_BYTES"
proof -
  have len: "length (sr_buffer r) < length w" using assms(1,2) by (cases rest) auto
  moreover have "length w \<le> STREAM_READ_BUFFER_BYTES"
    using assms(3) by (auto simp: control_wire_def data_wire_def STREAM_READ_BUFFER_BYTES_def
        MAX_CONTROL_FRAME_BYTES_def MAX_DATA_FRAME_BYTES_def PACKET_CAPACITY_def)
  moreover have "decode_frame r = Inr (None, r)"
  proof (cases "length (sr_buffer r) < 4")
    case True
    then show ?thesis by (simp add: decode_frame_def frame_start_def)
  next
    case False
    then have h: "4 \<le> length (sr_buffer r)" by simp
    note hp = header_prefix [OF h, of rest, folded assms(1)]
    from assms(3) show ?thesis
    proof
      assume c: "control_wire w"
      from frame_start_control [OF c h] hp len show ?thesis by (simp add: decode_frame_def Let_def)
    next
      assume d: "data_wire w"
      from frame_start_data [OF d h] hp len show ?thesis by (auto simp: decode_frame_def Let_def)
    qed
  qed
  ultimately show ?thesis by simp
qed

lemma read_frame_reassembles:
  "sr_buffer r @ concat chunks = w @ rest \<Longrightarrow> control_wire w \<or> data_wire w \<Longrightarrow> [] \<notin> set chunks
    \<Longrightarrow> pool_room (Suc k) (sr_pool r)
    \<Longrightarrow> \<exists>f r' chunks'. read_frame (map ReadBytes chunks) r = (Some (Inr f), r', map ReadBytes chunks')
      \<and> frame_carries w f \<and> sr_buffer r' @ concat chunks' = rest \<and> [] \<notin> set chunks'
      \<and> pool_room k (sr_pool r')"
proof (induction chunks arbitrary: r)
  case Nil
  then obtain f pool' where f: "decode_frame r = Inr (Some f, r\<lparr>sr_buffer := rest, sr_pool := pool'\<rparr>)"
    "frame_carries w f" "pool_room k pool'"
    using decode_frame_whole [of r w rest k] by auto
  then show ?case
    by (intro exI [of _ f] exI [of _ "r\<lparr>sr_buffer := rest, sr_pool := pool'\<rparr>"] exI [of _ "[]"])
      (simp add: read_frame.simps)
next
  case (Cons c cs)
  consider us where "sr_buffer r = w @ us" "us @ concat (c # cs) = rest"
    | us where "w = sr_buffer r @ us" "us \<noteq> []"
  proof -
    obtain us where us: "sr_buffer r = w @ us \<and> us @ concat (c # cs) = rest
      \<or> sr_buffer r @ us = w \<and> concat (c # cs) = us @ rest"
      using Cons.prems(1) unfolding append_eq_append_conv2 by blast
    show thesis
    proof (cases "us = []")
      case True
      then show thesis using us that(1) [of "[]"] by auto
    next
      case False
      then show thesis using us that by blast
    qed
  qed
  then show ?case
  proof cases
    case (1 us)
    then obtain f pool' where f: "decode_frame r = Inr (Some f, r\<lparr>sr_buffer := us, sr_pool := pool'\<rparr>)"
      "frame_carries w f" "pool_room k pool'"
      using decode_frame_whole [of r w us k] Cons.prems by auto
    then show ?thesis using 1(2) Cons.prems(3)
      by (intro exI [of _ f] exI [of _ "r\<lparr>sr_buffer := us, sr_pool := pool'\<rparr>"] exI [of _ "c # cs"])
        (simp add: read_frame.simps)
  next
    case (2 us)
    let ?r = "r\<lparr>sr_buffer := sr_buffer r @ c\<rparr>"
    have "read_frame (map ReadBytes (c # cs)) r = read_frame (map ReadBytes cs) ?r"
      using decode_frame_partial [OF 2] Cons.prems(2,3)
      by (subst read_frame.simps) auto
    then show ?thesis using Cons.IH [of ?r] Cons.prems by simp
  qed
qed

text \<open>C25: the frames of a stream survive any cut of it. However the transport splits the bytes of
  a sequence of STUN and ChannelData messages into reads, the reader delivers exactly these messages
  in order, padding included, none of them dropped while the pool has room, and leaves no byte
  behind.\<close>

theorem stream_frames_survive_any_cut:
  assumes "list_all (\<lambda>w. control_wire w \<or> data_wire w) wires"
    and "concat chunks = concat wires" and "[] \<notin> set chunks"
    and "pool_room (length wires) pool"
  shows "\<exists>frames pool'. read_frames (length wires) (map ReadBytes chunks) \<lparr>sr_buffer = [], sr_pool = pool\<rparr>
      = (frames, \<lparr>sr_buffer = [], sr_pool = pool'\<rparr>, []) \<and> list_all2 frame_carries wires frames"
proof -
  have "sr_buffer r @ concat chunks = concat wires \<Longrightarrow> [] \<notin> set chunks
    \<Longrightarrow> pool_room (length wires) (sr_pool r)
    \<Longrightarrow> \<exists>frames r'. read_frames (length wires) (map ReadBytes chunks) r = (frames, r', [])
          \<and> sr_buffer r' = [] \<and> list_all2 frame_carries wires frames" for r
    using assms(1)
  proof (induction wires arbitrary: r chunks)
    case Nil
    then show ?case by (cases chunks) auto
  next
    case (Cons w ws)
    obtain f r' chunks' where f: "read_frame (map ReadBytes chunks) r = (Some (Inr f), r', map ReadBytes chunks')"
      "frame_carries w f" "sr_buffer r' @ concat chunks' = concat ws" "[] \<notin> set chunks'"
      "pool_room (length ws) (sr_pool r')"
      using read_frame_reassembles [of r chunks w "concat ws" "length ws"] Cons.prems by auto
    obtain frames r'' where "read_frames (length ws) (map ReadBytes chunks') r' = (frames, r'', [])"
      "sr_buffer r'' = []" "list_all2 frame_carries ws frames"
      using Cons.IH [OF f(3,4,5)] Cons.prems(4) by auto
    then show ?case using f by auto
  qed
  from this [of "\<lparr>sr_buffer = [], sr_pool = pool\<rparr>"] obtain frames r' where
    "read_frames (length wires) (map ReadBytes chunks) \<lparr>sr_buffer = [], sr_pool = pool\<rparr> = (frames, r', [])"
    "sr_buffer r' = []" "list_all2 frame_carries wires frames"
    using assms by auto
  then show ?thesis by (cases r') simp
qed

theorem stream_frames_survive_any_cut_witness:
  "\<exists>frames pool'. read_frames 2
      (map ReadBytes [[0x40, 0], [0, 3, 1, 2, 3, 0, 1], [1, 0, 0, 0x21, 0x12, 0xa4, 0x42, 0, 0, 0, 0, 0],
        [0, 0, 0, 0, 0, 0, 0]])
      \<lparr>sr_buffer = [], sr_pool = client_pool_new 2\<rparr>
      = (frames, \<lparr>sr_buffer = [], sr_pool = pool'\<rparr>, [])
    \<and> list_all2 frame_carries
        [[0x40, 0, 0, 3, 1, 2, 3, 0],
         [1, 1, 0, 0, 0x21, 0x12, 0xa4, 0x42, 0, 0, 0, 0, 0, 0, 0, 0, 0, 0, 0, 0]] frames"
proof -
  have "pool_room 2 (client_pool_new 2)"
    using pool_new_accounted [of PACKET_CAPACITY PACKET_POOL_RETAINED_MAX 2]
    unfolding pool_room_def client_pool_new_def
    by (intro exI [of _ 0]) (simp add: pool_new_def Let_def)
  moreover have "list_all (\<lambda>w. control_wire w \<or> data_wire w)
      [[0x40, 0, 0, 3, 1, 2, 3, 0],
       [1, 1, 0, 0, 0x21, 0x12, 0xa4, 0x42, 0, 0, 0, 0, 0, 0, 0, 0, 0, 0, 0, 0]]"
    by code_simp
  ultimately show ?thesis
    using stream_frames_survive_any_cut
      [of "[[0x40, 0, 0, 3, 1, 2, 3, 0],
            [1, 1, 0, 0, 0x21, 0x12, 0xa4, 0x42, 0, 0, 0, 0, 0, 0, 0, 0, 0, 0, 0, 0]]"
        "[[0x40, 0], [0, 3, 1, 2, 3, 0, 1], [1, 0, 0, 0x21, 0x12, 0xa4, 0x42, 0, 0, 0, 0, 0],
          [0, 0, 0, 0, 0, 0, 0]]" "client_pool_new 2"]
    by (simp add: numeral_2_eq_2)
qed

section \<open>Failures of the reader\<close>

lemma frame_start_bounds:
  "frame_start bs = Inr None \<Longrightarrow> length bs < 8"
  "frame_start bs = Inr (Some (ControlKind n)) \<Longrightarrow> n \<le> MAX_CONTROL_FRAME_BYTES"
  "frame_start bs = Inr (Some (ChannelDataKind f p)) \<Longrightarrow> f + p \<le> MAX_DATA_FRAME_BYTES"
  by (auto simp: frame_start_def Let_def split: if_splits)

lemma copy_channel_data_total:
  "length wire \<le> MAX_DATA_FRAME_BYTES \<Longrightarrow> copy_channel_data wire pool \<noteq> Inl e"
  by (auto simp: copy_channel_data_def MAX_DATA_FRAME_BYTES_def set_read_len_def split: option.split)

lemma decode_frame_error:
  assumes "decode_frame r = Inl e"
  shows "frame_start (sr_buffer r) = Inl e"
  using assms frame_start_bounds(3) [of "sr_buffer r"] copy_channel_data_total
  by (auto simp: decode_frame_def Let_def split: sum.splits option.splits frame_kind.splits if_splits)

lemma decode_frame_waits:
  assumes "decode_frame r = Inr (None, r')"
  shows "r' = r \<and> length (sr_buffer r) < STREAM_READ_BUFFER_BYTES"
  using assms frame_start_bounds [of "sr_buffer r"]
  by (fastforce simp: decode_frame_def Let_def STREAM_READ_BUFFER_BYTES_def MAX_CONTROL_FRAME_BYTES_def
      MAX_DATA_FRAME_BYTES_def PACKET_CAPACITY_def
      split: sum.splits option.splits frame_kind.splits if_splits)

lemma frame_start_error:
  "frame_start bs = Inl e \<Longrightarrow> e \<in> {UnalignedLength, ControlTooLong, InvalidCookie, ReservedType, DataTooLong}"
  by (auto simp: frame_start_def Let_def split: if_splits)

lemma read_frame_waits:
  assumes "decode_frame r = Inr (None, r1)"
  shows "read_frame [] r = (None, r, [])"
    "read_frame (ReadError # evs) r = (Some (Inl ReadFailed), r, evs)"
    "read_frame (ReadBytes bs # evs) r =
      (if bs = [] then (Some (Inl ClosedByPeer), r, evs)
       else read_frame evs (r\<lparr>sr_buffer := sr_buffer r @ bs\<rparr>))"
  using assms decode_frame_waits [OF assms] by (simp_all add: read_frame.simps)

text \<open>C38: whatever the peer sends, a read fails only because the stream failed, because the peer
  closed it, or because the buffered bytes start with a header that no frame has; the limit of the
  read buffer and the capacity of a packet buffer are never the reason, and a failed read has taken
  nothing from the pool.\<close>

theorem stream_reader_fails_only_on_bad_input:
  assumes "read_frame evs r = (Some (Inl e), r', evs')"
  shows "sr_pool r' = sr_pool r \<and>
    (case e of
       ReadFailed \<Rightarrow> ReadError \<in> set evs
     | ClosedByPeer \<Rightarrow> ReadBytes [] \<in> set evs
     | HardLimit \<Rightarrow> False
     | BufferError _ \<Rightarrow> False
     | _ \<Rightarrow> frame_start (sr_buffer r') = Inl e)"
  using assms
proof (induction evs arbitrary: r)
  case Nil
  show ?case
  proof (cases "decode_frame r")
    case (Inl e0)
    then show ?thesis
      using Nil decode_frame_error [OF Inl] frame_start_error [of "sr_buffer r" e]
      by (auto simp: read_frame.simps)
  next
    case (Inr d)
    obtain fo r1 where d: "d = (fo, r1)" by (rule prod.exhaust)
    have "fo = None" using Nil Inr d by (cases fo) (auto simp: read_frame.simps)
    then show ?thesis using Nil read_frame_waits(1) Inr d by simp
  qed
next
  case (Cons ev evs)
  show ?case
  proof (cases "decode_frame r")
    case (Inl e0)
    then show ?thesis
      using Cons.prems decode_frame_error [OF Inl] frame_start_error [of "sr_buffer r" e]
      by (auto simp: read_frame.simps)
  next
    case (Inr d)
    obtain fo r1 where d: "d = (fo, r1)" by (rule prod.exhaust)
    have "fo = None" using Cons.prems Inr d by (cases fo) (auto simp: read_frame.simps)
    note waits = read_frame_waits [OF Inr [unfolded d this]]
    show ?thesis
    proof (cases ev)
      case (ReadBytes bs)
      then show ?thesis
        using Cons.prems Cons.IH [of "r\<lparr>sr_buffer := sr_buffer r @ bs\<rparr>"]
        by (auto simp: waits split: if_splits stream_error.splits)
    next
      case ReadError
      then show ?thesis using Cons.prems by (auto simp: waits)
    qed
  qed
qed

theorem stream_reader_fails_only_on_bad_input_witness:
  "fst (read_frame [ReadBytes [0x80], ReadBytes [0, 0xff, 0xff]]
      \<lparr>sr_buffer = [], sr_pool = client_pool_new 1\<rparr>) = Some (Inl ReservedType)
    \<and> sr_pool (fst (snd (read_frame [ReadBytes [0x80], ReadBytes [0, 0xff, 0xff]]
      \<lparr>sr_buffer = [], sr_pool = client_pool_new 1\<rparr>))) = client_pool_new 1"
proof -
  define run where "run = read_frame [ReadBytes [0x80], ReadBytes [0, 0xff, 0xff]]
      \<lparr>sr_buffer = [], sr_pool = client_pool_new 1\<rparr>"
  have e: "fst run = Some (Inl ReservedType)"
    by (simp add: run_def read_frame.simps decode_frame_def frame_start_def STREAM_READ_BUFFER_BYTES_def
        MAX_CONTROL_FRAME_BYTES_def)
  then have "read_frame [ReadBytes [0x80], ReadBytes [0, 0xff, 0xff]]
      \<lparr>sr_buffer = [], sr_pool = client_pool_new 1\<rparr> = (Some (Inl ReservedType), fst (snd run), snd (snd run))"
    unfolding run_def [symmetric] by (simp add: prod_eq_iff)
  from stream_reader_fails_only_on_bad_input [OF this] e show ?thesis
    unfolding run_def [symmetric] by simp
qed

section \<open>The writer keeps frames whole\<close>

definition writer_ok :: "stream_writer \<Rightarrow> bool" where
  "writer_ok w \<longleftrightarrow> length (sw_control w) \<le> CONTROL_QUEUE_CAPACITY \<and> length (sw_data w) \<le> DATA_QUEUE_CAPACITY"

lemma writer_ops_ok:
  "writer_ok writer_new"
  "writer_ok w \<Longrightarrow> write_control wire w = Some (b, w') \<Longrightarrow> writer_ok w'"
  "writer_ok w \<Longrightarrow> try_write_data packet w = Some (b, w') \<Longrightarrow> writer_ok w'"
  "writer_ok w \<Longrightarrow> writer_ok (writer_round written w)"
  by (auto simp: writer_ok_def writer_new_def write_control_def try_write_data_def writer_round_def
      writer_next_def split: if_splits list.splits option.splits)

text \<open>Control messages overtake data, and every message goes out in one piece.\<close>

lemma writer_round_control:
  "\<not> sw_stopped w \<Longrightarrow> sw_control w = c # cs \<Longrightarrow>
    writer_round None w = w\<lparr>sw_control := cs, sw_wire := sw_wire w @ c\<rparr>"
  by (simp add: writer_round_def writer_next_def outbound_wire_def)

lemma writer_round_data:
  "\<not> sw_stopped w \<Longrightarrow> sw_control w = [] \<Longrightarrow> sw_data w = d # ds \<Longrightarrow>
    writer_round None w = w\<lparr>sw_data := ds, sw_wire := sw_wire w @ as_slice d\<rparr>"
  by (simp add: writer_round_def writer_next_def outbound_wire_def)

lemma writer_drains_data:
  "\<not> sw_stopped w \<Longrightarrow> sw_control w = [] \<Longrightarrow> sw_data w = ds \<Longrightarrow>
    (writer_round None ^^ length ds) w
      = w\<lparr>sw_data := [], sw_wire := sw_wire w @ concat (map as_slice ds)\<rparr>"
proof (induction ds arbitrary: w)
  case (Cons d ds)
  then show ?case using writer_round_data [of w d ds]
    by (simp add: funpow_Suc_right del: funpow.simps)
qed simp

lemma writer_drains:
  "\<not> sw_stopped w \<Longrightarrow> sw_control w = cs \<Longrightarrow>
    (writer_round None ^^ (length (sw_data w) + length cs)) w
      = w\<lparr>sw_control := [], sw_data := [],
          sw_wire := sw_wire w @ concat cs @ concat (map as_slice (sw_data w))\<rparr>"
proof (induction cs arbitrary: w)
  case Nil
  then show ?case using writer_drains_data [of w] by simp
next
  case (Cons c cs)
  then show ?case
    using writer_round_control [of w c cs] Cons.IH [of "w\<lparr>sw_control := cs, sw_wire := sw_wire w @ c\<rparr>"]
    by (simp add: funpow_Suc_right del: funpow.simps)
qed

end
