(* ===== verification/Packet_Queue.thy ===== *)
theory Packet_Queue
  imports Prelude
begin

text \<open>
  The client's packet channel (\<open>rust-client/dispatcher.rs\<close>): a bounded queue whose entries carry
  the epoch of the receiver in which their sender looked at the queue, so that what was sent before
  a reconnection of the receiver is not delivered after it. The operations are given twice: as
  functions on the queue, and cut at their atomic accesses, for interleavings of several senders
  with the receiver.
\<close>

unbundle bit_operations_syntax

section \<open>The queue\<close>

definition QUEUE_ACTIVE :: u64 where
  "QUEUE_ACTIVE = 1"

record 'p packet_queue =
  pq_items :: "('p \<times> u64) list"
  pq_capacity :: nat
  pq_state :: u64
  pq_senders :: nat
  pq_receiver_open :: bool

definition packet_channel :: "nat \<Rightarrow> bool \<Rightarrow> 'p packet_queue" where
  "packet_channel capacity active =
     \<lparr>pq_items = [], pq_capacity = max capacity 1, pq_state = (if active then QUEUE_ACTIVE else 0),
      pq_senders = 1, pq_receiver_open = True\<rparr>"

definition clone_sender :: "'p packet_queue \<Rightarrow> 'p packet_queue" where
  "clone_sender q = q\<lparr>pq_senders := pq_senders q + 1\<rparr>"

definition drop_sender :: "'p packet_queue \<Rightarrow> 'p packet_queue" where
  "drop_sender q = q\<lparr>pq_senders := pq_senders q - 1\<rparr>"

definition state_active :: "u64 \<Rightarrow> bool" where
  "state_active st \<longleftrightarrow> st AND QUEUE_ACTIVE \<noteq> 0"

definition state_epoch :: "u64 \<Rightarrow> u64" where
  "state_epoch st = drop_bit 1 st"

text \<open>\<open>ArrayQueue::push\<close> and \<open>force_push\<close>: the former fails on a full queue, the latter evicts the
  oldest entry.\<close>

definition queue_push :: "bool \<Rightarrow> 'p \<Rightarrow> u64 \<Rightarrow> 'p packet_queue \<Rightarrow> bool \<times> 'p packet_queue" where
  "queue_push force p epoch q =
     (if length (pq_items q) < pq_capacity q then (True, q\<lparr>pq_items := pq_items q @ [(p, epoch)]\<rparr>)
      else if force then (True, q\<lparr>pq_items := tl (pq_items q) @ [(p, epoch)]\<rparr>)
      else (False, q))"

definition send_inner :: "bool \<Rightarrow> 'p \<Rightarrow> 'p packet_queue \<Rightarrow> bool \<times> 'p packet_queue" where
  "send_inner force p q =
     (if \<not> pq_receiver_open q then (False, q)
      else let st = pq_state q in
        if \<not> state_active st then (False, q)
        else queue_push force p (state_epoch st) q)"

definition try_send :: "'p \<Rightarrow> 'p packet_queue \<Rightarrow> bool \<times> 'p packet_queue" where
  "try_send p q = send_inner False p q"

definition force_send :: "'p \<Rightarrow> 'p packet_queue \<Rightarrow> bool \<times> 'p packet_queue" where
  "force_send p q = send_inner True p q"

definition accepts :: "u64 \<Rightarrow> u64 \<Rightarrow> bool" where
  "accepts epoch st \<longleftrightarrow> state_active st \<and> epoch = state_epoch st"

fun recv_items :: "u64 \<Rightarrow> ('p \<times> u64) list \<Rightarrow> 'p option \<times> ('p \<times> u64) list" where
  "recv_items st [] = (None, [])"
| "recv_items st ((p, epoch) # rest) = (if accepts epoch st then (Some p, rest) else recv_items st rest)"

definition try_recv :: "'p packet_queue \<Rightarrow> 'p option \<times> 'p packet_queue" where
  "try_recv q = (case recv_items (pq_state q) (pq_items q) of (p, rest) \<Rightarrow> (p, q\<lparr>pq_items := rest\<rparr>))"

definition purge :: "'p packet_queue \<Rightarrow> 'p packet_queue" where
  "purge q = q\<lparr>pq_items := []\<rparr>"

definition resumed_epoch :: "u64 \<Rightarrow> u64" where
  "resumed_epoch st = saturating_add (state_epoch st) 1"

definition resume :: "'p packet_queue \<Rightarrow> 'p packet_queue" where
  "resume q =
     (let epoch = resumed_epoch (pq_state q);
          q = purge (q\<lparr>pq_state := push_bit 1 epoch\<rparr>)
      in q\<lparr>pq_state := push_bit 1 epoch OR QUEUE_ACTIVE\<rparr>)"

definition suspend :: "'p packet_queue \<Rightarrow> 'p packet_queue" where
  "suspend q = purge (q\<lparr>pq_state := pq_state q AND NOT QUEUE_ACTIVE\<rparr>)"

definition drop_receiver :: "'p packet_queue \<Rightarrow> 'p packet_queue" where
  "drop_receiver q = purge (q\<lparr>pq_receiver_open := False\<rparr>)"

definition queue_closed :: "'p packet_queue \<Rightarrow> bool" where
  "queue_closed q \<longleftrightarrow> pq_senders q = 0 \<and> pq_items q = []"

definition has_queued_packet :: "'p packet_queue \<Rightarrow> bool" where
  "has_queued_packet q \<longleftrightarrow> pq_items q \<noteq> []"

text \<open>\<open>send_awaiting\<close> and \<open>recv\<close> wait. What the other tasks do to the queue before the second attempt
  and during the wait are arguments of a round, with the cancellations it sees; \<open>None\<close> means that
  the call still waits.\<close>

record 'p await_round =
  aw_cancelled :: bool
  aw_between :: "'p packet_queue \<Rightarrow> 'p packet_queue"
  aw_cancelled_waiting :: bool
  aw_meanwhile :: "'p packet_queue \<Rightarrow> 'p packet_queue"

fun send_awaiting ::
  "'p await_round list \<Rightarrow> 'p \<Rightarrow> 'p packet_queue \<Rightarrow> (bool \<times> 'p packet_queue) option" where
  "send_awaiting [] p q = None"
| "send_awaiting (r # rs) p q =
     (if aw_cancelled r then Some (False, q)
      else if \<not> state_active (pq_state q) then Some (False, q)
      else case try_send p q of
        (True, q) \<Rightarrow> Some (True, q)
      | (False, q) \<Rightarrow>
          if \<not> pq_receiver_open q then Some (False, q)
          else (case try_send p (aw_between r q) of
                  (True, q) \<Rightarrow> Some (True, q)
                | (False, q) \<Rightarrow>
                    if aw_cancelled_waiting r then Some (False, q)
                    else send_awaiting rs p (aw_meanwhile r q)))"

fun recv_awaiting ::
  "'p await_round list \<Rightarrow> 'p packet_queue \<Rightarrow> ('p option \<times> 'p packet_queue) option" where
  "recv_awaiting [] q = None"
| "recv_awaiting (r # rs) q =
     (if aw_cancelled r then Some (None, q)
      else case try_recv q of
        (Some p, q) \<Rightarrow> Some (Some p, q)
      | (None, q) \<Rightarrow>
          if pq_senders q = 0 then Some (None, q)
          else (case try_recv (aw_between r q) of
                  (Some p, q) \<Rightarrow> Some (Some p, q)
                | (None, q) \<Rightarrow>
                    if pq_senders q = 0 then Some (None, q)
                    else if aw_cancelled_waiting r then Some (None, q)
                    else recv_awaiting rs (aw_meanwhile r q)))"

section \<open>Interleaved accesses\<close>

text \<open>Where a sender stands in \<open>send_inner\<close>: before it, after the load of \<open>receiver_open\<close>, or
  after the load of \<open>state\<close> with the epoch it saw.\<close>

datatype 'p sender_phase = SIdle | SOpen bool 'p | SLoaded bool 'p u64

datatype 'p receiver_phase =
    RIdle
  | RPopped 'p u64
  | RResumeLoaded u64
  | RResumePurge u64
  | RSuspendLoaded u64
  | RSuspendPurge
  | RDropPurge
  | RDropped

record 'p queue_system =
  qs_queue :: "'p packet_queue"
  qs_sender :: "nat \<Rightarrow> 'p sender_phase"
  qs_receiver :: "'p receiver_phase"
  qs_delivered :: "('p \<times> u64) list"

definition system_new :: "nat \<Rightarrow> bool \<Rightarrow> 'p queue_system" where
  "system_new capacity active =
     \<lparr>qs_queue = packet_channel capacity active, qs_sender = (\<lambda>_. SIdle), qs_receiver = RIdle,
      qs_delivered = []\<rparr>"

definition queue_pop :: "'p packet_queue \<Rightarrow> (('p \<times> u64) \<times> 'p packet_queue) option" where
  "queue_pop q = (case pq_items q of [] \<Rightarrow> None | x # rest \<Rightarrow> Some (x, q\<lparr>pq_items := rest\<rparr>))"

text \<open>The step of a sender \<open>i\<close>; \<open>start\<close> is the call it makes when it is idle.\<close>

definition sender_step :: "nat \<Rightarrow> bool \<times> 'p \<Rightarrow> 'p queue_system \<Rightarrow> 'p queue_system" where
  "sender_step i start s =
     (let q = qs_queue s; set_phase = (\<lambda>ph. s\<lparr>qs_sender := (qs_sender s)(i := ph)\<rparr>) in
      case qs_sender s i of
        SIdle \<Rightarrow>
          if pq_receiver_open q then set_phase (SOpen (fst start) (snd start)) else s
      | SOpen force p \<Rightarrow>
          if state_active (pq_state q) then set_phase (SLoaded force p (state_epoch (pq_state q)))
          else set_phase SIdle
      | SLoaded force p epoch \<Rightarrow>
          (set_phase SIdle)\<lparr>qs_queue := snd (queue_push force p epoch q)\<rparr>)"

datatype receiver_call = CallRecv | CallResume | CallSuspend | CallDrop

text \<open>The step of the receiver; \<open>call\<close> is the operation it starts when it is idle. The flag of the
  result says that a resumption stored its new epoch.\<close>

definition receiver_step :: "receiver_call \<Rightarrow> 'p queue_system \<Rightarrow> bool \<times> 'p queue_system" where
  "receiver_step call s =
     (let q = qs_queue s in
      case qs_receiver s of
        RIdle \<Rightarrow>
          (False,
           case call of
             CallRecv \<Rightarrow>
               (case queue_pop q of
                  None \<Rightarrow> s
                | Some ((p, epoch), q) \<Rightarrow> s\<lparr>qs_queue := q, qs_receiver := RPopped p epoch\<rparr>)
           | CallResume \<Rightarrow> s\<lparr>qs_receiver := RResumeLoaded (pq_state q)\<rparr>
           | CallSuspend \<Rightarrow> s\<lparr>qs_receiver := RSuspendLoaded (pq_state q)\<rparr>
           | CallDrop \<Rightarrow> s\<lparr>qs_queue := q\<lparr>pq_receiver_open := False\<rparr>, qs_receiver := RDropPurge\<rparr>)
      | RPopped p epoch \<Rightarrow>
          (False,
           if accepts epoch (pq_state q)
           then s\<lparr>qs_receiver := RIdle, qs_delivered := qs_delivered s @ [(p, epoch)]\<rparr>
           else (case queue_pop q of
                   None \<Rightarrow> s\<lparr>qs_receiver := RIdle\<rparr>
                 | Some ((p, epoch), q) \<Rightarrow> s\<lparr>qs_queue := q, qs_receiver := RPopped p epoch\<rparr>))
      | RResumeLoaded st \<Rightarrow>
          (True, s\<lparr>qs_queue := q\<lparr>pq_state := push_bit 1 (resumed_epoch st)\<rparr>,
                   qs_receiver := RResumePurge (resumed_epoch st)\<rparr>)
      | RResumePurge epoch \<Rightarrow>
          (False,
           case queue_pop q of
             Some (_, q) \<Rightarrow> s\<lparr>qs_queue := q\<rparr>
           | None \<Rightarrow> s\<lparr>qs_queue := q\<lparr>pq_state := push_bit 1 epoch OR QUEUE_ACTIVE\<rparr>, qs_receiver := RIdle\<rparr>)
      | RSuspendLoaded st \<Rightarrow>
          (False, s\<lparr>qs_queue := q\<lparr>pq_state := st AND NOT QUEUE_ACTIVE\<rparr>, qs_receiver := RSuspendPurge\<rparr>)
      | RSuspendPurge \<Rightarrow>
          (False, case queue_pop q of Some (_, q) \<Rightarrow> s\<lparr>qs_queue := q\<rparr> | None \<Rightarrow> s\<lparr>qs_receiver := RIdle\<rparr>)
      | RDropPurge \<Rightarrow>
          (False, case queue_pop q of Some (_, q) \<Rightarrow> s\<lparr>qs_queue := q\<rparr> | None \<Rightarrow> s\<lparr>qs_receiver := RDropped\<rparr>)
      | RDropped \<Rightarrow> (False, s))"

text \<open>Any interleaving, with the number of resumptions in it.\<close>

inductive interleaved :: "nat \<Rightarrow> 'p queue_system \<Rightarrow> 'p queue_system \<Rightarrow> bool" where
  interleaved_refl: "interleaved 0 s s"
| interleaved_send: "interleaved n s t \<Longrightarrow> interleaved n s (sender_step i start t)"
| interleaved_recv:
    "interleaved n s t \<Longrightarrow> receiver_step call t = (r, u) \<Longrightarrow> interleaved (if r then Suc n else n) s u"

section \<open>Words of the state\<close>

lemma bit_below:
  assumes "unat (e :: u64) < 2 ^ k" and "bit e n"
  shows "n < k"
proof -
  have "bit (unat e) n" using assms(2) by (simp add: bit_unsigned_iff)
  then have "odd (unat e div 2 ^ n)" by (simp add: bit_iff_odd)
  then have "unat e div 2 ^ n \<noteq> 0" by (metis even_zero)
  then have "2 ^ n \<le> unat e" by (simp add: div_eq_0_iff)
  then have "(2::nat) ^ n < 2 ^ k" using assms(1) by (rule order.strict_trans1)
  then show ?thesis by simp
qed

lemma state_epoch_active:
  assumes "unat e < 2 ^ 63"
  shows "state_epoch (push_bit 1 e OR QUEUE_ACTIVE) = e"
proof (rule bit_eqI)
  fix n
  show "bit (state_epoch (push_bit 1 e OR QUEUE_ACTIVE)) n = bit e n"
    unfolding state_epoch_def QUEUE_ACTIVE_def bit_drop_bit_eq comp_apply bit_or_iff bit_push_bit_iff
      bit_1_iff
    using bit_below [OF assms, of n] by auto
qed

lemma state_epoch_stored:
  assumes "unat e < 2 ^ 63"
  shows "state_epoch (push_bit 1 e) = e"
proof (rule bit_eqI)
  fix n
  show "bit (state_epoch (push_bit 1 e)) n = bit e n"
    unfolding state_epoch_def bit_drop_bit_eq comp_apply bit_push_bit_iff
    using bit_below [OF assms, of n] by auto
qed

lemma state_epoch_suspended: "state_epoch (st AND NOT QUEUE_ACTIVE) = state_epoch st"
proof (rule bit_eqI)
  fix n
  show "bit (state_epoch (st AND NOT QUEUE_ACTIVE)) n = bit (state_epoch st) n"
    unfolding state_epoch_def QUEUE_ACTIVE_def bit_drop_bit_eq comp_apply bit_and_iff bit_not_iff
      bit_1_iff
    using bit_imp_possible_bit [of st "1 + n"] by auto
qed

lemma resumed_epoch_unat:
  "unat (state_epoch st) + 1 < 2 ^ 63 \<Longrightarrow> unat (resumed_epoch st) = unat (state_epoch st) + 1"
  by (simp add: resumed_epoch_def saturating_add_def unat_word_ariths)

section \<open>No packet outlives a resumption\<close>

definition now_epoch :: "'p queue_system \<Rightarrow> nat" where
  "now_epoch s = unat (state_epoch (pq_state (qs_queue s)))"

text \<open>The epochs of the packets that are on their way: loaded by a sender, queued, or popped.\<close>

definition in_flight :: "'p queue_system \<Rightarrow> u64 set" where
  "in_flight s = snd ` set (pq_items (qs_queue s))
     \<union> {e. \<exists>i force p. qs_sender s i = SLoaded force p e} \<union> {e. \<exists>p. qs_receiver s = RPopped p e}"

definition system_inv :: "nat \<Rightarrow> 'p queue_system \<Rightarrow> bool" where
  "system_inv n s \<longleftrightarrow> now_epoch s = n \<and> (\<forall>e \<in> in_flight s. unat e \<le> n)
     \<and> (case qs_receiver s of
          RResumeLoaded st \<Rightarrow> st = pq_state (qs_queue s)
        | RResumePurge e \<Rightarrow> e = state_epoch (pq_state (qs_queue s))
        | RSuspendLoaded st \<Rightarrow> st = pq_state (qs_queue s)
        | _ \<Rightarrow> True)"

lemma in_flight_bound:
  "(\<forall>e \<in> in_flight s. unat e \<le> n) \<longleftrightarrow>
     (\<forall>x \<in> set (pq_items (qs_queue s)). unat (snd x) \<le> n)
     \<and> (\<forall>i force p e. qs_sender s i = SLoaded force p e \<longrightarrow> unat e \<le> n)
     \<and> (\<forall>p e. qs_receiver s = RPopped p e \<longrightarrow> unat e \<le> n)"
  unfolding in_flight_def by blast

lemmas system_inv_simps = system_inv_def [unfolded in_flight_bound] now_epoch_def

lemma queue_push_items:
  "set (pq_items (snd (queue_push force p e q))) \<subseteq> insert (p, e) (set (pq_items q))
    \<and> pq_state (snd (queue_push force p e q)) = pq_state q"
  by (cases "pq_items q") (auto simp: queue_push_def)

lemma sender_step_inv:
  assumes "system_inv n s"
  shows "system_inv n (sender_step i start s)"
proof (cases "qs_sender s i")
  case SIdle
  then show ?thesis using assms
    by (auto simp: sender_step_def Let_def system_inv_simps split: receiver_phase.splits)
next
  case (SOpen force p)
  then show ?thesis using assms
    by (auto simp: sender_step_def Let_def system_inv_simps split: receiver_phase.splits)
next
  case (SLoaded force p e)
  then show ?thesis using assms queue_push_items [of force p e "qs_queue s"]
    by (fastforce simp: sender_step_def Let_def system_inv_simps split: receiver_phase.splits)
qed

lemma receiver_step_inv:
  assumes "system_inv n s" and "receiver_step call s = (r, u)" and "Suc n < 2 ^ 63"
  shows "system_inv (if r then Suc n else n) u"
proof (cases "qs_receiver s")
  case RIdle
  then show ?thesis using assms(1,2)
    by (cases call; cases "pq_items (qs_queue s)")
      (auto simp: receiver_step_def Let_def queue_pop_def system_inv_simps)
next
  case (RPopped p e)
  then show ?thesis using assms(1,2)
    by (cases "pq_items (qs_queue s)")
      (auto simp: receiver_step_def Let_def queue_pop_def system_inv_simps split: if_splits)
next
  case (RResumeLoaded st)
  let ?e = "resumed_epoch st"
  have st: "st = pq_state (qs_queue s)" and n: "unat (state_epoch st) = n"
    using assms(1) RResumeLoaded by (auto simp: system_inv_def now_epoch_def)
  then have e: "unat ?e = Suc n" using resumed_epoch_unat [of st] assms(3) by simp
  then have "state_epoch (push_bit 1 ?e) = ?e" using assms(3) by (intro state_epoch_stored) simp
  then show ?thesis using assms(1,2) RResumeLoaded e
    by (auto simp: receiver_step_def Let_def system_inv_simps intro!: le_SucI)
next
  case (RResumePurge e)
  have e: "e = state_epoch (pq_state (qs_queue s))" "unat e = n"
    using assms(1) RResumePurge by (auto simp: system_inv_def now_epoch_def)
  then have "state_epoch (push_bit 1 e OR QUEUE_ACTIVE) = e" using assms(3) by (intro state_epoch_active) simp
  then show ?thesis using assms(1,2) RResumePurge e
    by (cases "pq_items (qs_queue s)")
      (auto simp: receiver_step_def Let_def queue_pop_def system_inv_simps)
next
  case (RSuspendLoaded st)
  then show ?thesis using assms(1,2)
    by (auto simp: receiver_step_def Let_def system_inv_simps state_epoch_suspended)
qed (use assms(1,2) in \<open>cases "pq_items (qs_queue s)"; auto simp: receiver_step_def Let_def queue_pop_def
  system_inv_simps\<close>)+

lemma interleaved_inv:
  "interleaved n s t \<Longrightarrow> system_inv m s \<Longrightarrow> m + n < 2 ^ 63 - 1 \<Longrightarrow> system_inv (m + n) t"
proof (induction rule: interleaved.induct)
  case (interleaved_recv n s t call r u)
  then show ?case using receiver_step_inv [of "m + n" t call r u] by (auto split: if_splits)
qed (auto simp: sender_step_inv)

lemma system_new_inv: "system_inv 0 (system_new capacity active)"
  by (auto simp: system_inv_def system_new_def packet_channel_def now_epoch_def in_flight_def
      state_epoch_def QUEUE_ACTIVE_def)

text \<open>C9: no packet outlives a resumption of its channel. However the senders and the receiver
  interleave, a packet that some sender has admitted (even if it is not queued yet) before the
  receiver starts a new epoch is refused by every later reception: its epoch is never the current
  one again. The bound on the number of resumptions keeps the 63-bit epoch from wrapping.\<close>

theorem no_packet_outlives_a_resumption:
  assumes "interleaved m (system_new capacity active) s" and "e \<in> in_flight s"
    and "interleaved n s t" and "0 < n" and "m + n < 2 ^ 63 - 1"
  shows "\<not> accepts e (pq_state (qs_queue t))"
proof -
  have s: "system_inv m s" using interleaved_inv [OF assms(1) system_new_inv] assms(5) by simp
  then have "unat e \<le> m" using assms(2) by (auto simp: system_inv_def)
  moreover have "now_epoch t = m + n"
    using interleaved_inv [OF assms(3) s assms(5)] by (simp add: system_inv_def)
  ultimately show ?thesis using assms(4) by (auto simp: accepts_def now_epoch_def)
qed

theorem no_packet_outlives_a_resumption_witness:
  "\<exists>s t :: nat queue_system.
     s = (sender_step 0 (False, 7) \<circ> sender_step 0 (False, 7)) (system_new 1 True)
     \<and> t = (sender_step 0 (False, 7) \<circ> snd \<circ> receiver_step CallResume \<circ> snd \<circ> receiver_step CallResume) s
     \<and> pq_items (qs_queue t) = [(7, 0)] \<and> \<not> accepts 0 (pq_state (qs_queue t))"
proof -
  define s :: "nat queue_system" where "s = sender_step 0 (False, 7) (sender_step 0 (False, 7) (system_new 1 True))"
  define t1 where "t1 = receiver_step CallResume s"
  define t2 where "t2 = receiver_step CallResume (snd t1)"
  define t where "t = sender_step 0 (False, 7) (snd t2)"
  have s: "qs_sender s 0 = SLoaded False 7 0" "qs_receiver s = RIdle" "qs_queue s = packet_channel 1 True"
    by (simp_all add: s_def sender_step_def Let_def system_new_def packet_channel_def state_active_def
        state_epoch_def QUEUE_ACTIVE_def)
  have start: "interleaved 0 (system_new 1 True) s"
    unfolding s_def by (intro interleaved.intros)
  have t1: "t1 = (False, s\<lparr>qs_receiver := RResumeLoaded 1\<rparr>)"
    by (simp add: t1_def receiver_step_def Let_def s packet_channel_def QUEUE_ACTIVE_def)
  have t2: "fst t2" "pq_items (qs_queue (snd t2)) = []" "qs_sender (snd t2) 0 = SLoaded False 7 0"
    "pq_capacity (qs_queue (snd t2)) = 1"
    by (simp_all add: t2_def t1 receiver_step_def Let_def s packet_channel_def)
  have "interleaved 0 s (snd t1)"
    using interleaved_recv [OF interleaved_refl, of CallResume s "fst t1" "snd t1"] by (simp add: t1_def t1 [unfolded t1_def])
  then have "interleaved 1 s (snd t2)"
    using interleaved_recv [of 0 s "snd t1" CallResume True "snd t2"] t2(1) by (simp add: t2_def prod_eq_iff)
  then have run: "interleaved 1 s t" unfolding t_def by (rule interleaved_send)
  have items: "pq_items (qs_queue t) = [(7, 0)]"
    by (simp add: t_def sender_step_def Let_def t2 queue_push_def)
  have "0 \<in> in_flight s" using s(1) by (auto simp: in_flight_def)
  from no_packet_outlives_a_resumption [OF start this run] items
  show ?thesis unfolding t_def t2_def t1_def s_def by (simp add: comp_def)
qed

end
