(* ===== verification/Dispatcher.thy ===== *)
theory Dispatcher
  imports Packet_Queue Packet_Class Packet_Pool Stream_Frames "HOL-Library.List_Lexorder"
    "HOL-Library.Product_Lexorder" "HOL-Library.Multiset"
begin

text \<open>
  The client's dispatcher (\<open>rust-client/dispatcher.rs\<close>): the registry of the workers, their order
  over the TURN paths, the striping of outgoing packets over the workers' queues, the routes of the
  proxied streams and the queues of returned packets. Clones of a sender share their queue, so the
  queues live in a store and a worker names them by address.
\<close>

unbundle bit_operations_syntax

section \<open>Workers\<close>

type_synonym queue_id = nat

text \<open>The path is the byte string of \<open>turn_path\<close>, ordered lexicographically as \<open>str\<close> is.\<close>

record worker_channels =
  wc_id :: nat
  wc_incarnation_id :: u64
  wc_turn_path :: bytes
  wc_latency :: queue_id
  wc_priority :: queue_id
  wc_bulk :: queue_id

definition worker_route :: "worker_channels \<Rightarrow> nat \<times> u64" where
  "worker_route w = (wc_id w, wc_incarnation_id w)"

definition class_queue :: "packet_class \<Rightarrow> worker_channels \<Rightarrow> queue_id" where
  "class_queue cls w = (case cls of Latency \<Rightarrow> wc_latency w | Priority \<Rightarrow> wc_priority w | Bulk \<Rightarrow> wc_bulk w)"

definition add_to_groups :: "worker_channels list list \<Rightarrow> worker_channels \<Rightarrow> worker_channels list list" where
  "add_to_groups groups worker =
     (if groups \<noteq> [] \<and> (case last groups of [] \<Rightarrow> False | first # _ \<Rightarrow> wc_turn_path first = wc_turn_path worker)
      then butlast groups @ [last groups @ [worker]]
      else groups @ [[worker]])"

definition path_groups :: "worker_channels list \<Rightarrow> worker_channels list list" where
  "path_groups workers = foldl add_to_groups [] workers"

text \<open>The loop over \<open>offset in 0usize..\<close> has no bound of its own: \<open>None\<close> would mean that it runs
  for ever.\<close>

definition round_at :: "nat \<Rightarrow> 'a list list \<Rightarrow> 'a list" where
  "round_at offset groups = List.map_filter (\<lambda>group. get_at group offset) groups"

partial_function (option) interleave_loop :: "nat \<Rightarrow> 'a list list \<Rightarrow> 'a list \<Rightarrow> 'a list option" where
  "interleave_loop offset groups workers =
     (let added = round_at offset groups
      in if added = [] then Some workers else interleave_loop (Suc offset) groups (workers @ added))"

declare interleave_loop.simps [code]

definition interleave_turn_paths :: "worker_channels list \<Rightarrow> worker_channels list option" where
  "interleave_turn_paths workers =
     interleave_loop 0 (path_groups (sort_key (\<lambda>w. (wc_turn_path w, wc_id w)) workers)) []"

section \<open>The dispatcher\<close>

text \<open>\<open>dp_abort\<close> and \<open>dp_frames\<close> are the two bounded channels to the SOCKS5 proxy, absent until
  they are configured: their entries and their capacity.\<close>

record dispatcher =
  dp_workers :: "worker_channels list"
  dp_queues :: "queue_id \<Rightarrow> packet_buf packet_queue"
  dp_return_latency :: queue_id
  dp_return_priority :: queue_id
  dp_return :: queue_id
  dp_scheduler :: striped_scheduler
  dp_frames :: "(bytes list \<times> nat) option"
  dp_abort :: "(u64 list \<times> nat) option"
  dp_routes :: "(u64 \<times> nat \<times> u64) list"
  dp_dropped :: u64

definition update_queue ::
  "queue_id \<Rightarrow> packet_buf packet_queue \<Rightarrow> dispatcher \<Rightarrow> dispatcher" where
  "update_queue a q d = d\<lparr>dp_queues := (dp_queues d)(a := q)\<rparr>"

definition register :: "worker_channels \<Rightarrow> dispatcher \<Rightarrow> dispatcher option" where
  "register channels d =
     map_option (\<lambda>workers. d\<lparr>dp_workers := workers\<rparr>)
       (interleave_turn_paths (filter (\<lambda>w. wc_id w \<noteq> wc_id channels) (dp_workers d) @ [channels]))"

definition abort_stream :: "u64 \<Rightarrow> u64 list \<times> nat \<Rightarrow> u64 list \<times> nat" where
  "abort_stream stream_id ch =
     (case ch of (entries, capacity) \<Rightarrow>
        if length entries < capacity then (entries @ [stream_id], capacity) else (entries, capacity))"

definition unregister :: "nat \<Rightarrow> u64 \<Rightarrow> dispatcher \<Rightarrow> dispatcher option" where
  "unregister worker incarnation d =
     (case interleave_turn_paths
             (filter (\<lambda>w. wc_id w \<noteq> worker \<or> wc_incarnation_id w \<noteq> incarnation) (dp_workers d)) of
        None \<Rightarrow> None
      | Some workers \<Rightarrow>
          let dead_route = (worker, incarnation);
              dead = map fst (filter (\<lambda>(_, route). route = dead_route) (dp_routes d))
          in Some (d\<lparr>dp_workers := workers,
                     dp_abort := map_option (fold abort_stream dead) (dp_abort d),
                     dp_routes := filter (\<lambda>(_, route). route \<noteq> dead_route) (dp_routes d)\<rparr>))"

definition worker_active_streams :: "nat \<Rightarrow> dispatcher \<Rightarrow> nat" where
  "worker_active_streams worker d = length (filter (\<lambda>(_, w, _). w = worker) (dp_routes d))"

text \<open>\<open>None\<close>: the caller waits for room in the channel of frames.\<close>

definition return_packet :: "packet_buf \<Rightarrow> dispatcher \<Rightarrow> dispatcher option" where
  "return_packet packet d =
     (if is_frame (as_slice packet) then
        (case dp_frames d of
           None \<Rightarrow> Some d
         | Some (entries, capacity) \<Rightarrow>
             if length entries < capacity
             then Some (d\<lparr>dp_frames := Some (entries @ [as_slice packet], capacity)\<rparr>) else None)
      else if \<not> is_ip_packet (as_slice packet) then Some (d\<lparr>dp_dropped := dp_dropped d + 1\<rparr>)
      else let a = (case packet_class_of (as_slice packet) of
                      Latency \<Rightarrow> dp_return_latency d | Priority \<Rightarrow> dp_return_priority d | Bulk \<Rightarrow> dp_return d)
           in Some (update_queue a (snd (force_send packet (dp_queues d a))) d))"

definition next_return_packet :: "dispatcher \<Rightarrow> packet_buf option \<times> dispatcher" where
  "next_return_packet d =
     (case try_recv (dp_queues d (dp_return_latency d)) of
        (Some p, q) \<Rightarrow> (Some p, update_queue (dp_return_latency d) q d)
      | (None, q) \<Rightarrow>
          let d = update_queue (dp_return_latency d) q d in
          (case try_recv (dp_queues d (dp_return_priority d)) of
             (Some p, q) \<Rightarrow> (Some p, update_queue (dp_return_priority d) q d)
           | (None, q) \<Rightarrow>
               let d = update_queue (dp_return_priority d) q d in
               (case try_recv (dp_queues d (dp_return d)) of
                  (p, q) \<Rightarrow> (p, update_queue (dp_return d) q d))))"

section \<open>Proxied streams\<close>

datatype proxy_error =
    InvalidFrame
  | NotAnOpen
  | NotReady
  | CarrierUnavailable
  | CarrierReplaced
  | PoolExhausted
  | FrameTooLong buf_error
  | QueueUnavailable

definition remove_route :: "u64 \<Rightarrow> dispatcher \<Rightarrow> dispatcher" where
  "remove_route stream_id d = d\<lparr>dp_routes := AList.delete stream_id (dp_routes d)\<rparr>"

definition insert_route :: "u64 \<Rightarrow> nat \<times> u64 \<Rightarrow> dispatcher \<Rightarrow> dispatcher" where
  "insert_route stream_id route d = d\<lparr>dp_routes := AList.update stream_id route (dp_routes d)\<rparr>"

text \<open>The common end of \<open>send_proxy_frame\<close> and \<open>send_proxy_open\<close>: the frame is copied into a buffer
  and waits for room in the priority queue of its carrier. \<open>rounds\<close> is what the wait sees,
  \<open>others\<close> what the other tasks have done to the dispatcher when it ends; \<open>None\<close> means that the
  call still waits.\<close>

definition send_on_carrier ::
  "packet_buf await_round list \<Rightarrow> (dispatcher \<Rightarrow> dispatcher) \<Rightarrow> bytes \<Rightarrow> u64 \<Rightarrow> worker_channels
     \<Rightarrow> packet_pool \<Rightarrow> dispatcher \<Rightarrow> ((proxy_error + unit) \<times> packet_pool \<times> dispatcher) option" where
  "send_on_carrier rounds others frame stream_id worker pool d =
     (case client_try_acquire pool of
        None \<Rightarrow> Some (Inl PoolExhausted, pool, remove_route stream_id d)
      | Some (packet, pool) \<Rightarrow>
          (case set_read_len (length frame) packet of
             Inl e \<Rightarrow> Some (Inl (FrameTooLong e), client_drop_buf packet pool, d)
           | Inr packet \<Rightarrow>
               let packet = write_at (pb_start packet) frame packet in
               (case send_awaiting rounds packet (dp_queues d (wc_priority worker)) of
                  None \<Rightarrow> None
                | Some (sent, q) \<Rightarrow>
                    let d = others (update_queue (wc_priority worker) q d) in
                    if sent then Some (Inr (), pool, d)
                    else Some (Inl QueueUnavailable, client_drop_buf packet pool,
                               remove_route stream_id d))))"

text \<open>Under the lock of the routes: the carrier of a frame, which an \<open>OPEN\<close> binds to the first
  worker.\<close>

definition choose_route :: "u8 \<Rightarrow> u64 \<Rightarrow> dispatcher \<Rightarrow> (proxy_error + nat \<times> u64) \<times> dispatcher" where
  "choose_route kind stream_id d =
     (case (if kind = OPEN then
              (case dp_workers d of
                 [] \<Rightarrow> Inl NotReady
               | worker # _ \<Rightarrow> Inr (worker_route worker, insert_route stream_id (worker_route worker) d))
            else
              (case map_of (dp_routes d) stream_id of
                 None \<Rightarrow> Inl CarrierUnavailable
               | Some route \<Rightarrow> Inr (route, d))) of
        Inl e \<Rightarrow> (Inl e, d)
      | Inr (route, d) \<Rightarrow>
          if list_ex (\<lambda>w. worker_route w = route) (dp_workers d) then (Inr route, d)
          else (Inl CarrierReplaced, if kind \<noteq> OPEN then remove_route stream_id d else d))"

text \<open>The worker is looked up in the snapshot that \<open>choose_route\<close> has just searched, so the second
  lookup cannot fail; it stands before the acquisition of the buffer here, which is shared with
  \<open>send_proxy_open\<close>.\<close>

definition send_proxy_frame ::
  "packet_buf await_round list \<Rightarrow> (dispatcher \<Rightarrow> dispatcher) \<Rightarrow> bytes \<Rightarrow> packet_pool \<Rightarrow> dispatcher
     \<Rightarrow> ((proxy_error + unit) \<times> packet_pool \<times> dispatcher) option" where
  "send_proxy_frame rounds others frame pool d =
     (case frame_route frame of
        None \<Rightarrow> Some (Inl InvalidFrame, pool, d)
      | Some (kind, stream_id) \<Rightarrow>
          (case choose_route kind stream_id d of
             (Inl e, d) \<Rightarrow> Some (Inl e, pool, d)
           | (Inr route, d) \<Rightarrow>
               (case List.find (\<lambda>w. worker_route w = route) (dp_workers d) of
                  None \<Rightarrow> Some (Inl CarrierReplaced, pool, remove_route stream_id d)
                | Some worker \<Rightarrow>
                    (case send_on_carrier rounds others frame stream_id worker pool d of
                       Some (Inr _, pool, d) \<Rightarrow>
                         Some (Inr (), pool, if kind = CLOSE then remove_route stream_id d else d)
                     | res \<Rightarrow> res))))"

definition send_proxy_open ::
  "packet_buf await_round list \<Rightarrow> (dispatcher \<Rightarrow> dispatcher) \<Rightarrow> bytes \<Rightarrow> nat \<Rightarrow> packet_pool \<Rightarrow> dispatcher
     \<Rightarrow> ((proxy_error + unit) \<times> packet_pool \<times> dispatcher) option" where
  "send_proxy_open rounds others frame worker_hint pool d =
     (case frame_route frame of
        None \<Rightarrow> Some (Inl InvalidFrame, pool, d)
      | Some (kind, stream_id) \<Rightarrow>
          if kind \<noteq> OPEN then Some (Inl NotAnOpen, pool, d)
          else (case get_at (dp_workers d) (worker_hint mod max (length (dp_workers d)) 1) of
                  None \<Rightarrow> Some (Inl NotReady, pool, d)
                | Some worker \<Rightarrow>
                    send_on_carrier rounds others frame stream_id worker pool
                      (insert_route stream_id (worker_route worker) d)))"

section \<open>Outgoing packets\<close>

fun try_offsets ::
  "dispatch_ticket \<Rightarrow> nat list \<Rightarrow> packet_buf \<Rightarrow> dispatcher \<Rightarrow> bool \<times> dispatcher" where
  "try_offsets ticket [] packet d = (False, d)"
| "try_offsets ticket (off # offs) packet d =
     (let a = class_queue (ticket_class ticket) (dp_workers d ! worker_index ticket off) in
      case try_send packet (dp_queues d a) of
        (True, q) \<Rightarrow> (True, update_queue a q d)
      | (False, q) \<Rightarrow> try_offsets ticket offs packet (update_queue a q d))"

definition try_workers :: "dispatch_ticket \<Rightarrow> packet_buf \<Rightarrow> dispatcher \<Rightarrow> bool \<times> dispatcher" where
  "try_workers ticket packet d = try_offsets ticket [0..<cohort_len ticket] packet d"

definition force_worker :: "dispatch_ticket \<Rightarrow> packet_buf \<Rightarrow> dispatcher \<Rightarrow> bool \<times> dispatcher" where
  "force_worker ticket packet d =
     (if dp_workers d = [] \<or> cohort_len ticket = 0 then (False, d)
      else let a = class_queue (ticket_class ticket) (dp_workers d ! worker_index ticket 0) in
        case force_send packet (dp_queues d a) of (sent, q) \<Rightarrow> (sent, update_queue a q d))"

definition dispatch_now :: "packet_buf \<Rightarrow> dispatcher \<Rightarrow> dispatcher" where
  "dispatch_now packet d =
     (case begin_packet (length (dp_workers d)) (as_slice packet) (dp_scheduler d) of
        (None, sched) \<Rightarrow> d\<lparr>dp_scheduler := sched\<rparr>
      | (Some ticket, sched) \<Rightarrow>
          (case try_workers ticket packet (d\<lparr>dp_scheduler := sched\<rparr>) of
             (True, d) \<Rightarrow> d
           | (False, d) \<Rightarrow> snd (force_worker ticket packet d)))"

section \<open>Order of the workers\<close>

definition longest :: "'a list list \<Rightarrow> nat" where
  "longest groups = foldr (\<lambda>g n. max (length g) n) groups 0"

lemma longest_bound: "longest groups \<le> k \<longleftrightarrow> (\<forall>g \<in> set groups. length g \<le> k)"
  by (induction groups) (auto simp: longest_def)

lemma round_at_Nil [simp]: "round_at k [] = []"
  by (simp add: round_at_def List.map_filter_def)

lemma round_at_Cons:
  "round_at k (g # gs) = (if k < length g then [g ! k] else []) @ round_at k gs"
  by (simp add: round_at_def List.map_filter_def get_at_def)

lemma round_at_empty: "round_at k groups = [] \<longleftrightarrow> longest groups \<le> k"
  by (induction groups) (auto simp: round_at_Cons longest_bound)

lemma interleave_loop_rounds:
  "interleave_loop k groups acc = Some (acc @ concat (map (\<lambda>i. round_at i groups) [k..<longest groups]))"
proof (induction "longest groups - k" arbitrary: k acc)
  case 0
  then have "longest groups \<le> k" by simp
  moreover have "round_at k groups = []" using calculation by (simp add: round_at_empty)
  ultimately show ?case by (subst interleave_loop.simps) simp
next
  case (Suc n)
  then have k: "k < longest groups" by simp
  then have "round_at k groups \<noteq> []" by (simp add: round_at_empty)
  moreover have "n = longest groups - Suc k" using Suc(2) by simp
  ultimately show ?case
    using Suc(1) [of "Suc k" "acc @ round_at k groups"] k
    by (subst interleave_loop.simps) (simp add: upt_rec [of k])
qed

lemma mset_rounds_Cons:
  "mset (concat (map (\<lambda>i. round_at i (g # gs)) ks))
    = mset (concat (map (\<lambda>i. if i < length g then [g ! i] else []) ks))
      + mset (concat (map (\<lambda>i. round_at i gs) ks))"
  by (induction ks) (auto simp: round_at_Cons)

lemma concat_nth_upto: "length g \<le> n \<Longrightarrow> concat (map (\<lambda>i. if i < length g then [g ! i] else []) [0..<n]) = g"
proof -
  assume n: "length g \<le> n"
  have "[0..<n] = [0..<length g] @ [length g..<n]" using n upt_add_eq_append [of 0 "length g" "n - length g"] by simp
  moreover have "concat (map (\<lambda>i. if i < length g then [g ! i] else []) [length g..<n]) = []" by simp
  moreover have "concat (map (\<lambda>i. if i < length g then [g ! i] else []) [0..<length g])
      = map ((!) g) [0..<length g]"
    by (subst map_cong [OF refl, of _ _ "\<lambda>i. [g ! i]"]) (auto simp: concat_map_singleton)
  ultimately show ?thesis by (simp add: map_nth)
qed

lemma mset_rounds:
  "\<forall>g \<in> set groups. length g \<le> n \<Longrightarrow>
    mset (concat (map (\<lambda>i. round_at i groups) [0..<n])) = mset (concat groups)"
proof (induction groups)
  case Nil
  then show ?case by simp
next
  case (Cons g gs)
  then show ?case unfolding mset_rounds_Cons using concat_nth_upto [of g n] by simp
qed

text \<open>The groups of a list sorted by path: in order, not empty, one path each, no path twice.\<close>

definition groups_ok :: "worker_channels list \<Rightarrow> worker_channels list list \<Rightarrow> bool" where
  "groups_ok ws groups \<longleftrightarrow> concat groups = ws \<and> [] \<notin> set groups
     \<and> list_all (\<lambda>g. list_all (\<lambda>w. wc_turn_path w = wc_turn_path (hd g)) g) groups
     \<and> sorted_wrt (<) (map (wc_turn_path \<circ> hd) groups)"

lemma add_to_groups_ok:
  assumes "groups_ok ws groups" and "sorted (map wc_turn_path (ws @ [w]))"
  shows "groups_ok (ws @ [w]) (add_to_groups groups w)"
proof (cases groups rule: rev_cases)
  case Nil
  then show ?thesis using assms(1) by (simp add: groups_ok_def add_to_groups_def)
next
  case (snoc gs g)
  obtain x xs where g: "g = x # xs" using assms(1) snoc by (cases g) (auto simp: groups_ok_def)
  have le: "wc_turn_path x \<le> wc_turn_path w"
    using assms snoc g by (auto simp: groups_ok_def sorted_append)
  show ?thesis
  proof (cases "wc_turn_path x = wc_turn_path w")
    case True
    then show ?thesis using assms(1) snoc g by (auto simp: groups_ok_def add_to_groups_def)
  next
    case False
    then have "wc_turn_path x < wc_turn_path w" using le by simp
    then have "sorted_wrt (<) (map (wc_turn_path \<circ> hd) (groups @ [[w]]))"
      using assms(1) snoc g by (auto simp: groups_ok_def sorted_wrt_append)
    then show ?thesis using assms(1) snoc g False by (auto simp: groups_ok_def add_to_groups_def)
  qed
qed

lemma path_groups_ok: "sorted (map wc_turn_path ws) \<Longrightarrow> groups_ok ws (path_groups ws)"
proof (induction ws rule: rev_induct)
  case Nil
  then show ?case by (simp add: path_groups_def groups_ok_def)
next
  case (snoc w ws)
  then have "groups_ok ws (path_groups ws)" by (simp add: sorted_append)
  from add_to_groups_ok [OF this snoc.prems] show ?case by (simp add: path_groups_def)
qed

lemma sorted_paths: "sorted (map wc_turn_path (sort_key (\<lambda>w. (wc_turn_path w, wc_id w)) ws))"
proof -
  have "sorted (map (\<lambda>w. (wc_turn_path w, wc_id w)) (sort_key (\<lambda>w. (wc_turn_path w, wc_id w)) ws))"
    by (rule sorted_sort_key)
  then have "sorted (map fst (map (\<lambda>w. (wc_turn_path w, wc_id w)) (sort_key (\<lambda>w. (wc_turn_path w, wc_id w)) ws)))"
    by (rule sorted_map_mono) (auto simp: mono_on_def less_eq_prod_def)
  then show ?thesis by (simp add: comp_def)
qed

lemma round_zero: "[] \<notin> set groups \<Longrightarrow> round_at 0 groups = map hd groups"
  by (induction groups) (auto simp: round_at_Cons hd_conv_nth)

lemma interleave_turn_paths_order:
  "\<exists>ys. interleave_turn_paths ws = Some ys \<and> mset ys = mset ws
    \<and> distinct (map wc_turn_path (take (card (wc_turn_path ` set ws)) ys))"
proof -
  let ?sorted = "sort_key (\<lambda>w. (wc_turn_path w, wc_id w)) ws"
  define groups where "groups = path_groups ?sorted"
  have ok: "groups_ok ?sorted groups" unfolding groups_def by (rule path_groups_ok [OF sorted_paths])
  let ?ys = "concat (map (\<lambda>i. round_at i groups) [0..<longest groups])"
  have ys: "interleave_turn_paths ws = Some ?ys"
    by (simp add: interleave_turn_paths_def groups_def interleave_loop_rounds)
  have m: "mset ?ys = mset ws"
    using mset_rounds [OF longest_bound [THEN iffD1, OF order_refl], of groups] ok
    by (simp add: groups_ok_def)
  have heads: "distinct (map (wc_turn_path \<circ> hd) groups)"
    using ok by (auto simp: groups_ok_def strict_sorted_iff)
  have paths: "wc_turn_path ` set ws = set (map (wc_turn_path \<circ> hd) groups)"
  proof -
    have "set (concat groups) = set ?sorted" using ok by (simp only: groups_ok_def)
    then have "set ws = \<Union> (set ` set groups)" by simp
    then have "wc_turn_path ` set ws = (\<Union>g \<in> set groups. wc_turn_path ` set g)"
      by (simp only: image_UN)
    also have "\<dots> = (\<Union>g \<in> set groups. {wc_turn_path (hd g)})"
    proof (rule SUP_cong [OF refl])
      fix g assume "g \<in> set groups"
      moreover have "[] \<notin> set groups"
        "list_all (\<lambda>g. list_all (\<lambda>w. wc_turn_path w = wc_turn_path (hd g)) g) groups"
        using ok unfolding groups_ok_def by blast+
      ultimately have "g \<noteq> []" "\<forall>w \<in> set g. wc_turn_path w = wc_turn_path (hd g)"
        by (auto simp only: list_all_iff)
      then show "wc_turn_path ` set g = {wc_turn_path (hd g)}" by (cases g) auto
    qed
    also have "\<dots> = set (map (wc_turn_path \<circ> hd) groups)" by auto
    finally show ?thesis .
  qed
  have card: "card (wc_turn_path ` set ws) = length groups"
    using paths distinct_card [OF heads] by simp
  have "take (length groups) ?ys = map hd groups"
  proof (cases "groups = []")
    case False
    then have "\<not> (\<forall>g \<in> set groups. length g \<le> 0)"
      using ok by (cases groups) (auto simp: groups_ok_def)
    then have "0 < longest groups" using longest_bound [of groups 0] by (metis le_zero_eq not_gr_zero)
    then have "[0..<longest groups] = 0 # [1..<longest groups]" by (simp add: upt_rec)
    moreover have "round_at 0 groups = map hd groups" using ok by (intro round_zero) (simp add: groups_ok_def)
    ultimately show ?thesis by simp
  qed simp
  then have "map wc_turn_path (take (card (wc_turn_path ` set ws)) ?ys) = map (wc_turn_path \<circ> hd) groups"
    by (simp add: card)
  then have "distinct (map wc_turn_path (take (card (wc_turn_path ` set ws)) ?ys))"
    using heads by (simp only:)
  then show ?thesis using ys m by blast
qed

text \<open>C18: registering a worker returns. The loop that reorders the workers, which has no bound of
  its own, ends; the registry then holds the new worker and every worker with another number exactly
  once, and its first entries, as many as there are TURN paths, are all on different paths.\<close>

theorem register_returns_interleaved_workers:
  "\<exists>d' ws. register channels d = Some d'
    \<and> ws = filter (\<lambda>w. wc_id w \<noteq> wc_id channels) (dp_workers d) @ [channels]
    \<and> mset (dp_workers d') = mset ws
    \<and> distinct (map wc_turn_path (take (card (wc_turn_path ` set ws)) (dp_workers d')))
    \<and> d' = d\<lparr>dp_workers := dp_workers d'\<rparr>"
proof -
  let ?ws = "filter (\<lambda>w. wc_id w \<noteq> wc_id channels) (dp_workers d) @ [channels]"
  obtain ys where "interleave_turn_paths ?ws = Some ys" "mset ys = mset ?ws"
    "distinct (map wc_turn_path (take (card (wc_turn_path ` set ?ws)) ys))"
    using interleave_turn_paths_order by blast
  then show ?thesis
    by (intro exI [of _ "d\<lparr>dp_workers := ys\<rparr>"] exI [of _ ?ws]) (simp add: register_def)
qed

section \<open>Outgoing packets\<close>

definition has_room :: "packet_buf packet_queue \<Rightarrow> bool" where
  "has_room q \<longleftrightarrow> pq_receiver_open q \<and> state_active (pq_state q) \<and> length (pq_items q) < pq_capacity q"

definition appended :: "packet_buf \<Rightarrow> packet_buf packet_queue \<Rightarrow> packet_buf packet_queue" where
  "appended p q = q\<lparr>pq_items := pq_items q @ [(p, state_epoch (pq_state q))]\<rparr>"

lemma try_send_cases: "try_send p q = (if has_room q then (True, appended p q) else (False, q))"
  by (simp add: try_send_def send_inner_def Let_def queue_push_def has_room_def appended_def)

lemma update_queue_same: "update_queue a (dp_queues d a) d = d"
  by (simp add: update_queue_def)

lemma try_offsets_cases:
  "try_offsets ticket offs packet d =
     (case List.find (\<lambda>off. has_room (dp_queues d
              (class_queue (ticket_class ticket) (dp_workers d ! worker_index ticket off)))) offs of
        None \<Rightarrow> (False, d)
      | Some off \<Rightarrow>
          let a = class_queue (ticket_class ticket) (dp_workers d ! worker_index ticket off)
          in (True, update_queue a (appended packet (dp_queues d a)) d))"
  by (induction offs) (auto simp: Let_def try_send_cases update_queue_same)

lemma worker_index_onto:
  assumes "worker_count t = n" and "i < n" and "start_slot t < n"
  shows "\<exists>off < n. worker_index t off = i"
proof (cases "start_slot t \<le> i")
  case True
  then show ?thesis using assms by (intro exI [of _ "i - start_slot t"]) (auto simp: worker_index_def)
next
  case False
  then show ?thesis using assms
    by (intro exI [of _ "n + i - start_slot t"]) (auto simp: worker_index_def)
qed

lemma begin_packet_ticket:
  assumes "0 < n"
  shows "\<exists>t sched'. begin_packet n packet sched = (Some t, sched') \<and> start_slot t < n
    \<and> worker_count t = n \<and> cohort_len t = n \<and> ticket_class t = packet_class_of packet"
proof -
  obtain c sched' where "fetch_add (packet_class_of packet) sched = (c, sched')" by (rule prod.exhaust)
  then show ?thesis using assms by (auto simp: begin_packet_def begin_class_def Let_def)
qed

text \<open>C20: as long as one worker has room, an outgoing packet is not lost and displaces no other: it
  is appended to the queue of its class of one registered worker, and every other queue is left
  alone. Only when all of them are full, suspended or closed is the oldest packet of the selected
  worker displaced.\<close>

theorem dispatch_uses_any_room:
  assumes "w \<in> set (dp_workers d)"
    and "has_room (dp_queues d (class_queue (packet_class_of (as_slice packet)) w))"
  shows "\<exists>v a. v \<in> set (dp_workers d) \<and> a = class_queue (packet_class_of (as_slice packet)) v
    \<and> has_room (dp_queues d a)
    \<and> dp_queues (dispatch_now packet d) = (dp_queues d)(a := appended packet (dp_queues d a))"
proof -
  let ?n = "length (dp_workers d)" and ?cls = "packet_class_of (as_slice packet)"
  have n: "0 < ?n" using assms(1) by (cases "dp_workers d") auto
  obtain t sched where t: "begin_packet ?n (as_slice packet) (dp_scheduler d) = (Some t, sched)"
    "start_slot t < ?n" "worker_count t = ?n" "cohort_len t = ?n" "ticket_class t = ?cls"
    using begin_packet_ticket [OF n] by blast
  let ?room = "\<lambda>off. has_room (dp_queues d (class_queue ?cls (dp_workers d ! worker_index t off)))"
  obtain i where "i < ?n" "dp_workers d ! i = w" using assms(1) by (auto simp: in_set_conv_nth)
  then obtain off where "off < ?n" "?room off"
    using worker_index_onto [OF t(3) _ t(2), of i] assms(2) by auto
  then have "List.find ?room [0..<?n] \<noteq> None" by (auto simp: find_None_iff)
  then obtain k where k: "List.find ?room [0..<?n] = Some k" by blast
  then have r: "?room k" by (auto simp: find_Some_iff)
  let ?v = "dp_workers d ! worker_index t k"
  have v: "?v \<in> set (dp_workers d)" using t(3) n by (simp add: worker_index_def)
  have "dispatch_now packet d = update_queue (class_queue ?cls ?v)
      (appended packet (dp_queues d (class_queue ?cls ?v))) (d\<lparr>dp_scheduler := sched\<rparr>)"
    using t k by (simp add: dispatch_now_def try_workers_def try_offsets_cases Let_def)
  then show ?thesis using v r by (intro exI [of _ ?v]) (simp add: update_queue_def)
qed

definition sample_worker :: worker_channels where
  "sample_worker = \<lparr>wc_id = 1, wc_incarnation_id = 7, wc_turn_path = [0x61], wc_latency = 3,
                    wc_priority = 4, wc_bulk = 5\<rparr>"

definition sample_dispatcher :: dispatcher where
  "sample_dispatcher =
     \<lparr>dp_workers = [sample_worker], dp_queues = (\<lambda>_. packet_channel 1 True), dp_return_latency = 0,
      dp_return_priority = 1, dp_return = 2, dp_scheduler = scheduler_new, dp_frames = None,
      dp_abort = None, dp_routes = [(9, 1, 7)], dp_dropped = 0\<rparr>"

theorem dispatch_uses_any_room_witness:
  "dp_queues (dispatch_now \<lparr>pb_storage = [], pb_start = 0, pb_end = 0\<rparr> sample_dispatcher) 5
    = appended \<lparr>pb_storage = [], pb_start = 0, pb_end = 0\<rparr> (packet_channel 1 True)"
proof -
  let ?p = "\<lparr>pb_storage = [], pb_start = 0, pb_end = 0\<rparr> :: packet_buf"
  have cls: "packet_class_of (as_slice ?p) = Bulk"
    by (simp add: as_slice_def packet_class_of_def internet_transport_def)
  have w: "sample_worker \<in> set (dp_workers sample_dispatcher)" by (simp add: sample_dispatcher_def)
  have room: "has_room (dp_queues sample_dispatcher (class_queue (packet_class_of (as_slice ?p)) sample_worker))"
    by (simp add: sample_dispatcher_def has_room_def packet_channel_def state_active_def QUEUE_ACTIVE_def)
  show ?thesis
    using dispatch_uses_any_room [OF w room]
    by (auto simp: sample_dispatcher_def cls class_queue_def sample_worker_def)
qed

section \<open>Routes of the streams\<close>

lemma remove_route_gone: "map_of (dp_routes (remove_route stream d)) stream = None"
  by (simp add: remove_route_def delete_conv')

lemma send_on_carrier_failed:
  assumes "send_on_carrier rounds others frame stream worker pool d = Some (Inl e, pool', d')"
    and "length frame \<le> PACKET_CAPACITY - PACKET_HEADROOM"
  shows "map_of (dp_routes d') stream = None \<and> (e = PoolExhausted \<or> e = QueueUnavailable)"
  using assms
  by (auto simp: send_on_carrier_def Let_def remove_route_gone set_read_len_def
      split: option.splits prod.splits if_splits)

lemma client_try_acquire_len:
  "client_try_acquire pool = Some (packet, pool') \<Longrightarrow> pool_accounted PACKET_CAPACITY n pool
    \<Longrightarrow> length (pb_storage packet) = PACKET_CAPACITY"
  using acquire_storage_accounted [of PACKET_CAPACITY n pool]
  by (auto simp: client_try_acquire_def split: option.splits)

lemma written_frame:
  assumes "length (pb_storage packet) = PACKET_CAPACITY" and "set_read_len (length frame) packet = Inr packet'"
  shows "as_slice (write_at (pb_start packet') frame packet') = frame"
  using assms
  by (auto simp: set_read_len_def write_at_def as_slice_def PACKET_CAPACITY_def PACKET_HEADROOM_def
      split: if_splits)

lemma send_on_carrier_sent:
  assumes "send_on_carrier rounds others frame stream worker pool d = Some (Inr (), pool', d')"
    and "pool_accounted PACKET_CAPACITY n pool"
  shows "\<exists>packet q. as_slice packet = frame
    \<and> send_awaiting rounds packet (dp_queues d (wc_priority worker)) = Some (True, q)
    \<and> d' = others (update_queue (wc_priority worker) q d)"
proof -
  obtain packet0 pool0 where acq: "client_try_acquire pool = Some (packet0, pool0)"
    using assms(1) by (cases "client_try_acquire pool") (auto simp: send_on_carrier_def)
  then obtain packet1 where len: "set_read_len (length frame) packet0 = Inr packet1"
    using assms(1) by (cases "set_read_len (length frame) packet0") (auto simp: send_on_carrier_def)
  let ?packet = "write_at (pb_start packet1) frame packet1"
  obtain sent q where aw: "send_awaiting rounds ?packet (dp_queues d (wc_priority worker)) = Some (sent, q)"
    using assms(1) acq len
    by (cases "send_awaiting rounds ?packet (dp_queues d (wc_priority worker))")
      (auto simp: send_on_carrier_def Let_def)
  have "as_slice ?packet = frame"
    using written_frame [OF client_try_acquire_len [OF acq assms(2)] len] .
  moreover have "sent \<and> d' = others (update_queue (wc_priority worker) q d)"
    using assms(1) acq len aw by (auto simp: send_on_carrier_def Let_def split: if_splits)
  ultimately show ?thesis using aw by (intro exI [of _ ?packet] exI [of _ q]) simp
qed

lemma choose_route_carrier:
  assumes "choose_route kind stream d = (res, d')" and "kind \<noteq> OPEN"
  shows "case res of
      Inl e \<Rightarrow> map_of (dp_routes d') stream = None
    | Inr route \<Rightarrow> d' = d \<and> map_of (dp_routes d) stream = Some route"
  using assms
  by (auto simp: choose_route_def remove_route_gone split: option.splits if_splits)

lemma send_proxy_frame_cases:
  assumes "frame_route frame = Some (kind, stream)"
  shows "choose_route kind stream d = (Inl e, d1) \<Longrightarrow>
      send_proxy_frame rounds others frame pool d = Some (Inl e, pool, d1)"
    and "choose_route kind stream d = (Inr route, d1) \<Longrightarrow>
      List.find (\<lambda>w. worker_route w = route) (dp_workers d1) = None \<Longrightarrow>
      send_proxy_frame rounds others frame pool d = Some (Inl CarrierReplaced, pool, remove_route stream d1)"
    and "choose_route kind stream d = (Inr route, d1) \<Longrightarrow>
      List.find (\<lambda>w. worker_route w = route) (dp_workers d1) = Some w \<Longrightarrow>
      send_proxy_frame rounds others frame pool d
        = (case send_on_carrier rounds others frame stream w pool d1 of
             Some (Inr _, pool, d) \<Rightarrow>
               Some (Inr (), pool, if kind = CLOSE then remove_route stream d else d)
           | res \<Rightarrow> res)"
  using assms by (simp_all add: send_proxy_frame_def)

text \<open>C21: the frames of an open stream stay on its carrier. A frame that is sent was queued, byte
  for byte, on the priority queue of the very worker incarnation the stream's \<open>OPEN\<close> was bound to;
  a frame that cannot be sent ends the stream: its route is gone, whatever the other tasks did
  meanwhile, so that no later frame can slip out over another carrier.\<close>

theorem stream_frames_stay_on_their_carrier:
  assumes "send_proxy_frame rounds others frame pool d = Some (res, pool', d')"
    and "frame_route frame = Some (kind, stream)" and "kind \<noteq> OPEN"
    and "length frame \<le> PACKET_CAPACITY - PACKET_HEADROOM" and "pool_accounted PACKET_CAPACITY n pool"
  shows "case res of
      Inl e \<Rightarrow> map_of (dp_routes d') stream = None
    | Inr _ \<Rightarrow> \<exists>w packet q. w \<in> set (dp_workers d) \<and> map_of (dp_routes d) stream = Some (worker_route w)
        \<and> as_slice packet = frame
        \<and> send_awaiting rounds packet (dp_queues d (wc_priority w)) = Some (True, q)"
proof -
  obtain r d1 where cr: "choose_route kind stream d = (r, d1)" by (rule prod.exhaust)
  show ?thesis
  proof (cases r)
    case (Inl e)
    have "res = Inl e \<and> d' = d1" using assms(1) send_proxy_frame_cases(1) [OF assms(2) cr [unfolded Inl]] by simp
    then show ?thesis using choose_route_carrier [OF cr assms(3)] Inl by simp
  next
    case (Inr route)
    note cr = cr [unfolded Inr]
    have d1: "d1 = d" "map_of (dp_routes d) stream = Some route"
      using choose_route_carrier [OF cr assms(3)] by auto
    show ?thesis
    proof (cases "List.find (\<lambda>w. worker_route w = route) (dp_workers d1)")
      case None
      then have "res = Inl CarrierReplaced \<and> d' = remove_route stream d1"
        using assms(1) send_proxy_frame_cases(2) [OF assms(2) cr None] by simp
      then show ?thesis using remove_route_gone by simp
    next
      case (Some w)
      have w: "w \<in> set (dp_workers d)" "worker_route w = route"
        using Some d1(1) by (auto simp: find_Some_iff)
      have eq: "(case send_on_carrier rounds others frame stream w pool d of
             Some (Inr _, pool, d) \<Rightarrow>
               Some (Inr (), pool, if kind = CLOSE then remove_route stream d else d)
           | res \<Rightarrow> res) = Some (res, pool', d')"
        using assms(1) send_proxy_frame_cases(3) [OF assms(2) cr Some] d1(1) by simp
      then obtain r2 pool2 d2 where sc: "send_on_carrier rounds others frame stream w pool d = Some (r2, pool2, d2)"
        by (cases "send_on_carrier rounds others frame stream w pool d") auto
      show ?thesis
      proof (cases r2)
        case (Inl e)
        then have "res = Inl e \<and> d' = d2" using eq sc by simp
        then show ?thesis using send_on_carrier_failed [OF sc [unfolded Inl] assms(4)] by simp
      next
        case (Inr u)
        have res: "res = Inr ()" using eq sc Inr by simp
        have sent: "send_on_carrier rounds others frame stream w pool d = Some (Inr (), pool2, d2)"
          using sc Inr by simp
        obtain packet q where "as_slice packet = frame"
          "send_awaiting rounds packet (dp_queues d (wc_priority w)) = Some (True, q)"
          using send_on_carrier_sent [OF sent assms(5)] by blast
        then show ?thesis unfolding res sum.case
          using w d1(2) by (intro exI [of _ w] exI [of _ packet] exI [of _ q] conjI) simp_all
      qed
    qed
  qed
qed

lemma send_on_carrier_room:
  assumes "client_try_acquire pool = Some (packet, pool')"
    and "set_read_len (length frame) packet = Inr packet'"
    and "has_room (dp_queues d (wc_priority worker))" and "\<not> aw_cancelled r"
  shows "send_on_carrier (r # rs) others frame stream worker pool d
    = Some (Inr (), pool', others (update_queue (wc_priority worker)
        (appended (write_at (pb_start packet') frame packet') (dp_queues d (wc_priority worker))) d))"
  using assms by (auto simp: send_on_carrier_def Let_def try_send_cases has_room_def)

theorem stream_frames_stay_on_their_carrier_witness:
  "\<exists>rounds frame pool packet q. frame = encode_frame DATA 9 [1, 2, 3]
    \<and> fst (the (send_proxy_frame rounds id frame pool sample_dispatcher)) = Inr ()
    \<and> as_slice packet = frame
    \<and> send_awaiting rounds packet (dp_queues sample_dispatcher (wc_priority sample_worker)) = Some (True, q)"
proof -
  define frame where "frame = encode_frame DATA 9 [1, 2, 3]"
  define r :: "packet_buf await_round" where
    "r = \<lparr>aw_cancelled = False, aw_between = id, aw_cancelled_waiting = False, aw_meanwhile = id\<rparr>"
  define pool where "pool = client_pool_new 1"
  have route: "frame_route frame = Some (DATA, 9)" unfolding frame_def by code_simp
  have len: "length frame \<le> PACKET_CAPACITY - PACKET_HEADROOM"
    by (simp add: frame_def encode_frame_def MAGIC_def PACKET_CAPACITY_def PACKET_HEADROOM_def)
  have acc: "pool_accounted PACKET_CAPACITY 0 pool"
    unfolding pool_def client_pool_new_def by (rule pool_new_accounted)
  obtain packet pool' where acq: "client_try_acquire pool = Some (packet, pool')"
    by (simp add: pool_def client_pool_new_def pool_new_def Let_def client_try_acquire_def acquire_storage_def)
  obtain packet' where rl: "set_read_len (length frame) packet = Inr packet'"
    using len by (simp add: set_read_len_def)
  have cr: "choose_route DATA 9 sample_dispatcher = (Inr (1, 7), sample_dispatcher)"
    by (simp add: choose_route_def DATA_def OPEN_def sample_dispatcher_def worker_route_def sample_worker_def)
  have find: "List.find (\<lambda>w. worker_route w = (1, 7)) (dp_workers sample_dispatcher) = Some sample_worker"
    by (simp add: sample_dispatcher_def worker_route_def sample_worker_def)
  have room: "has_room (dp_queues sample_dispatcher (wc_priority sample_worker))"
    by (simp add: sample_dispatcher_def has_room_def packet_channel_def state_active_def QUEUE_ACTIVE_def)
  obtain pool2 d2 where sent: "send_proxy_frame [r] id frame pool sample_dispatcher = Some (Inr (), pool2, d2)"
    using send_proxy_frame_cases(3) [OF route cr find, of "[r]" id pool]
      send_on_carrier_room [OF acq rl room, of r "[]" id 9] by (simp add: r_def)
  have kind: "DATA \<noteq> OPEN" by (simp add: DATA_def OPEN_def)
  from stream_frames_stay_on_their_carrier [OF sent route kind len acc]
  obtain w packet q where "w \<in> set (dp_workers sample_dispatcher)" "as_slice packet = frame"
    "send_awaiting [r] packet (dp_queues sample_dispatcher (wc_priority w)) = Some (True, q)"
    by auto
  then show ?thesis
    using sent frame_def
    by (intro exI [of _ "[r]"] exI [of _ frame] exI [of _ pool] exI [of _ packet] exI [of _ q])
      (simp add: sample_dispatcher_def)
qed

section \<open>Carriers that vanish\<close>

lemma fold_abort_stream:
  "length entries + length dead \<le> capacity \<Longrightarrow>
    fold abort_stream dead (entries, capacity) = (entries @ dead, capacity)"
  by (induction dead arbitrary: entries) (auto simp: abort_stream_def)

text \<open>When a carrier vanishes, exactly the streams on it are aborted, and no route to it is left.\<close>

lemma unregister_aborts_its_streams:
  assumes "dp_abort d = Some ([], capacity)"
    and "length (filter (\<lambda>(_, route). route = (worker, incarnation)) (dp_routes d)) \<le> capacity"
  shows "\<exists>d'. unregister worker incarnation d = Some d'
    \<and> mset (dp_workers d') = filter_mset (\<lambda>w. worker_route w \<noteq> (worker, incarnation)) (mset (dp_workers d))
    \<and> dp_routes d' = filter (\<lambda>(_, route). route \<noteq> (worker, incarnation)) (dp_routes d)
    \<and> dp_abort d' = Some (map fst (filter (\<lambda>(_, route). route = (worker, incarnation)) (dp_routes d)), capacity)"
proof -
  let ?ws = "filter (\<lambda>w. wc_id w \<noteq> worker \<or> wc_incarnation_id w \<noteq> incarnation) (dp_workers d)"
  obtain ys where ys: "interleave_turn_paths ?ws = Some ys" "mset ys = mset ?ws"
    using interleave_turn_paths_order by blast
  have "filter_mset (\<lambda>w. worker_route w \<noteq> (worker, incarnation)) (mset (dp_workers d)) = mset ?ws"
    by (simp add: worker_route_def mset_filter)
  then show ?thesis
    using ys assms fold_abort_stream [of "[]" "map fst (filter (\<lambda>(_, route). route = (worker, incarnation)) (dp_routes d))"]
    by (simp add: unregister_def Let_def)
qed

end
