(* ===== verification/Server_Control.thy ===== *)
theory Server_Control
  imports Stream_Frames Stream_Repair
begin

text \<open>
  The texts of the control channel: the configuration request a client writes
  (\<open>rust-client/protocol.rs\<close>) and what the server's engine reads from it
  (\<open>parse_getconf_epoch\<close> of \<open>rust-server/protocol.rs\<close>), the classification of
  payloads, and the decisions on device epochs.  A \<open>str\<close> is the list of its
  Unicode scalar values.
\<close>

section \<open>Strings of the standard library\<close>

type_synonym str = "nat list"

text \<open>\<open>char::is_whitespace\<close>: the property White\_Space.\<close>

definition is_whitespace :: "nat \<Rightarrow> bool" where
  "is_whitespace c \<longleftrightarrow> 9 \<le> c \<and> c \<le> 13 \<or> c = 32 \<or> c = 0x85 \<or> c = 0xa0 \<or> c = 0x1680
     \<or> 0x2000 \<le> c \<and> c \<le> 0x200a \<or> c = 0x2028 \<or> c = 0x2029 \<or> c = 0x202f \<or> c = 0x205f \<or> c = 0x3000"

definition str_trim :: "str \<Rightarrow> str" where
  "str_trim cs = rev (dropWhile is_whitespace (rev (dropWhile is_whitespace cs)))"

fun str_splitn :: "nat \<Rightarrow> nat \<Rightarrow> str \<Rightarrow> str list" where
  "str_splitn 0 sep cs = []"
| "str_splitn (Suc 0) sep cs = [cs]"
| "str_splitn (Suc (Suc n)) sep cs =
     (if sep \<in> set cs
      then takeWhile (\<lambda>c. c \<noteq> sep) cs # str_splitn (Suc n) sep (tl (dropWhile (\<lambda>c. c \<noteq> sep) cs))
      else [cs])"

text \<open>\<open>str::len\<close> counts the bytes of the UTF-8 form.\<close>

definition utf8_width :: "nat \<Rightarrow> nat" where
  "utf8_width c = (if c < 0x80 then 1 else if c < 0x800 then 2 else if c < 0x10000 then 3 else 4)"

definition str_len :: "str \<Rightarrow> nat" where
  "str_len cs = sum_list (map utf8_width cs)"

definition chars :: "string \<Rightarrow> str" where
  "chars s = map of_char s"

definition bar :: nat where
  "bar = 124"

definition is_digit :: "nat \<Rightarrow> bool" where
  "is_digit c \<longleftrightarrow> 48 \<le> c \<and> c \<le> 57"

definition decimal_value :: "str \<Rightarrow> nat" where
  "decimal_value cs = foldl (\<lambda>v c. v * 10 + (c - 48)) 0 cs"

fun decimal :: "nat \<Rightarrow> str" where
  "decimal n = (if n < 10 then [48 + n] else decimal (n div 10) @ [48 + n mod 10])"

declare decimal.simps [simp del]

section \<open>Configuration requests\<close>

definition config_request :: "str \<Rightarrow> str \<Rightarrow> str \<Rightarrow> u64 \<Rightarrow> str \<Rightarrow> nat \<Rightarrow> nat \<Rightarrow> str" where
  "config_request local_port device_id password generation_id salt worker_id desired_count =
     chars ''GETCONF:'' @ local_port @ [bar] @ device_id @ [bar] @ password @ [bar]
     @ decimal (unat generation_id) @ [bar] @ salt @ [bar] @ decimal worker_id @ [bar]
     @ decimal desired_count"

definition parse_generation_id :: "str \<Rightarrow> u64 option" where
  "parse_generation_id cs =
     (if cs = [] \<or> \<not> list_all is_digit cs then None
      else if decimal_value cs < 2 ^ 64 then Some (word_of_nat (decimal_value cs)) else None)"

definition parse_getconf_epoch :: "bytes \<Rightarrow> (str \<times> u64 \<times> str) option" where
  "parse_getconf_epoch payload =
     (case utf8_decode payload of
        None \<Rightarrow> None
      | Some cs \<Rightarrow>
          if \<not> starts_with cs (chars ''GETCONF:'') then None
          else let content = str_trim (drop 8 cs);
                   parts = str_splitn 6 bar content
               in case (get_at parts 1, get_at parts 2, get_at parts 3) of
                    (Some device, Some _, Some generation) \<Rightarrow>
                      (case parse_generation_id (str_trim generation) of
                         None \<Rightarrow> None
                       | Some generation_id \<Rightarrow>
                           let device_id = str_trim device;
                               session_salt =
                                 str_trim (case get_at parts 4 of None \<Rightarrow> [] | Some salt \<Rightarrow> salt)
                           in if device_id = [] \<or> 128 < str_len device_id \<or> 128 < str_len session_salt
                              then None
                              else Some (device_id, generation_id, session_salt))
                  | _ \<Rightarrow> None)"

section \<open>Classes of payloads\<close>

definition SESSION_LEASE :: bytes where
  "SESSION_LEASE = 0xff # ascii ''CSQTT_LEASE''"

definition PANEL_RESTART_NOTICE :: bytes where
  "PANEL_RESTART_NOTICE = 0xff # ascii ''CSQTT_PANEL_RESTART_V1'' @ [0x00, 0x91, 0x7d, 0x03, 0xa8]"

definition is_control_payload :: "bytes \<Rightarrow> bool" where
  "is_control_payload payload \<longleftrightarrow>
     starts_with payload (ascii ''GETCONF:'') \<or> starts_with payload (ascii ''DISCONNECT:'')
     \<or> payload = ascii ''READY'' \<or> get_at payload 0 = Some 0xff \<or> is_frame payload"

definition is_idle_keepalive :: "bytes \<Rightarrow> bool" where
  "is_idle_keepalive payload \<longleftrightarrow>
     payload \<noteq> [] \<and> list_all (\<lambda>b. b = 0xff) payload
     \<or> 4 \<le> length payload \<and> length payload \<le> 9 \<and> get_at payload 0 = Some 0xff"

definition should_flush_udp_immediately :: "bytes \<Rightarrow> bool" where
  "should_flush_udp_immediately payload \<longleftrightarrow>
     starts_with payload (ascii ''GETCONF:'') \<or> starts_with payload (ascii ''TUNCONF:'')
     \<or> starts_with payload (ascii ''DENIED:'') \<or> starts_with payload (ascii ''DISCONNECT:'')
     \<or> starts_with payload STREAM_REPAIR_PREFIX \<or> starts_with payload STREAM_ALIVE_PREFIX
     \<or> payload = ascii ''READY'' \<or> payload = ascii ''READY_OK'' \<or> payload = PANEL_RESTART_NOTICE
     \<or> is_frame payload"

section \<open>Device epochs\<close>

record epoch_value =
  epv_generation_id :: u64
  epv_session_salt :: str
  epv_last_seen_ms :: u64

definition session_is_retired_by_epoch :: "str \<Rightarrow> u64 \<Rightarrow> str \<Rightarrow> str \<Rightarrow> u64 \<Rightarrow> str \<Rightarrow> bool" where
  "session_is_retired_by_epoch session_device_id session_generation_id session_salt
     authoritative_device_id authoritative_generation_id authoritative_salt \<longleftrightarrow>
     session_device_id = authoritative_device_id
     \<and> (session_generation_id < authoritative_generation_id
        \<or> session_generation_id = authoritative_generation_id \<and> session_salt \<noteq> authoritative_salt)"

definition session_is_disconnected_device :: "u64 \<Rightarrow> str \<Rightarrow> u64 \<Rightarrow> str \<Rightarrow> bool" where
  "session_is_disconnected_device session_id session_device_id requester_session_id target_device_id \<longleftrightarrow>
     session_id = requester_session_id \<or> session_device_id = target_device_id"

datatype getconf_reconnect_action = Process | Replace | Reject

definition getconf_reconnect_action_hot ::
  "epoch_value option \<Rightarrow> str \<Rightarrow> u64 \<Rightarrow> str \<Rightarrow> str \<Rightarrow> u64 \<Rightarrow> str \<Rightarrow> getconf_reconnect_action" where
  "getconf_reconnect_action_hot authoritative session_device_id session_generation_id session_salt
     incoming_device_id incoming_generation_id incoming_salt =
     (if session_device_id \<noteq> []
         \<and> (session_device_id \<noteq> incoming_device_id \<or> incoming_generation_id < session_generation_id
            \<or> incoming_generation_id = session_generation_id \<and> incoming_salt \<noteq> session_salt)
      then Reject
      else case authoritative of
        Some epoch \<Rightarrow>
          if incoming_generation_id < epv_generation_id epoch
             \<or> incoming_generation_id = epv_generation_id epoch \<and> incoming_salt \<noteq> epv_session_salt epoch
          then Reject
          else if incoming_generation_id = epv_generation_id epoch \<and> incoming_salt = epv_session_salt epoch
          then (if session_device_id = incoming_device_id
                   \<and> session_generation_id = incoming_generation_id \<and> session_salt = incoming_salt
                then Process else Replace)
          else Replace
      | None \<Rightarrow>
          if session_device_id = [] then Process
          else if session_device_id \<noteq> incoming_device_id
             \<or> incoming_generation_id < session_generation_id
             \<or> incoming_generation_id = session_generation_id \<and> incoming_salt \<noteq> session_salt
          then Reject
          else if incoming_generation_id = session_generation_id then Process else Replace)"

section \<open>A request is read back\<close>

lemma decimal_value_snoc [simp]: "decimal_value (cs @ [c]) = decimal_value cs * 10 + (c - 48)"
  by (simp add: decimal_value_def)

lemma decimal_spec: "decimal n \<noteq> [] \<and> list_all is_digit (decimal n) \<and> decimal_value (decimal n) = n"
proof (induction n rule: decimal.induct)
  case (1 n)
  show ?case
  proof (cases "n < 10")
    case True
    then show ?thesis by (subst (1 2 3) decimal.simps) (simp add: is_digit_def decimal_value_def)
  next
    case False
    have "n mod 10 < 10" by simp
    then have "is_digit (48 + n mod 10)" unfolding is_digit_def by linarith
    then show ?thesis using 1 [OF False] False by (subst (1 2 3) decimal.simps) simp
  qed
qed

lemma parse_generation_decimal: "parse_generation_id (decimal (unat g)) = Some (g :: u64)"
  using decimal_spec [of "unat g"] unat_lt2p [of g] by (simp add: parse_generation_id_def)

lemma str_trim_id:
  assumes "cs = [] \<or> \<not> is_whitespace (hd cs) \<and> \<not> is_whitespace (last cs)"
  shows "str_trim cs = cs"
proof -
  have "dropWhile is_whitespace cs = cs" using assms by (cases cs) auto
  moreover have "dropWhile is_whitespace (rev cs) = rev cs"
    using assms by (cases cs rule: rev_cases) auto
  ultimately show ?thesis by (simp add: str_trim_def)
qed

lemma splitn_bar:
  assumes "sep \<notin> set xs"
  shows "str_splitn (Suc (Suc n)) sep (xs @ sep # ys) = xs # str_splitn (Suc n) sep ys"
proof -
  have "takeWhile (\<lambda>c. c \<noteq> sep) (xs @ sep # ys) = xs"
    and "dropWhile (\<lambda>c. c \<noteq> sep) (xs @ sep # ys) = sep # ys"
    using assms by (induction xs) auto
  then show ?thesis by simp
qed

lemma splitn_six:
  assumes "sep \<notin> set a" "sep \<notin> set b" "sep \<notin> set c" "sep \<notin> set d" "sep \<notin> set e"
  shows "str_splitn 6 sep (a @ [sep] @ b @ [sep] @ c @ [sep] @ d @ [sep] @ e @ [sep] @ f)
    = [a, b, c, d, e, f]"
  using assms by (simp add: eval_nat_numeral splitn_bar del: str_splitn.simps(3))

lemma digits_ascii: "list_all is_digit cs \<Longrightarrow> c \<in> set cs \<Longrightarrow> c < 0x80 \<and> c \<noteq> bar \<and> \<not> is_whitespace c"
  by (auto simp: list_all_iff is_digit_def bar_def is_whitespace_def)

text \<open>The fields a client is configured with: ASCII, no bar, no blank at either end.\<close>

definition plain_field :: "str \<Rightarrow> bool" where
  "plain_field cs \<longleftrightarrow> list_all (\<lambda>c. c < 0x80 \<and> c \<noteq> bar) cs
     \<and> (cs = [] \<or> \<not> is_whitespace (hd cs) \<and> \<not> is_whitespace (last cs))"

definition utf8_ascii :: "str \<Rightarrow> bytes" where
  "utf8_ascii cs = map word_of_nat cs"

lemma utf8_decode_ascii: "list_all (\<lambda>c. c < 0x80) cs \<Longrightarrow> utf8_decode (utf8_ascii cs) = Some cs"
proof (induction cs)
  case (Cons c cs)
  then have "unat (word_of_nat c :: u8) = c" by (simp add: unat_of_nat)
  moreover have "(word_of_nat c :: u8) < 0x80" using Cons.prems calculation by (simp add: word_less_nat_alt)
  ultimately show ?case using Cons by (simp add: utf8_ascii_def)
qed (simp add: utf8_ascii_def)

lemma plain_fieldD:
  assumes "plain_field cs"
  shows "bar \<notin> set cs" and "str_trim cs = cs" and "list_all (\<lambda>c. c < 0x80) cs"
  using assms str_trim_id [of cs] by (auto simp: plain_field_def list_all_iff)

lemma decimal_plain: "plain_field (decimal n)"
proof -
  have d: "list_all is_digit (decimal n)" and ne: "decimal n \<noteq> []" using decimal_spec [of n] by auto
  have "hd (decimal n) \<in> set (decimal n)" and "last (decimal n) \<in> set (decimal n)" using ne by simp_all
  then show ?thesis using digits_ascii [OF d] by (auto simp: plain_field_def list_all_iff)
qed

lemma ascii_str_len: "list_all (\<lambda>c. c < 0x80) cs \<Longrightarrow> str_len cs = length cs"
  by (induction cs) (auto simp: str_len_def utf8_width_def)

lemma request_content_trimmed:
  assumes "plain_field port" and "port \<noteq> []"
  shows "str_trim (port @ [bar] @ xs @ decimal n) = port @ [bar] @ xs @ decimal n"
proof (rule str_trim_id)
  have "decimal n \<noteq> []" "\<not> is_whitespace (last (decimal n))"
    using decimal_spec [of n] decimal_plain [of n] by (auto simp: plain_field_def)
  moreover have "\<not> is_whitespace (hd port)" using assms by (simp add: plain_field_def)
  ultimately show "port @ [bar] @ xs @ decimal n = [] \<or>
      \<not> is_whitespace (hd (port @ [bar] @ xs @ decimal n)) \<and>
      \<not> is_whitespace (last (port @ [bar] @ xs @ decimal n))"
    using assms(2) by simp
qed

text \<open>The configuration request of a client is read back by the server as it was written: for
  fields of ASCII characters without a bar and without a blank at either end, of at most 128
  characters, the engine reads exactly the device, the generation and the salt that the client put
  into the request, whatever the port, the password, the worker number and the worker count are, and
  it hands the request to the control channel.\<close>

lemma config_request_is_read_back:
  assumes "plain_field port" and "port \<noteq> []" and "plain_field device" and "device \<noteq> []"
    and "plain_field password" and "plain_field salt" and "length device \<le> 128" and "length salt \<le> 128"
  shows "parse_getconf_epoch (utf8_ascii (config_request port device password generation salt worker desired))
      = Some (device, generation, salt)
    \<and> is_control_payload (utf8_ascii (config_request port device password generation salt worker desired))"
proof -
  define request where
    "request = utf8_ascii (config_request port device password generation salt worker desired)"
  define content where "content = port @ [bar] @ device @ [bar] @ password @ [bar]
    @ decimal (unat generation) @ [bar] @ salt @ [bar] @ decimal worker @ [bar] @ decimal desired"
  have req: "config_request port device password generation salt worker desired
      = chars ''GETCONF:'' @ content" by (simp add: config_request_def content_def)
  note fields = plain_fieldD [OF assms(1)] plain_fieldD [OF assms(3)] plain_fieldD [OF assms(5)]
    plain_fieldD [OF assms(6)] plain_fieldD [OF decimal_plain]
  have "list_all (\<lambda>c. c < 0x80) (chars ''GETCONF:'' @ content)"
    using fields(3,6,9,12) fields(15) by (simp add: content_def chars_def bar_def)
  then have decoded: "utf8_decode request = Some (chars ''GETCONF:'' @ content)"
    unfolding request_def req by (rule utf8_decode_ascii)
  have start: "starts_with (chars ''GETCONF:'' @ content) (chars ''GETCONF:'')"
    and rest: "drop 8 (chars ''GETCONF:'' @ content) = content"
    by (simp_all add: starts_with_def chars_def)
  have trimmed: "str_trim content = content"
    using request_content_trimmed [OF assms(1,2), of "device @ [bar] @ password @ [bar] @
      decimal (unat generation) @ [bar] @ salt @ [bar] @ decimal worker @ [bar]" desired] by (simp add: content_def)
  have split: "str_splitn 6 bar content = [port, device, password, decimal (unat generation), salt,
      decimal worker @ [bar] @ decimal desired]"
    unfolding content_def using splitn_six [OF fields(1,4,7,13,10)] by simp
  have "parse_getconf_epoch request = Some (device, generation, salt)"
    unfolding parse_getconf_epoch_def decoded
    using start assms(4,7,8) fields(5,6,11,12,14)
    by (simp add: drop_append rest [unfolded drop_append] trimmed split get_at_def parse_generation_decimal ascii_str_len Let_def)
  moreover have "starts_with request (ascii ''GETCONF:'')"
    unfolding request_def req by (simp add: starts_with_def ascii_def utf8_ascii_def chars_def)
  ultimately show ?thesis unfolding request_def [symmetric] by (simp add: is_control_payload_def)
qed

end
