(* ===== verification/Server_Session.thy ===== *)
theory Server_Session
  imports Server_Control Obfs_Wire Replay_Window Packet_Sink
begin

text \<open>
  One session of the server's engine (\<open>HotSession\<close> of \<open>rust-server/protocol.rs\<close>) with the
  part of it that other tasks see (\<open>Session\<close>), the sending of one payload through it, and
  the table that holds the sessions: a slab with two hash maps into it.
\<close>

section \<open>Sessions\<close>

datatype fec_profile = Safe | Off

definition FEC_EXTRA_COPIES :: nat where
  "FEC_EXTRA_COPIES = 1"

text \<open>The fields of \<open>Session\<close> that the engine or the control tasks write; the control tasks may
  change them between any two calls of the engine.\<close>

record public_session =
  pub_id :: u64
  pub_address :: peer
  pub_password :: str
  pub_device_id :: str
  pub_generation_id :: u64
  pub_session_salt :: str
  pub_worker_id :: u64
  pub_desired_stream_count :: u64
  pub_tunnel_ip :: "bytes option"
  pub_last_seen :: u64
  pub_up_bytes :: u64
  pub_down_bytes :: u64
  pub_created_at :: u64
  pub_is_srtp :: bool
  pub_has_tunnel :: bool
  pub_cancelled :: bool

definition public_new :: "u64 \<Rightarrow> peer \<Rightarrow> str \<Rightarrow> str \<Rightarrow> u64 \<Rightarrow> str \<Rightarrow> bool \<Rightarrow> u64 \<Rightarrow> public_session" where
  "public_new sid address password device_id generation_id session_salt is_srtp wall_now =
     \<lparr>pub_id = sid, pub_address = address, pub_password = password, pub_device_id = device_id,
      pub_generation_id = generation_id, pub_session_salt = session_salt, pub_worker_id = - 1,
      pub_desired_stream_count = 0, pub_tunnel_ip = None, pub_last_seen = wall_now, pub_up_bytes = 0,
      pub_down_bytes = 0, pub_created_at = wall_now, pub_is_srtp = is_srtp, pub_has_tunnel = False,
      pub_cancelled = False\<rparr>"

text \<open>\<open>hs_crypto\<close> stands for the key of the session and the three ciphers made from it.\<close>

record hot_session =
  hs_id :: u64
  hs_peer :: peer
  hs_local_ip :: "ip_addr option"
  hs_password :: str
  hs_device_id :: str
  hs_generation_id :: u64
  hs_session_salt :: str
  hs_crypto :: crypto
  hs_output :: out_state
  hs_replay :: replay_state
  hs_tunnel_ip :: "bytes option"
  hs_registration_id :: "u64 option"
  hs_desired_stream_count :: u16
  hs_last_inbound_ms :: u64
  hs_up_total :: u64
  hs_down_total :: u64
  hs_reported_up :: u64
  hs_reported_down :: u64
  hs_is_srtp :: bool
  hs_pending_tunnel :: bool
  hs_public :: public_session
  hs_fec_profile :: fec_profile
  hs_fec_budget :: budget

definition out_state_new :: "bytes \<Rightarrow> u64 \<Rightarrow> u8 \<Rightarrow> out_state" where
  "out_state_new random wall_ms payload_type =
     \<lparr>ou_ssrc = be32 random 0, ou_initial_seq = be16 random 4, ou_initial_ts = be32 random 6,
      ou_initial_abs_send_time = (ucast ((wall_ms * 262144) div 1000) :: u32) AND 0x00ffffff,
      ou_count = 0, ou_payload_type = payload_type, ou_transport_seq = be16 random 10\<rparr>"

text \<open>What the engine reads from outside while it handles one event: the free key of the slab for
  the next session, the random bytes and the wall clock of a new session, the random draws of
  the \<open>n\<close>th packet of a session, the time since a session started, the clock of the
  duplication budget, the result of a write to the network device, and the capacity of the slab
  with the moves of its compaction.\<close>

record engine_env =
  ev_vacant :: "hot_session option list \<Rightarrow> nat"
  ev_random :: "u64 \<Rightarrow> bytes"
  ev_wall_ms :: u64
  ev_draws :: "u64 \<Rightarrow> u64 \<Rightarrow> draws"
  ev_elapsed :: "u64 \<Rightarrow> u64 \<times> u32"
  ev_now :: nat
  ev_tun :: tun_write
  ev_capacity :: nat
  ev_moves :: "(nat \<times> nat) list"

definition hot_session_legacy ::
  "engine_env \<Rightarrow> u64 \<Rightarrow> peer \<Rightarrow> ip_addr option \<Rightarrow> str \<Rightarrow> crypto \<Rightarrow> u8 \<Rightarrow> bool \<Rightarrow> str \<Rightarrow> u64 \<Rightarrow> str
     \<Rightarrow> fec_profile \<Rightarrow> u64 \<Rightarrow> u64 \<Rightarrow> hot_session" where
  "hot_session_legacy env sid p local_ip password key payload_type is_srtp device_id generation_id
     session_salt profile monotonic_ms wall_now =
     \<lparr>hs_id = sid, hs_peer = p, hs_local_ip = local_ip, hs_password = password, hs_device_id = device_id,
      hs_generation_id = generation_id, hs_session_salt = session_salt, hs_crypto = key,
      hs_output = out_state_new (ev_random env sid) (ev_wall_ms env) payload_type,
      hs_replay = replay_new, hs_tunnel_ip = None, hs_registration_id = None,
      hs_desired_stream_count = 0, hs_last_inbound_ms = monotonic_ms, hs_up_total = 0, hs_down_total = 0,
      hs_reported_up = 0, hs_reported_down = 0, hs_is_srtp = is_srtp, hs_pending_tunnel = False,
      hs_public = public_new sid p password device_id generation_id session_salt is_srtp wall_now,
      hs_fec_profile = profile, hs_fec_budget = budget_new (ev_now env)\<rparr>"

text \<open>The counters of a session are published into its public part and the totals of the server.\<close>

definition publish_counters ::
  "u64 \<Rightarrow> hot_session \<Rightarrow> u64 \<times> u64 \<Rightarrow> hot_session \<times> (u64 \<times> u64)" where
  "publish_counters wall_now s globals =
     (let up_delta = saturating_sub (hs_up_total s) (hs_reported_up s);
          down_delta = saturating_sub (hs_down_total s) (hs_reported_down s);
          p = hs_public s;
          p = p\<lparr>pub_up_bytes := pub_up_bytes p + up_delta,
                pub_down_bytes := pub_down_bytes p + down_delta, pub_last_seen := wall_now\<rparr>
      in (s\<lparr>hs_reported_up := (if up_delta \<noteq> 0 then hs_up_total s else hs_reported_up s),
            hs_reported_down := (if down_delta \<noteq> 0 then hs_down_total s else hs_reported_down s),
            hs_public := p\<rparr>,
          (fst globals + up_delta, snd globals + down_delta)))"

section \<open>Sending through a session\<close>

definition duplication_copies :: "nat \<Rightarrow> bytes \<Rightarrow> fec_profile \<Rightarrow> budget \<Rightarrow> nat \<times> budget" where
  "duplication_copies now plain profile b =
     (if profile \<noteq> Safe then (0, b)
      else if is_server_duplicable_frame plain \<or> should_duplicate plain then
        (case allow now b of (granted, b') \<Rightarrow> (if granted then FEC_EXTRA_COPIES else 0, b'))
      else (0, b))"

text \<open>The packet builder seals the payload and advances the output counters; it runs only when the
  sink has a slot and a buffer.\<close>

definition send_plain_mode ::
  "engine_env \<Rightarrow> packet_class \<Rightarrow> bytes \<Rightarrow> hot_session \<Rightarrow> packet_sink \<Rightarrow> bool \<times> hot_session \<times> packet_sink" where
  "send_plain_mode env cls plain s sink =
     (let (extra_copies, fec_budget) =
            duplication_copies (ev_now env) plain (hs_fec_profile s) (hs_fec_budget s);
          (out', wrapped) = wrap_legacy_into (hs_crypto s) (hs_is_srtp s)
            (ev_draws env (hs_id s) (ou_count (hs_output s))) (ev_elapsed env (hs_id s)) (hs_output s) plain;
          (ran, sent, sink) = send_udp_with_duplicate_priority (hs_peer s) (hs_local_ip s) extra_copies cls
            (case wrapped of Inl _ \<Rightarrow> None | Inr wire \<Rightarrow> Some wire) sink;
          s = s\<lparr>hs_fec_budget := fec_budget, hs_output := (if ran then out' else hs_output s)\<rparr>
      in (sent, s,
          if sent \<and> (cls = Latency \<or> should_flush_udp_immediately plain)
          then request_udp_flush sink else sink))"

definition send_plain ::
  "engine_env \<Rightarrow> bytes \<Rightarrow> hot_session \<Rightarrow> packet_sink \<Rightarrow> bool \<times> hot_session \<times> packet_sink" where
  "send_plain env plain s sink = send_plain_mode env Bulk plain s sink"

section \<open>The slab\<close>

type_synonym slab = "hot_session option list"

definition slab_get :: "'a option list \<Rightarrow> nat \<Rightarrow> 'a option" where
  "slab_get ss i = (case get_at ss i of None \<Rightarrow> None | Some x \<Rightarrow> x)"

definition slab_put :: "nat \<Rightarrow> 'a \<Rightarrow> 'a option list \<Rightarrow> 'a option list" where
  "slab_put i s ss = (ss @ replicate (Suc i - length ss) None)[i := Some s]"

definition slab_remove :: "nat \<Rightarrow> 'a option list \<Rightarrow> 'a option list" where
  "slab_remove i ss = ss[i := None]"

definition slab_entries :: "'a option list \<Rightarrow> (nat \<times> 'a) list" where
  "slab_entries ss =
     concat (map (\<lambda>i. case slab_get ss i of None \<Rightarrow> [] | Some s \<Rightarrow> [(i, s)]) [0..<length ss])"

lemma slab_get_nil [simp]: "slab_get [] i = None"
  by (simp add: slab_get_def get_at_def)

lemma slab_get_put [simp]: "slab_get (slab_put i s ss) j = (if i = j then Some s else slab_get ss j)"
  by (auto simp: slab_get_def slab_put_def get_at_def nth_append nth_list_update)

lemma slab_get_remove [simp]: "slab_get (slab_remove i ss) j = (if i = j then None else slab_get ss j)"
  by (auto simp: slab_get_def slab_remove_def get_at_def nth_list_update)

lemma slab_get_bound: "slab_get ss i = Some s \<Longrightarrow> i < length ss"
  by (auto simp: slab_get_def get_at_def split: if_splits)

lemma slab_entries_iff [simp]: "(i, s) \<in> set (slab_entries ss) \<longleftrightarrow> slab_get ss i = Some s"
  using slab_get_bound [of ss i s]
  by (auto simp: slab_entries_def split: option.splits)

section \<open>Indexes into the slab\<close>

text \<open>A hash map from a key of the sessions to their slots is exact when it holds the slot_id of every
  session under its key and nothing else.\<close>

definition index_ok :: "(hot_session \<Rightarrow> 'k) \<Rightarrow> slab \<Rightarrow> ('k \<times> nat) list \<Rightarrow> bool" where
  "index_ok key ss idx \<longleftrightarrow>
     (\<forall>k slot_id. map_of idx k = Some slot_id \<longleftrightarrow> (\<exists>s. slab_get ss slot_id = Some s \<and> key s = k))"

locale slab_index =
  fixes key :: "hot_session \<Rightarrow> 'k"
begin

lemma index_found:
  assumes "index_ok key ss idx" and "map_of idx k = Some slot_id"
  obtains s where "slab_get ss slot_id = Some s" and "key s = k"
  using assms unfolding index_ok_def by blast

lemma index_lookup: "index_ok key ss idx \<Longrightarrow> slab_get ss slot_id = Some s \<Longrightarrow> map_of idx (key s) = Some slot_id"
  unfolding index_ok_def by blast

lemma index_unique:
  assumes "index_ok key ss idx" and "slab_get ss i = Some s" and "slab_get ss j = Some t" and "key s = key t"
  shows "i = j"
  using index_lookup [OF assms(1,2)] index_lookup [OF assms(1,3)] assms(4) by simp

lemma index_iff: "index_ok key ss idx \<Longrightarrow> map_of idx k = Some i \<longleftrightarrow> (\<exists>s. slab_get ss i = Some s \<and> key s = k)"
  unfolding index_ok_def by blast

lemma index_insert:
  assumes ok: "index_ok key ss idx" and "slab_get ss slot_id = None" and "map_of idx (key s) = None"
  shows "index_ok key (slab_put slot_id s ss) (AList.update (key s) slot_id idx)"
proof -
  have "map_of (AList.update (key s) slot_id idx) k = Some i \<longleftrightarrow>
      (\<exists>t. slab_get (slab_put slot_id s ss) i = Some t \<and> key t = k)" for k i
  proof (cases "k = key s")
    case True
    have "\<not> (\<exists>t. slab_get ss i = Some t \<and> key t = key s)"
      using index_iff [OF ok, of "key s" i] assms(3) by simp
    then show ?thesis using True by (cases "slot_id = i") (simp_all add: update_conv')
  next
    case False
    then show ?thesis
      using index_iff [OF ok, of k i] assms(2) by (cases "slot_id = i") (simp_all add: update_conv')
  qed
  then show ?thesis unfolding index_ok_def by blast
qed

lemma index_remove:
  assumes ok: "index_ok key ss idx" and s: "slab_get ss slot_id = Some s"
  shows "index_ok key (slab_remove slot_id ss) (AList.delete (key s) idx)"
proof -
  have "map_of (AList.delete (key s) idx) k = Some i \<longleftrightarrow>
      (\<exists>t. slab_get (slab_remove slot_id ss) i = Some t \<and> key t = k)" for k i
  proof (cases "slot_id = i")
    case True
    then show ?thesis using index_iff [OF ok, of k i] s by (simp add: delete_conv')
  next
    case False
    then have "\<not> (\<exists>t. slab_get ss i = Some t \<and> key t = key s)" using index_unique [OF ok s] by metis
    then show ?thesis using index_iff [OF ok, of k i] False by (auto simp: delete_conv')
  qed
  then show ?thesis unfolding index_ok_def by blast
qed

lemma index_same:
  assumes ok: "index_ok key ss idx" and s: "slab_get ss slot_id = Some s" and t: "key t = key s"
  shows "index_ok key (slab_put slot_id t ss) idx"
proof -
  have "map_of idx k = Some i \<longleftrightarrow> (\<exists>u. slab_get (slab_put slot_id t ss) i = Some u \<and> key u = k)" for k i
    using index_iff [OF ok, of k i] s t by (cases "slot_id = i") simp_all
  then show ?thesis unfolding index_ok_def by blast
qed

lemma index_rekey:
  assumes ok: "index_ok key ss idx" and s: "slab_get ss slot_id = Some s" and "map_of idx (key t) = None"
  shows "index_ok key (slab_put slot_id t ss) (AList.update (key t) slot_id (AList.delete (key s) idx))"
proof -
  have "index_ok key (slab_remove slot_id ss) (AList.delete (key s) idx)" by (rule index_remove [OF ok s])
  then have "index_ok key (slab_put slot_id t (slab_remove slot_id ss))
      (AList.update (key t) slot_id (AList.delete (key s) idx))"
    using assms(3) by (intro index_insert) (simp_all add: delete_conv')
  then show ?thesis unfolding index_ok_def by (simp cong: if_cong)
qed

lemma index_move:
  assumes ok: "index_ok key ss idx" and s: "slab_get ss old = Some s" and new: "slab_get ss new = None"
  shows "index_ok key (slab_put new s (slab_remove old ss)) (AList.update (key s) new idx)"
proof -
  have "index_ok key (slab_remove old ss) (AList.delete (key s) idx)" by (rule index_remove [OF ok s])
  then have "index_ok key (slab_put new s (slab_remove old ss))
      (AList.update (key s) new (AList.delete (key s) idx))"
    using new by (intro index_insert) (simp_all add: delete_conv')
  then show ?thesis unfolding index_ok_def by (simp add: update_conv' delete_conv')
qed

end

definition session_key :: "hot_session \<Rightarrow> peer \<times> ip_addr option" where
  "session_key s = (hs_peer s, hs_local_ip s)"

interpretation by_id_index: slab_index hs_id .

interpretation by_peer_index: slab_index session_key .

section \<open>What sending and counting leave of a session\<close>

text \<open>The fields the tables of the engine depend on.\<close>

definition same_face :: "hot_session \<Rightarrow> hot_session \<Rightarrow> bool" where
  "same_face s t \<longleftrightarrow> hs_id t = hs_id s \<and> hs_peer t = hs_peer s \<and> hs_local_ip t = hs_local_ip s
     \<and> hs_password t = hs_password s \<and> hs_crypto t = hs_crypto s \<and> hs_tunnel_ip t = hs_tunnel_ip s
     \<and> hs_registration_id t = hs_registration_id s \<and> hs_replay t = hs_replay s"

lemma same_face_refl [simp]: "same_face s s"
  by (simp add: same_face_def)

lemma same_face_trans: "same_face s t \<Longrightarrow> same_face t u \<Longrightarrow> same_face s u"
  by (simp add: same_face_def)

lemma publish_same_face: "publish_counters wall_now s globals = (t, g) \<Longrightarrow> same_face s t"
  by (auto simp: publish_counters_def same_face_def Let_def)

lemma send_plain_mode_ok:
  assumes "send_plain_mode env cls plain s sink = (sent, t, sink')"
  shows "same_face s t" and "sink_ok sink \<Longrightarrow> sink_ok sink'"
proof -
  obtain n b where d: "duplication_copies (ev_now env) plain (hs_fec_profile s) (hs_fec_budget s) = (n, b)"
    by (rule prod.exhaust)
  obtain out' w where w: "wrap_legacy_into (hs_crypto s) (hs_is_srtp s)
      (ev_draws env (hs_id s) (ou_count (hs_output s))) (ev_elapsed env (hs_id s)) (hs_output s) plain
      = (out', w)" by (rule prod.exhaust)
  let ?built = "case w of Inl _ \<Rightarrow> None | Inr wire \<Rightarrow> Some wire"
  obtain ran sent0 sink0 where u: "send_udp_with_duplicate_priority (hs_peer s) (hs_local_ip s) n cls
      ?built sink = (ran, sent0, sink0)" by (metis prod.exhaust)
  have eq: "t = s\<lparr>hs_fec_budget := b, hs_output := (if ran then out' else hs_output s)\<rparr>"
      "sink' = (if sent \<and> (cls = Latency \<or> should_flush_udp_immediately plain)
                then request_udp_flush sink0 else sink0)"
    using assms unfolding send_plain_mode_def d w by (auto simp: u)
  show "same_face s t" unfolding eq(1) by (simp add: same_face_def)
  show "sink_ok sink'" if "sink_ok sink"
    using send_dup_ok [OF that, of "hs_peer s" "hs_local_ip s" n cls ?built] u
    by (simp add: eq(2) request_udp_flush_def)
qed

lemmas send_plain_ok = send_plain_mode_ok [where cls = Bulk, folded send_plain_def]

end
