(* ===== verification/Server_Engine.thy ===== *)
theory Server_Engine
  imports Server_Session Route_Table Downlink_Queue
begin

text \<open>
  The engine of the server (\<open>ProtocolEngine\<close> of \<open>rust-server/protocol.rs\<close>): it owns the
  session table, the routes, the downlink queue and the device epochs, and handles
  datagrams from clients, packets from the network device, commands of the control
  tasks, and the clock. Diagnostics, gauges and log lines are left out.
\<close>

section \<open>State\<close>

definition MAX_ACTIVE_SESSIONS :: nat where
  "MAX_ACTIVE_SESSIONS = 3072"

definition CONTROL_EVENT_CAPACITY :: nat where
  "CONTROL_EVENT_CAPACITY = 1024"

definition DOWNLINK_DRAIN_PACKET_LIMIT :: nat where
  "DOWNLINK_DRAIN_PACKET_LIMIT = 128"

definition HOT_TABLE_RESERVE :: nat where
  "HOT_TABLE_RESERVE = 128"

definition SETUP_BUDGET_PER_TICK :: nat where
  "SETUP_BUDGET_PER_TICK = 1024"

definition SESSION_SETUP_IDLE_MS :: u64 where
  "SESSION_SETUP_IDLE_MS = 15000"

definition SESSION_AUTH_IDLE_MS :: u64 where
  "SESSION_AUTH_IDLE_MS = 10 * 60 * 60 * 1000"

definition EPOCH_SWEEP_INTERVAL_MS :: u64 where
  "EPOCH_SWEEP_INTERVAL_MS = 5 * 60000"

definition EPOCH_IDLE_TTL_MS :: u64 where
  "EPOCH_IDLE_TTL_MS = 60 * 60000"

definition MEMORY_COMPACT_INTERVAL_MS :: u64 where
  "MEMORY_COMPACT_INTERVAL_MS = 5000"

definition SESSION_MAINTENANCE_INTERVAL_MS :: u64 where
  "SESSION_MAINTENANCE_INTERVAL_MS = 1000"

datatype control_event =
    SessionCreated public_session
  | SessionClosed peer u64 string
  | ControlPayload peer u64 bytes
  | IngressBeforeTunnel peer u64 bytes
  | StreamRepairEvent str u64 u16 u64 "u16 list" nat nat

datatype protocol_command =
    SendPlain u64 bytes
  | BroadcastPlain bytes
  | ActivateTunnel u64 bytes u64 u16 u16
  | DeactivateTunnel u64
  | InjectTun u64 bytes
  | UpdateEpoch u64 str u64 str
  | SetAuthoritativeEpoch str u64 str
  | DisconnectDevice str u64
  | ReplaceCredentials "(str \<times> crypto) list"
  | DropSession u64
  | DropPassword str
  | CompactMemory

text \<open>\<open>en_credentials\<close> holds a password with the ciphers of its key; \<open>en_prefix\<close> is the tunnel
  network of the process, \<open>en_next_id\<close> its session counter, \<open>en_sink\<close> the packet sink that the
  dataplane passes to every handler, \<open>en_closed\<close> the public parts of removed sessions, which
  other tasks may still hold. \<open>en_panicked\<close> records that a handler indexed the slab at an
  empty key.\<close>

record engine =
  en_prefix :: bytes
  en_credentials :: "(str \<times> crypto) list"
  en_epochs :: "(str \<times> epoch_value) list"
  en_sessions :: slab
  en_by_peer :: "((peer \<times> ip_addr option) \<times> nat) list"
  en_by_id :: "(u64 \<times> nat) list"
  en_routes :: route_table
  en_downlink :: downlink_queue
  en_control :: "control_event list"
  en_fec_profile :: fec_profile
  en_global :: "u64 \<times> u64"
  en_monotonic_ms :: u64
  en_wall_now :: u64
  en_setup_budget :: nat
  en_compact_pending :: bool
  en_last_compact_ms :: u64
  en_last_maintenance_ms :: u64
  en_streams :: stream_state
  en_last_epoch_sweep_ms :: u64
  en_next_id :: u64
  en_sink :: packet_sink
  en_closed :: "public_session list"
  en_panicked :: bool

definition engine_new ::
  "bytes \<Rightarrow> (str \<times> crypto) list \<Rightarrow> (str \<times> epoch_value) list \<Rightarrow> fec_profile \<Rightarrow> u64 \<Rightarrow> engine" where
  "engine_new network credentials epochs profile wall_now =
     \<lparr>en_prefix = network, en_credentials = credentials, en_epochs = epochs, en_sessions = [],
      en_by_peer = [], en_by_id = [], en_routes = table_new, en_downlink = downlink_default,
      en_control = [], en_fec_profile = profile, en_global = (0, 0), en_monotonic_ms = 1,
      en_wall_now = wall_now, en_setup_budget = SETUP_BUDGET_PER_TICK * 2, en_compact_pending = False,
      en_last_compact_ms = 0, en_last_maintenance_ms = 0,
      en_streams = \<lparr>st_inventory = [], st_repairs = [], st_dirty = True, st_last_resync_ms = 0,
                    st_last_reconcile_ms = 0\<rparr>,
      en_last_epoch_sweep_ms = 0, en_next_id = 1, en_sink = sink_new, en_closed = [],
      en_panicked = False\<rparr>"

text \<open>The bounded channel to the control tasks.\<close>

definition try_send_control :: "control_event \<Rightarrow> engine \<Rightarrow> bool \<times> engine" where
  "try_send_control event e =
     (if length (en_control e) < CONTROL_EVENT_CAPACITY
      then (True, e\<lparr>en_control := en_control e @ [event]\<rparr>) else (False, e))"

definition tell :: "control_event \<Rightarrow> engine \<Rightarrow> engine" where
  "tell event e = snd (try_send_control event e)"

definition put_session :: "nat \<Rightarrow> hot_session \<Rightarrow> engine \<Rightarrow> engine" where
  "put_session slot_id s e = e\<lparr>en_sessions := slab_put slot_id s (en_sessions e)\<rparr>"

definition mark_dirty :: "engine \<Rightarrow> engine" where
  "mark_dirty e = e\<lparr>en_streams := (en_streams e)\<lparr>st_dirty := True\<rparr>\<rparr>"

section \<open>Sessions come and go\<close>

definition sync_downlink_profile :: "bytes \<Rightarrow> engine \<Rightarrow> engine" where
  "sync_downlink_profile ip e =
     (case tunnel_key (en_prefix e) ip of
        None \<Rightarrow> e
      | Some key \<Rightarrow> e\<lparr>en_downlink := dq_configure key (active_path_count key (en_routes e)) (en_downlink e)\<rparr>)"

definition takes_over :: "bytes \<Rightarrow> hot_session \<Rightarrow> hot_session \<Rightarrow> bool" where
  "takes_over ip session candidate \<longleftrightarrow>
     hs_tunnel_ip candidate = Some ip \<and> hs_registration_id candidate \<noteq> None
     \<and> hs_device_id candidate = hs_device_id session
     \<and> hs_generation_id candidate = hs_generation_id session
     \<and> hs_session_salt candidate = hs_session_salt session
     \<and> pub_worker_id (hs_public candidate) = pub_worker_id (hs_public session)"

text \<open>\<open>max_by_key\<close> returns the last of the greatest elements.\<close>

definition max_by_id :: "(nat \<times> hot_session) list \<Rightarrow> (nat \<times> hot_session) option" where
  "max_by_id xs =
     foldl (\<lambda>best x. case best of
         None \<Rightarrow> Some x
       | Some y \<Rightarrow> if hs_id (snd y) \<le> hs_id (snd x) then Some x else Some y) None xs"

definition fall_back :: "bytes \<Rightarrow> hot_session \<Rightarrow> engine \<Rightarrow> engine" where
  "fall_back ip session e =
     (let worker_id = pub_worker_id (hs_public session) in
      case max_by_id (filter (\<lambda>(_, candidate). takes_over ip session candidate)
        (slab_entries (en_sessions e))) of
        None \<Rightarrow> e
      | Some (slot_id, candidate) \<Rightarrow>
          if unat worker_id < 2 ^ 16 then
            put_session slot_id (candidate\<lparr>hs_public := (hs_public candidate)\<lparr>pub_has_tunnel := True\<rparr>\<rparr>)
              (e\<lparr>en_routes := snd (table_register (en_prefix e) ip (hs_id candidate)
                   (case hs_registration_id candidate of None \<Rightarrow> 0 | Some r \<Rightarrow> r)
                   (ucast worker_id) slot_id (en_routes e))\<rparr>)
          else e)"

definition unroute :: "hot_session \<Rightarrow> engine \<Rightarrow> engine" where
  "unroute session e =
     (case (hs_tunnel_ip session, hs_registration_id session) of
        (Some ip, Some registration_id) \<Rightarrow>
          (case table_unregister (en_prefix e) ip registration_id (en_routes e) of
             (removed, routes) \<Rightarrow>
               sync_downlink_profile ip
                 (if removed then fall_back ip session (e\<lparr>en_routes := routes\<rparr>) else e\<lparr>en_routes := routes\<rparr>))
      | _ \<Rightarrow> e)"

definition remove_slot_with_reason :: "nat \<Rightarrow> string \<Rightarrow> engine \<Rightarrow> engine" where
  "remove_slot_with_reason slot_id reason e =
     (case slab_get (en_sessions e) slot_id of
        None \<Rightarrow> e
      | Some taken \<Rightarrow>
          (case publish_counters (en_wall_now e) taken (en_global e) of
             (session, globals) \<Rightarrow>
               let e = mark_dirty (e\<lparr>en_sessions := slab_remove slot_id (en_sessions e),
                     en_compact_pending := True, en_global := globals,
                     en_by_peer := AList.delete (session_key session) (en_by_peer e),
                     en_by_id := AList.delete (hs_id session) (en_by_id e)\<rparr>);
                   e = unroute session e
               in tell (SessionClosed (hs_peer session) (hs_id session) reason)
                    (e\<lparr>en_closed := en_closed e
                        @ [(hs_public session)\<lparr>pub_has_tunnel := False, pub_cancelled := True\<rparr>]\<rparr>)))"

text \<open>\<open>stale_slots\<close> is filled in slot order and emptied from its end.\<close>

definition remove_sessions :: "(hot_session \<Rightarrow> bool) \<Rightarrow> string \<Rightarrow> engine \<Rightarrow> engine" where
  "remove_sessions stale reason e =
     fold (\<lambda>slot_id. remove_slot_with_reason slot_id reason)
       (rev (map fst (filter (\<lambda>(_, s). stale s) (slab_entries (en_sessions e))))) e"

definition create_legacy_session ::
  "engine_env \<Rightarrow> peer \<Rightarrow> ip_addr option \<Rightarrow> str \<Rightarrow> crypto \<Rightarrow> u8 \<Rightarrow> bool \<Rightarrow> str \<Rightarrow> u64 \<Rightarrow> str \<Rightarrow> u16 \<Rightarrow> engine
     \<Rightarrow> nat \<times> engine" where
  "create_legacy_session env p local_ip password key payload_type is_srtp device_id generation_id
     session_salt replay_seq e0 =
     (let e = (case map_of (en_by_peer e0) (p, local_ip) of
                 None \<Rightarrow> e0
               | Some old_slot \<Rightarrow> remove_slot_with_reason old_slot ''peer-replaced'' e0);
          sid = en_next_id e;
          session = hot_session_legacy env sid p local_ip password key payload_type is_srtp device_id
            generation_id session_salt (en_fec_profile e) (en_monotonic_ms e) (en_wall_now e);
          session = session\<lparr>hs_replay := snd (replay_accept replay_seq (hs_replay session))\<rparr>;
          slot_id = ev_vacant env (en_sessions e);
          e = e\<lparr>en_next_id := sid + 1, en_sessions := slab_put slot_id session (en_sessions e),
                en_by_peer := AList.update (p, local_ip) slot_id (en_by_peer e),
                en_by_id := AList.update sid slot_id (en_by_id e)\<rparr>
      in (slot_id, tell (SessionCreated (hs_public session)) (mark_dirty e)))"

text \<open>A payload for the control tasks that comes with a new session.\<close>

definition tell_payload :: "nat \<Rightarrow> bytes \<Rightarrow> engine \<Rightarrow> engine" where
  "tell_payload slot_id payload e =
     (case slab_get (en_sessions e) slot_id of
        None \<Rightarrow> e
      | Some s \<Rightarrow> tell (ControlPayload (hs_peer s) (hs_id s) payload) e)"

section \<open>Datagrams\<close>

text \<open>The first credential that opens the datagram to a configuration request.\<close>

fun find_credential ::
  "bytes \<Rightarrow> (str \<times> crypto) list \<Rightarrow> (str \<times> crypto \<times> decoded_packet \<times> str \<times> u64 \<times> str) option" where
  "find_credential wire [] = None"
| "find_credential wire ((password, key) # rest) =
     (case unwrap_legacy_in_place key None wire of
        Inl _ \<Rightarrow> find_credential wire rest
      | Inr d \<Rightarrow>
          (case parse_getconf_epoch (dp_payload d) of
             None \<Rightarrow> find_credential wire rest
           | Some (device_id, generation_id, session_salt) \<Rightarrow>
               Some (password, key, d, device_id, generation_id, session_salt)))"

definition handle_unknown_legacy ::
  "engine_env \<Rightarrow> peer \<Rightarrow> ip_addr option \<Rightarrow> bytes \<Rightarrow> engine \<Rightarrow> engine" where
  "handle_unknown_legacy env p local_ip wire e0 =
     (if MAX_ACTIVE_SESSIONS \<le> length (slab_entries (en_sessions e0))
         \<or> SERVER_PACKET_CAPACITY < length wire \<or> en_setup_budget e0 = 0 then e0
      else let e = e0\<lparr>en_setup_budget := en_setup_budget e0 - 1\<rparr> in
        case find_credential wire (en_credentials e) of
          None \<Rightarrow>
            if 30 \<le> length wire
            then e\<lparr>en_sink := snd (send_udp p local_ip (ascii ''DENIED:wrong_password'') (en_sink e))\<rparr>
            else e
        | Some (password, key, d, device_id, generation_id, session_salt) \<Rightarrow>
            (case create_legacy_session env p local_ip password key (dp_payload_type d) (dp_is_srtp d)
               device_id generation_id session_salt (dp_seq d) e of
               (slot_id, e) \<Rightarrow> tell_payload slot_id (dp_payload d) e))"

text \<open>\<open>self.sessions[slot]\<close> panics at an empty key.\<close>

definition with_session :: "nat \<Rightarrow> (hot_session \<Rightarrow> engine) \<Rightarrow> engine \<Rightarrow> engine" where
  "with_session slot_id f e =
     (case slab_get (en_sessions e) slot_id of None \<Rightarrow> e\<lparr>en_panicked := True\<rparr> | Some s \<Rightarrow> f s)"

definition send_to :: "engine_env \<Rightarrow> nat \<Rightarrow> bytes \<Rightarrow> engine \<Rightarrow> engine" where
  "send_to env slot_id payload e =
     with_session slot_id (\<lambda>s.
       case send_plain env payload s (en_sink e) of
         (_, s', sink) \<Rightarrow> put_session slot_id s' (e\<lparr>en_sink := sink\<rparr>)) e"

definition write_up :: "engine_env \<Rightarrow> nat \<Rightarrow> hot_session \<Rightarrow> bytes \<Rightarrow> engine \<Rightarrow> bool \<times> engine" where
  "write_up env slot_id s payload e =
     (case write_tun_priority (ev_tun env) payload (packet_class_of payload) (en_sink e) of
        (False, sink) \<Rightarrow> (False, e\<lparr>en_sink := sink\<rparr>)
      | (True, sink) \<Rightarrow>
          (True, put_session slot_id
             (s\<lparr>hs_up_total := saturating_add (hs_up_total s) (word_of_nat (length payload))\<rparr>)
             (e\<lparr>en_sink := sink\<rparr>)))"

text \<open>What an accepted payload does. The first result lists what went to the network device, with
  the number of the session it came from.\<close>

definition dispatch_inbound ::
  "engine_env \<Rightarrow> nat \<Rightarrow> hot_session \<Rightarrow> bytes \<Rightarrow> engine \<Rightarrow> (u64 \<times> bytes) list \<times> engine" where
  "dispatch_inbound env slot_id session plain e =
     (if plain = SESSION_LEASE then ([], e)
      else if plain = ascii ''READY'' then ([], send_to env slot_id (ascii ''READY_OK'') e)
      else if is_idle_keepalive plain then ([], e)
      else if is_control_payload plain then
        ([], tell (ControlPayload (hs_peer session) (hs_id session) plain) e)
      else if hs_tunnel_ip session \<noteq> None \<and> hs_registration_id session \<noteq> None then
        (case write_up env slot_id session plain e of
           (written, e) \<Rightarrow> (if written then [(hs_id session, plain)] else [], e))
      else if hs_pending_tunnel session then ([], e)
      else (case try_send_control (IngressBeforeTunnel (hs_peer session) (hs_id session) plain) e of
              (True, e) \<Rightarrow> ([], put_session slot_id (session\<lparr>hs_pending_tunnel := True\<rparr>) e)
            | (False, e) \<Rightarrow> ([], e)))"

text \<open>The replay filter, and the address the session is reached at from now on.\<close>

definition accept_inbound ::
  "engine_env \<Rightarrow> nat \<Rightarrow> hot_session \<Rightarrow> ip_addr option \<Rightarrow> decoded_packet \<Rightarrow> engine \<Rightarrow> (u64 \<times> bytes) list \<times> engine" where
  "accept_inbound env slot_id session local_ip d e =
     (case replay_accept (dp_seq d) (hs_replay session) of
        (False, replay) \<Rightarrow> ([], put_session slot_id (session\<lparr>hs_replay := replay\<rparr>) e)
      | (True, replay) \<Rightarrow>
          let session = session\<lparr>hs_replay := replay, hs_last_inbound_ms := en_monotonic_ms e\<rparr> in
          if local_ip \<noteq> None \<and> hs_local_ip session \<noteq> local_ip then
            (let moved = session\<lparr>hs_local_ip := local_ip\<rparr>;
                 e = put_session slot_id moved (e\<lparr>en_by_peer := AList.update (session_key moved) slot_id
                   (AList.delete (session_key session) (en_by_peer e))\<rparr>)
             in dispatch_inbound env slot_id moved (dp_payload d) e)
          else dispatch_inbound env slot_id session (dp_payload d) (put_session slot_id session e))"

definition touch_epoch :: "str \<Rightarrow> engine \<Rightarrow> engine" where
  "touch_epoch device_id e =
     (case map_of (en_epochs e) device_id of
        None \<Rightarrow> e
      | Some epoch \<Rightarrow>
          e\<lparr>en_epochs := AList.update device_id (epoch\<lparr>epv_last_seen_ms := en_monotonic_ms e\<rparr>) (en_epochs e)\<rparr>)"

definition replace_session ::
  "engine_env \<Rightarrow> nat \<Rightarrow> hot_session \<Rightarrow> ip_addr option \<Rightarrow> decoded_packet \<Rightarrow> str \<Rightarrow> u64 \<Rightarrow> str \<Rightarrow> engine \<Rightarrow> engine" where
  "replace_session env slot_id session local_ip d device_id generation_id session_salt e =
     (case create_legacy_session env (hs_peer session)
        (if local_ip \<noteq> None then local_ip else hs_local_ip session) (hs_password session)
        (hs_crypto session) (dp_payload_type d) (dp_is_srtp d) device_id generation_id session_salt
        (dp_seq d) (remove_slot_with_reason slot_id ''epoch-replaced'' e) of
        (new_slot, e) \<Rightarrow> tell_payload new_slot (dp_payload d) e)"

definition handle_existing ::
  "engine_env \<Rightarrow> nat \<Rightarrow> ip_addr option \<Rightarrow> bytes \<Rightarrow> engine \<Rightarrow> (u64 \<times> bytes) list \<times> engine" where
  "handle_existing env slot_id local_ip wire e =
     (case slab_get (en_sessions e) slot_id of
        None \<Rightarrow> ([], e)
      | Some session \<Rightarrow>
          (case unwrap_legacy_in_place (hs_crypto session) (Some (hs_is_srtp session)) wire of
             Inl _ \<Rightarrow> ([], e)
           | Inr d \<Rightarrow>
               if starts_with (dp_payload d) (ascii ''GETCONF:'') then
                 (case parse_getconf_epoch (dp_payload d) of
                    None \<Rightarrow> ([], e)
                  | Some (device_id, generation_id, session_salt) \<Rightarrow>
                      let e = touch_epoch device_id e in
                      (case getconf_reconnect_action_hot (map_of (en_epochs e) device_id)
                         (hs_device_id session) (hs_generation_id session) (hs_session_salt session)
                         device_id generation_id session_salt of
                         Reject \<Rightarrow> ([], e)
                       | Replace \<Rightarrow>
                           ([], replace_session env slot_id session local_ip d device_id generation_id
                                  session_salt e)
                       | Process \<Rightarrow> accept_inbound env slot_id session local_ip d e))
               else accept_inbound env slot_id session local_ip d e))"

definition on_udp ::
  "engine_env \<Rightarrow> peer \<Rightarrow> ip_addr option \<Rightarrow> bytes \<Rightarrow> engine \<Rightarrow> (u64 \<times> bytes) list \<times> engine" where
  "on_udp env p local_ip wire e =
     (case map_of (en_by_peer e) (p, local_ip) of
        Some slot_id \<Rightarrow> handle_existing env slot_id local_ip wire e
      | None \<Rightarrow>
          (case (if local_ip \<noteq> None then map_of (en_by_peer e) (p, None) else None) of
             Some slot_id \<Rightarrow> handle_existing env slot_id local_ip wire e
           | None \<Rightarrow> ([], handle_unknown_legacy env p local_ip wire e)))"

section \<open>Tunnels\<close>

definition activate_tunnel :: "u64 \<Rightarrow> bytes \<Rightarrow> u64 \<Rightarrow> u16 \<Rightarrow> u16 \<Rightarrow> engine \<Rightarrow> bool \<times> engine" where
  "activate_tunnel session_id ip registration_id worker_id desired_count e =
     (case map_of (en_by_id e) session_id of
        None \<Rightarrow> (False, e)
      | Some slot_id \<Rightarrow>
          (case slab_get (en_sessions e) slot_id of
             None \<Rightarrow> (False, e\<lparr>en_panicked := True\<rparr>)
           | Some session \<Rightarrow>
               let (old_ip, routes) =
                     (case (hs_tunnel_ip session, hs_registration_id session) of
                        (Some previous_ip, Some old_registration) \<Rightarrow>
                          (Some previous_ip,
                           snd (table_unregister (en_prefix e) previous_ip old_registration (en_routes e)))
                      | _ \<Rightarrow> (None, en_routes e));
                   (activated, routes) =
                     table_register (en_prefix e) ip session_id registration_id worker_id slot_id routes;
                   e = e\<lparr>en_routes := routes\<rparr>;
                   e = (if activated then mark_dirty (put_session slot_id
                          (session\<lparr>hs_tunnel_ip := Some ip, hs_registration_id := Some registration_id,
                             hs_desired_stream_count := desired_count, hs_pending_tunnel := False,
                             hs_public := (hs_public session)\<lparr>pub_tunnel_ip := Some ip,
                               pub_desired_stream_count := ucast desired_count,
                               pub_has_tunnel := True\<rparr>\<rparr>) e)
                        else e);
                   e = (case old_ip of None \<Rightarrow> e | Some ip \<Rightarrow> sync_downlink_profile ip e)
               in (activated, if activated then sync_downlink_profile ip e else e)))"

definition remove_tunnel :: "u64 \<Rightarrow> engine \<Rightarrow> engine" where
  "remove_tunnel session_id e =
     (case map_of (en_by_id e) session_id of
        None \<Rightarrow> e
      | Some slot_id \<Rightarrow>
          with_session slot_id (\<lambda>session.
            let routes = (case (hs_tunnel_ip session, hs_registration_id session) of
                   (Some ip, Some registration_id) \<Rightarrow>
                     snd (table_unregister (en_prefix e) ip registration_id (en_routes e))
                 | _ \<Rightarrow> en_routes e);
                e = put_session slot_id
                  (session\<lparr>hs_tunnel_ip := None, hs_registration_id := None, hs_pending_tunnel := False,
                     hs_public := (hs_public session)\<lparr>pub_tunnel_ip := None, pub_has_tunnel := False\<rparr>\<rparr>)
                  (e\<lparr>en_routes := routes\<rparr>)
            in mark_dirty (case hs_tunnel_ip session of None \<Rightarrow> e | Some ip \<Rightarrow> sync_downlink_profile ip e)) e)"

definition update_epoch :: "u64 \<Rightarrow> str \<Rightarrow> u64 \<Rightarrow> str \<Rightarrow> engine \<Rightarrow> engine" where
  "update_epoch session_id device_id generation_id session_salt e =
     (case map_of (en_by_id e) session_id of
        None \<Rightarrow> e
      | Some slot_id \<Rightarrow>
          with_session slot_id (\<lambda>session.
            let identity_changed = (hs_device_id session \<noteq> device_id
                  \<or> hs_generation_id session \<noteq> generation_id \<or> hs_session_salt session \<noteq> session_salt);
                replaced_ip = (if identity_changed then hs_tunnel_ip session else None);
                e = put_session slot_id
                  (session\<lparr>hs_device_id := device_id, hs_generation_id := generation_id,
                     hs_session_salt := session_salt,
                     hs_public := (hs_public session)\<lparr>pub_device_id := device_id,
                       pub_generation_id := generation_id, pub_session_salt := session_salt\<rparr>\<rparr>) e
            in mark_dirty (case replaced_ip of
                   None \<Rightarrow> e
                 | Some ip \<Rightarrow>
                     (case tunnel_key (en_prefix e) ip of
                        None \<Rightarrow> e
                      | Some key \<Rightarrow> e\<lparr>en_downlink := dq_clear key (en_downlink e)\<rparr>))) e)"

section \<open>The way down\<close>

text \<open>\<open>Sent\<close> carries the number of the session the packet went to.\<close>

datatype downlink_send = Sent u64 | Stale | Backpressured

definition send_down_endpoint ::
  "engine_env \<Rightarrow> route_endpoint \<Rightarrow> bytes \<Rightarrow> packet_class \<Rightarrow> engine \<Rightarrow> downlink_send \<times> engine" where
  "send_down_endpoint env endpoint packet cls e =
     (case slab_get (en_sessions e) (ep_slot endpoint) of
        None \<Rightarrow> (Stale, e)
      | Some session \<Rightarrow>
          if hs_id session \<noteq> ep_session_id endpoint
             \<or> hs_registration_id session \<noteq> Some (ep_registration_id endpoint) then (Stale, e)
          else (case send_plain_mode env cls packet session (en_sink e) of
                  (sent, session, sink) \<Rightarrow>
                    if sent then
                      (Sent (hs_id session), put_session (ep_slot endpoint)
                         (session\<lparr>hs_down_total := saturating_add (hs_down_total session)
                            (word_of_nat (length packet))\<rparr>) (e\<lparr>en_sink := sink\<rparr>))
                    else (Backpressured, put_session (ep_slot endpoint) session (e\<lparr>en_sink := sink\<rparr>))))"

fun send_window ::
  "engine_env \<Rightarrow> nat \<Rightarrow> bytes \<Rightarrow> packet_class \<Rightarrow> route_selection \<Rightarrow> nat list \<Rightarrow> engine \<Rightarrow> downlink_send \<times> engine" where
  "send_window env key packet cls selection [] e = (Stale, e)"
| "send_window env key packet cls selection (off # offs) e =
     (case table_endpoint_at key selection off (en_routes e) of
        None \<Rightarrow> (Stale, e)
      | Some endpoint \<Rightarrow>
          (case send_down_endpoint env endpoint packet cls e of
             (Stale, e) \<Rightarrow> send_window env key packet cls selection offs e
           | (result, e) \<Rightarrow> (result, e)))"

definition send_down_key ::
  "engine_env \<Rightarrow> nat \<Rightarrow> bytes \<Rightarrow> packet_class \<Rightarrow> engine \<Rightarrow> downlink_send \<times> engine" where
  "send_down_key env key packet cls e =
     (case select_key_window key cls (en_routes e) of
        (None, routes) \<Rightarrow> (Stale, e\<lparr>en_routes := routes\<rparr>)
      | (Some selection, routes) \<Rightarrow>
          send_window env key packet cls selection [0..<sel_len selection] (e\<lparr>en_routes := routes\<rparr>))"

text \<open>One class of the drain: whether the drain ends here, what remains of its allowance, and the
  packets sent with their sessions.\<close>

fun drain_class ::
  "engine_env \<Rightarrow> packet_class \<Rightarrow> nat \<Rightarrow> engine \<Rightarrow> bool \<times> nat \<times> (u64 \<times> bytes) list \<times> engine" where
  "drain_class env cls 0 e = (False, 0, [], e)"
| "drain_class env cls (Suc n) e =
     (if \<not> has_udp_tx_slot (en_sink e) then (True, Suc n, [], e)
      else case dq_dequeue cls (en_downlink e) of
        (None, q) \<Rightarrow> (False, Suc n, [], e\<lparr>en_downlink := q\<rparr>)
      | (Some (key, packet), q) \<Rightarrow>
          (case send_down_key env key (buffer_slice packet) cls (e\<lparr>en_downlink := q\<rparr>) of
             (Backpressured, e) \<Rightarrow>
               (True, Suc n, [], e\<lparr>en_downlink := dq_requeue_front key cls packet (en_downlink e)\<rparr>)
           | (result, e) \<Rightarrow>
               (case drain_class env cls n (e\<lparr>en_downlink := dq_recycle key cls packet (en_downlink e)\<rparr>) of
                  (stop, remaining, sends, e) \<Rightarrow>
                    (stop, remaining,
                     (case result of Sent sid \<Rightarrow> (sid, buffer_slice packet) # sends | _ \<Rightarrow> sends), e))))"

fun drain_classes ::
  "engine_env \<Rightarrow> packet_class list \<Rightarrow> nat \<Rightarrow> engine \<Rightarrow> (u64 \<times> bytes) list \<times> engine" where
  "drain_classes env [] remaining e = ([], e)"
| "drain_classes env (cls # rest) remaining e =
     (case drain_class env cls remaining e of
        (stop, remaining, sends, e) \<Rightarrow>
          if stop then (sends, e)
          else (case drain_classes env rest remaining e of (later, e) \<Rightarrow> (sends @ later, e)))"

definition drain_downlink :: "engine_env \<Rightarrow> engine \<Rightarrow> (u64 \<times> bytes) list \<times> engine" where
  "drain_downlink env e = drain_classes env [Latency, Priority, Bulk] DOWNLINK_DRAIN_PACKET_LIMIT e"

definition handle_tun_packet :: "bytes \<Rightarrow> engine \<Rightarrow> engine" where
  "handle_tun_packet packet e =
     (case packet_key (en_prefix e) packet of
        None \<Rightarrow> e
      | Some key \<Rightarrow>
          e\<lparr>en_downlink := snd (dq_enqueue key (packet_class_of packet) packet (en_downlink e))\<rparr>)"

section \<open>Periodic work\<close>

fun send_stream_control :: "engine_env \<Rightarrow> bytes \<Rightarrow> nat list \<Rightarrow> nat \<Rightarrow> engine \<Rightarrow> nat \<times> engine" where
  "send_stream_control env payload [] sent e = (sent, e)"
| "send_stream_control env payload (slot_id # carriers) sent e =
     (if STREAM_CONTROL_CARRIERS \<le> sent then (sent, e)
      else case slab_get (en_sessions e) slot_id of
        None \<Rightarrow> send_stream_control env payload carriers sent e
      | Some session \<Rightarrow>
          (case send_plain env payload session (en_sink e) of
             (ok, session, sink) \<Rightarrow>
               send_stream_control env payload carriers (if ok then sent + 1 else sent)
                 (put_session slot_id session (e\<lparr>en_sink := sink\<rparr>))))"

definition stream_session_of :: "nat \<times> hot_session \<Rightarrow> stream_session" where
  "stream_session_of x =
     \<lparr>ss_slot = fst x, ss_id = hs_id (snd x),
      ss_identity = \<lparr>sid_device_id = hs_device_id (snd x), sid_generation_id = hs_generation_id (snd x),
                     sid_session_salt = hs_session_salt (snd x)\<rparr>,
      ss_desired_stream_count = hs_desired_stream_count (snd x),
      ss_registered = (hs_registration_id (snd x) \<noteq> None),
      ss_worker_id = unat (pub_worker_id (hs_public (snd x)))\<rparr>"

definition perform_action :: "engine_env \<Rightarrow> stream_action \<Rightarrow> engine \<Rightarrow> engine" where
  "perform_action env action e =
     (case send_stream_control env (sa_payload action) (sa_carriers action) 0 e of
        (sent_carriers, e) \<Rightarrow>
          (case sa_repair action of
             None \<Rightarrow> e
           | Some (ident, desired_count, sequence, missing) \<Rightarrow>
               tell (StreamRepairEvent (sid_device_id ident) (sid_generation_id ident) desired_count
                 sequence missing (length (sa_carriers action)) sent_carriers) e))"

definition engine_reconcile :: "engine_env \<Rightarrow> engine \<Rightarrow> engine" where
  "engine_reconcile env e =
     (case reconcile_streams (en_monotonic_ms e) (map stream_session_of (slab_entries (en_sessions e)))
        (en_streams e) of
        (actions, streams) \<Rightarrow> fold (perform_action env) actions (e\<lparr>en_streams := streams\<rparr>))"

definition sweep_idle_epochs :: "engine \<Rightarrow> engine" where
  "sweep_idle_epochs e =
     (if saturating_sub (en_monotonic_ms e) (en_last_epoch_sweep_ms e) < EPOCH_SWEEP_INTERVAL_MS then e
      else let active = filter (\<lambda>d. d \<noteq> []) (map (hs_device_id \<circ> snd) (slab_entries (en_sessions e)))
           in e\<lparr>en_last_epoch_sweep_ms := en_monotonic_ms e,
                en_epochs := filter (\<lambda>(device_id, epoch). device_id \<in> set active
                  \<or> saturating_sub (en_monotonic_ms e) (epv_last_seen_ms epoch) < EPOCH_IDLE_TTL_MS)
                  (en_epochs e)\<rparr>)"

text \<open>The slab moves a session from an occupied to a vacant key, and its closure repairs the
  indexes and the routes.\<close>

definition rekey :: "nat \<times> nat \<Rightarrow> engine \<Rightarrow> engine" where
  "rekey move e =
     (case (slab_get (en_sessions e) (fst move), slab_get (en_sessions e) (snd move)) of
        (Some session, None) \<Rightarrow>
          e\<lparr>en_sessions := slab_put (snd move) session (slab_remove (fst move) (en_sessions e)),
            en_by_peer := AList.update (session_key session) (snd move) (en_by_peer e),
            en_by_id := AList.update (hs_id session) (snd move) (en_by_id e),
            en_routes := (case (hs_tunnel_ip session, hs_registration_id session) of
                (Some ip, Some registration_id) \<Rightarrow>
                  update_slot (en_prefix e) ip (hs_id session) registration_id (snd move) (en_routes e)
              | _ \<Rightarrow> en_routes e)\<rparr>
      | _ \<Rightarrow> e)"

definition compact_memory :: "engine_env \<Rightarrow> bool \<Rightarrow> engine \<Rightarrow> engine" where
  "compact_memory env force e =
     (if \<not> force \<and> (ev_capacity env \<le> HOT_TABLE_RESERVE
                     \<or> ev_capacity env < length (slab_entries (en_sessions e)) * 2)
      then e\<lparr>en_compact_pending := False\<rparr>
      else (fold rekey (ev_moves env) (mark_dirty e))
        \<lparr>en_compact_pending := False, en_last_compact_ms := en_monotonic_ms e\<rparr>)"

definition session_idle :: "u64 \<Rightarrow> hot_session \<Rightarrow> bool" where
  "session_idle monotonic_ms s \<longleftrightarrow>
     (let idle_ms = saturating_sub monotonic_ms (hs_last_inbound_ms s) in
      hs_registration_id s = None \<and> SESSION_SETUP_IDLE_MS \<le> idle_ms
      \<or> hs_registration_id s \<noteq> None \<and> SESSION_AUTH_IDLE_MS \<le> idle_ms)"

definition hot_session_idle_reason :: "bool \<Rightarrow> string" where
  "hot_session_idle_reason is_authenticated =
     (if is_authenticated then ''authenticated-idle-10h'' else ''setup-idle-15s'')"

definition publish_slot :: "nat \<Rightarrow> engine \<Rightarrow> engine" where
  "publish_slot slot_id e =
     (case slab_get (en_sessions e) slot_id of
        None \<Rightarrow> e
      | Some s \<Rightarrow>
          (case publish_counters (en_wall_now e) s (en_global e) of
             (s, globals) \<Rightarrow> put_session slot_id s (e\<lparr>en_global := globals\<rparr>)))"

definition remove_idle :: "nat \<Rightarrow> engine \<Rightarrow> engine" where
  "remove_idle slot_id e =
     remove_slot_with_reason slot_id (hot_session_idle_reason
       (case slab_get (en_sessions e) slot_id of None \<Rightarrow> False | Some s \<Rightarrow> hs_registration_id s \<noteq> None)) e"

definition maintain_sessions :: "engine \<Rightarrow> engine" where
  "maintain_sessions e0 =
     (if saturating_sub (en_monotonic_ms e0) (en_last_maintenance_ms e0) < SESSION_MAINTENANCE_INTERVAL_MS
      then e0
      else let e = e0\<lparr>en_last_maintenance_ms := en_monotonic_ms e0\<rparr>;
               e = fold publish_slot (map fst (slab_entries (en_sessions e))) e
           in fold remove_idle
                (rev (map fst (filter (\<lambda>(_, s). session_idle (en_monotonic_ms e) s)
                   (slab_entries (en_sessions e))))) e)"

definition on_tick :: "engine_env \<Rightarrow> u64 \<Rightarrow> u64 \<Rightarrow> engine \<Rightarrow> engine" where
  "on_tick env elapsed_ms wall_now e =
     (let e = e\<lparr>en_monotonic_ms := elapsed_ms + 1, en_wall_now := wall_now,
                en_setup_budget := SETUP_BUDGET_PER_TICK\<rparr>;
          e = sweep_idle_epochs (engine_reconcile env (maintain_sessions e))
      in if en_compact_pending e
            \<and> MEMORY_COMPACT_INTERVAL_MS \<le> saturating_sub (en_monotonic_ms e) (en_last_compact_ms e)
         then compact_memory env False e else e)"

section \<open>Commands\<close>

fun on_command :: "engine_env \<Rightarrow> protocol_command \<Rightarrow> engine \<Rightarrow> (u64 \<times> bytes) list \<times> engine" where
  "on_command env (SendPlain session_id payload) e =
     ([], case map_of (en_by_id e) session_id of
            None \<Rightarrow> e | Some slot_id \<Rightarrow> send_to env slot_id payload e)"
| "on_command env (BroadcastPlain payload) e =
     ([], fold (\<lambda>slot_id. send_to env slot_id payload) (map fst (slab_entries (en_sessions e))) e)"
| "on_command env (ActivateTunnel session_id ip registration_id worker_id desired_count) e =
     ([], snd (activate_tunnel session_id ip registration_id worker_id desired_count e))"
| "on_command env (DeactivateTunnel session_id) e = ([], remove_tunnel session_id e)"
| "on_command env (InjectTun session_id payload) e =
     (case map_of (en_by_id e) session_id of
        None \<Rightarrow> ([], e)
      | Some slot_id \<Rightarrow>
          (case slab_get (en_sessions e) slot_id of
             None \<Rightarrow>
               (case write_tun_priority (ev_tun env) payload (packet_class_of payload) (en_sink e) of
                  (written, sink) \<Rightarrow> ([], e\<lparr>en_sink := sink, en_panicked := en_panicked e \<or> written\<rparr>))
           | Some s \<Rightarrow>
               (case write_up env slot_id s payload e of
                  (written, e) \<Rightarrow> (if written then [(hs_id s, payload)] else [], e))))"
| "on_command env (UpdateEpoch session_id device_id generation_id session_salt) e =
     ([], update_epoch session_id device_id generation_id session_salt e)"
| "on_command env (SetAuthoritativeEpoch device_id generation_id session_salt) e =
     ([], let e = remove_sessions (\<lambda>s. session_is_retired_by_epoch (hs_device_id s) (hs_generation_id s)
                (hs_session_salt s) device_id generation_id session_salt) ''authoritative-epoch-replaced'' e
          in e\<lparr>en_epochs := AList.update device_id
                \<lparr>epv_generation_id = generation_id, epv_session_salt = session_salt,
                 epv_last_seen_ms = en_monotonic_ms e\<rparr> (en_epochs e)\<rparr>)"
| "on_command env (DisconnectDevice device_id requester_session_id) e =
     ([], let e = (case map_of (en_by_id e) requester_session_id of
                     None \<Rightarrow> e | Some slot_id \<Rightarrow> send_to env slot_id (ascii ''OK:disconnected'') e)
          in remove_sessions (\<lambda>s. session_is_disconnected_device (hs_id s) (hs_device_id s)
               requester_session_id device_id) ''device-disconnect'' e)"
| "on_command env (ReplaceCredentials credentials) e =
     ([], (remove_sessions (\<lambda>s. hs_password s \<notin> fst ` set credentials) ''credential-removed'' e)
            \<lparr>en_credentials := credentials\<rparr>)"
| "on_command env (DropSession session_id) e =
     ([], case map_of (en_by_id e) session_id of
            None \<Rightarrow> e
          | Some slot_id \<Rightarrow> remove_slot_with_reason slot_id ''requested-session-drop'' e)"
| "on_command env (DropPassword password) e =
     ([], remove_sessions (\<lambda>s. hs_password s = password) ''credential-removed'' e)"
| "on_command env CompactMemory e = ([], compact_memory env True e)"

section \<open>Runs\<close>

text \<open>One step of the server: a handler of the engine, or what happens between two handlers: the
  control tasks take events or write into the public part of a session, and the dataplane flushes
  the sink.\<close>

datatype engine_event =
    Udp peer "ip_addr option" bytes
  | Tun bytes
  | TunBatchEnd
  | Command protocol_command
  | Tick u64 u64
  | ControlTaken nat
  | SharedWrite u64 "public_session"
  | FlushUdp "udp_result list" nat
  | FlushTun "tun_write list"

definition shared_write :: "u64 \<Rightarrow> public_session \<Rightarrow> engine \<Rightarrow> engine" where
  "shared_write session_id p e =
     (case map_of (en_by_id e) session_id of
        None \<Rightarrow> e
      | Some slot_id \<Rightarrow> with_session slot_id (\<lambda>s. put_session slot_id (s\<lparr>hs_public := p\<rparr>) e) e)"

text \<open>The packets handed down to sessions and those written up to the network device.\<close>

datatype traffic = Down u64 bytes | Up u64 bytes

fun engine_step :: "engine_env \<Rightarrow> engine_event \<Rightarrow> engine \<Rightarrow> traffic list \<times> engine" where
  "engine_step env (Udp p local_ip wire) e = map_prod (map (case_prod Up)) id (on_udp env p local_ip wire e)"
| "engine_step env (Tun packet) e = ([], handle_tun_packet packet e)"
| "engine_step env TunBatchEnd e = map_prod (map (case_prod Down)) id (drain_downlink env e)"
| "engine_step env (Command c) e = map_prod (map (case_prod Up)) id (on_command env c e)"
| "engine_step env (Tick elapsed_ms wall_now) e = ([], on_tick env elapsed_ms wall_now e)"
| "engine_step env (ControlTaken n) e = ([], e\<lparr>en_control := drop n (en_control e)\<rparr>)"
| "engine_step env (SharedWrite session_id p) e = ([], shared_write session_id p e)"
| "engine_step env (FlushUdp io n) e = ([], e\<lparr>en_sink := snd (flush_udp_tx io n (en_sink e))\<rparr>)"
| "engine_step env (FlushTun io) e = ([], e\<lparr>en_sink := snd (flush_tun_tx io (en_sink e))\<rparr>)"

end
