(* ===== verification/Server_Routes.thy ===== *)
theory Server_Routes
  imports Server_Engine
begin

text \<open>
  What the server's engine relies on between its tables: every route leads to a live session with
  the tunnel address of its group, a lane of the downlink queue is as wide as its group of routes
  and holds only packets for its client, and the replay filter of a session stays well formed.
\<close>

section \<open>The endpoints of a group\<close>

definition endpoints_at :: "nat \<Rightarrow> route_table \<Rightarrow> route_endpoint list" where
  "endpoints_at k t = (case group_at k t of None \<Rightarrow> [] | Some g \<Rightarrow> rg_endpoints g)"

lemma active_path_count_endpoints: "active_path_count k t = length (endpoints_at k t)"
  by (simp add: active_path_count_def endpoints_at_def split: option.splits)

lemma endpoints_at_update:
  assumes "table_ok t" and "i < 256"
  shows "endpoints_at k (t[i := x]) = (if k = i then (case x of None \<Rightarrow> [] | Some g \<Rightarrow> rg_endpoints g) else endpoints_at k t)"
  using assms by (auto simp: endpoints_at_def group_at_def get_at_def table_ok_def)

lemma endpoints_at_index:
  assumes "table_ok t" and "route_index net ip = Some i"
  shows "endpoints_at i t = (case t ! i of None \<Rightarrow> [] | Some g \<Rightarrow> rg_endpoints g)"
  using group_at_index [OF assms] by (simp add: endpoints_at_def)

lemma endpoints_unregister:
  assumes ok: "table_ok t"
  shows "endpoints_at k (snd (table_unregister net ip r t)) =
    (if route_index net ip = Some k then filter (\<lambda>ep. ep_registration_id ep \<noteq> r) (endpoints_at k t)
     else endpoints_at k t)"
proof (cases "route_index net ip")
  case None
  then show ?thesis by (simp add: table_unregister_def)
next
  case (Some i)
  note i = route_index_bound [OF Some] and e = endpoints_at_index [OF ok Some]
  show ?thesis
    using Some i e endpoints_at_update [OF ok i]
    by (cases "t ! i") (auto simp: table_unregister_def group_unregister_def Let_def)
qed

lemma endpoints_register:
  assumes ok: "table_ok t" and i: "route_index net ip = Some i"
  shows "set (endpoints_at k (snd (table_register net ip sid r w j t))) \<subseteq>
    (if k = i then insert \<lparr>ep_session_id = sid, ep_registration_id = r, ep_worker_id = w, ep_slot = j\<rparr>
       (set (endpoints_at k t)) else set (endpoints_at k t))"
  using i endpoints_at_index [OF ok i] endpoints_at_update [OF ok route_index_bound [OF i]]
  by (cases "t ! i") (auto simp: table_register_def group_register_def group_default_def)

lemma endpoints_register_none:
  "route_index net ip = None \<Longrightarrow> table_register net ip sid r w j t = (False, t)"
  "route_index net ip = Some i \<Longrightarrow> fst (table_register net ip sid r w j t)"
  by (simp_all add: table_register_def)

lemma endpoints_update_slot:
  assumes ok: "table_ok t"
  shows "endpoints_at k (update_slot net ip sid r j t) =
    (if route_index net ip = Some k
     then update_first (\<lambda>ep. ep_session_id ep = sid \<and> ep_registration_id ep = r) (\<lambda>ep. ep\<lparr>ep_slot := j\<rparr>)
       (endpoints_at k t)
     else endpoints_at k t)"
proof (cases "route_index net ip")
  case None
  then show ?thesis by (simp add: update_slot_def)
next
  case (Some i)
  note i = route_index_bound [OF Some] and e = endpoints_at_index [OF ok Some]
  show ?thesis
    using Some i e endpoints_at_update [OF ok i] by (cases "t ! i") (auto simp: update_slot_def)
qed

lemma endpoints_select:
  assumes ok: "table_ok t" and s: "select_key_window key cls t = (sel, t')"
  shows "endpoints_at k t' = endpoints_at k t"
proof (cases "group_at key t")
  case None
  then show ?thesis using s by (simp add: select_key_window_def)
next
  case (Some g)
  obtain w g' where w: "select_window cls g = (w, g')" by (cases "select_window cls g")
  have "t' = t[key := Some g']" using s Some w by (simp add: select_key_window_def)
  then show ?thesis
    using endpoints_at_update [OF ok group_at_ok(4) [OF ok Some], of k "Some g'"] Some
      select_window_endpoints(1) [OF group_at_ok(3) [OF ok Some] w]
    by (auto simp: endpoints_at_def)
qed

lemma endpoints_group_ok: "table_ok t \<Longrightarrow> distinct (map ep_registration_id (endpoints_at k t))"
  using group_at_ok(2) [of t k] by (auto simp: endpoints_at_def group_ok_def split: option.splits)

section \<open>Routes\<close>

text \<open>The endpoint names a session that is live in its slot, holds the registration, and has a
  tunnel address of the group.\<close>

definition endpoint_live :: "bytes \<Rightarrow> slab \<Rightarrow> nat \<Rightarrow> route_endpoint \<Rightarrow> bool" where
  "endpoint_live net ss k ep \<longleftrightarrow>
     (\<exists>s ip. slab_get ss (ep_slot ep) = Some s \<and> hs_id s = ep_session_id ep
        \<and> hs_registration_id s = Some (ep_registration_id ep) \<and> hs_tunnel_ip s = Some ip
        \<and> route_index net ip = Some k)"

definition routes_ok :: "bytes \<Rightarrow> slab \<Rightarrow> route_table \<Rightarrow> bool" where
  "routes_ok net ss t \<longleftrightarrow> table_ok t \<and> (\<forall>k. \<forall>ep \<in> set (endpoints_at k t). endpoint_live net ss k ep)"

lemma routes_okD: "routes_ok net ss t \<Longrightarrow> ep \<in> set (endpoints_at k t) \<Longrightarrow> endpoint_live net ss k ep"
  by (simp add: routes_ok_def)

lemma routes_ok_table: "routes_ok net ss t \<Longrightarrow> table_ok t"
  by (simp add: routes_ok_def)

lemma routes_okI:
  assumes "table_ok t" and "\<And>k ep. ep \<in> set (endpoints_at k t) \<Longrightarrow> endpoint_live net ss k ep"
  shows "routes_ok net ss t"
  using assms by (simp add: routes_ok_def)

lemma endpoint_live_put:
  assumes "endpoint_live net ss k ep" and "slab_get ss i = Some s" and "hs_id t = hs_id s"
    and "hs_registration_id t = hs_registration_id s" and "hs_tunnel_ip t = hs_tunnel_ip s"
  shows "endpoint_live net (slab_put i t ss) k ep"
  using assms by (cases "ep_slot ep = i") (auto simp: endpoint_live_def)

lemma endpoint_live_fresh:
  "endpoint_live net ss k ep \<Longrightarrow> slab_get ss i = None \<Longrightarrow> endpoint_live net (slab_put i t ss) k ep"
  by (cases "ep_slot ep = i") (auto simp: endpoint_live_def)

definition unrouted :: "bytes \<Rightarrow> hot_session \<Rightarrow> route_table \<Rightarrow> route_table" where
  "unrouted net s t =
     (case (hs_tunnel_ip s, hs_registration_id s) of
        (Some ip, Some r) \<Rightarrow> snd (table_unregister net ip r t) | _ \<Rightarrow> t)"

lemma unrouted_endpoints:
  assumes ok: "routes_ok net ss t" and s: "slab_get ss i = Some s"
    and ep: "ep \<in> set (endpoints_at k (unrouted net s t))"
  shows "endpoint_live net ss k ep" and "ep_slot ep \<noteq> i"
proof -
  have t: "table_ok t" by (rule routes_ok_table [OF ok])
  have in_t: "ep \<in> set (endpoints_at k t)"
    using ep endpoints_unregister [OF t]
    by (auto simp: unrouted_def split: option.splits if_splits)
  then show live: "endpoint_live net ss k ep" by (rule routes_okD [OF ok])
  show "ep_slot ep \<noteq> i"
  proof
    assume "ep_slot ep = i"
    then obtain ip where "hs_registration_id s = Some (ep_registration_id ep)" "hs_tunnel_ip s = Some ip"
      "route_index net ip = Some k" using live s by (auto simp: endpoint_live_def)
    then show False using ep endpoints_unregister [OF t] by (simp add: unrouted_def)
  qed
qed

lemma unrouted_table: "table_ok t \<Longrightarrow> table_ok (unrouted net s t)"
  using table_unregister_ok by (auto simp: unrouted_def split: option.splits)

lemma endpoint_live_cong:
  "endpoint_live net ss k ep \<Longrightarrow> slab_get ss' (ep_slot ep) = slab_get ss (ep_slot ep) \<Longrightarrow> endpoint_live net ss' k ep"
  by (simp add: endpoint_live_def)

lemma unrouted_put:
  assumes ok: "routes_ok net ss t" and s: "slab_get ss i = Some s"
    and same: "\<And>j. j \<noteq> i \<Longrightarrow> slab_get ss' j = slab_get ss j"
  shows "routes_ok net ss' (unrouted net s t)"
proof (rule routes_okI)
  fix k ep
  assume "ep \<in> set (endpoints_at k (unrouted net s t))"
  then show "endpoint_live net ss' k ep"
    using endpoint_live_cong unrouted_endpoints [OF ok s] same by blast
qed (rule unrouted_table [OF routes_ok_table [OF ok]])

lemma routes_ok_register:
  assumes ok: "routes_ok net ss t" and c: "slab_get ss j = Some c" and "hs_id c = sid"
    and "hs_registration_id c = Some r" and "hs_tunnel_ip c = Some ip"
  shows "routes_ok net ss (snd (table_register net ip sid r w j t))"
proof (cases "route_index net ip")
  case None
  then show ?thesis using ok by (simp add: endpoints_register_none)
next
  case (Some i)
  note t = routes_ok_table [OF ok]
  show ?thesis
  proof (rule routes_okI)
    show "table_ok (snd (table_register net ip sid r w j t))" by (rule table_register_ok [OF t])
    fix k ep
    assume "ep \<in> set (endpoints_at k (snd (table_register net ip sid r w j t)))"
    then consider "ep \<in> set (endpoints_at k t)"
      | "k = i" "ep = \<lparr>ep_session_id = sid, ep_registration_id = r, ep_worker_id = w, ep_slot = j\<rparr>"
      using endpoints_register [OF t Some, of k sid r w j] by (auto split: if_splits)
    then show "endpoint_live net ss k ep"
    proof cases
      case 1
      then show ?thesis by (rule routes_okD [OF ok])
    next
      case 2
      then show ?thesis using assms(2-) Some by (simp add: endpoint_live_def)
    qed
  qed
qed

lemma update_first_cases:
  assumes "distinct (map ep_registration_id xs)"
    and "y \<in> set (update_first (\<lambda>ep. ep_session_id ep = sid \<and> ep_registration_id ep = r) f xs)"
  shows "(\<exists>x \<in> set xs. ep_session_id x = sid \<and> ep_registration_id x = r \<and> y = f x)
    \<or> y \<in> set xs \<and> \<not> (ep_session_id y = sid \<and> ep_registration_id y = r)"
  using assms
proof (induction xs)
  case (Cons a xs)
  show ?case
  proof (cases "ep_session_id a = sid \<and> ep_registration_id a = r")
    case True
    then have "y = f a \<or> y \<in> set xs" using Cons.prems(2) by simp
    moreover have "ep_registration_id y \<noteq> r" if "y \<in> set xs" using imageI [OF that, of ep_registration_id] True Cons.prems(1) by auto
    ultimately show ?thesis using True by auto
  next
    case False
    then have "y = a \<or> y \<in> set (update_first (\<lambda>ep. ep_session_id ep = sid \<and> ep_registration_id ep = r) f xs)"
      using Cons.prems(2) by auto
    then show ?thesis using False Cons.IH Cons.prems(1) by auto
  qed
qed simp

definition reslotted :: "bytes \<Rightarrow> hot_session \<Rightarrow> nat \<Rightarrow> route_table \<Rightarrow> route_table" where
  "reslotted net s new t =
     (case (hs_tunnel_ip s, hs_registration_id s) of
        (Some ip, Some r) \<Rightarrow> update_slot net ip (hs_id s) r new t | _ \<Rightarrow> t)"

lemma reslotted_table: "table_ok t \<Longrightarrow> table_ok (reslotted net s new t)"
  using update_slot_ok by (auto simp: reslotted_def split: option.splits)

lemma update_first_length: "length (update_first P f xs) = length xs"
  by (induction xs) auto

lemma reslotted_count: "table_ok t \<Longrightarrow> active_path_count k (reslotted net s new t) = active_path_count k t"
  by (auto simp: active_path_count_endpoints reslotted_def endpoints_update_slot update_first_length
    split: option.splits)

lemma reslotted_cases:
  assumes t: "table_ok t" and ep: "ep \<in> set (endpoints_at k (reslotted net s new t))"
  obtains (kept) "ep \<in> set (endpoints_at k t)"
      "\<And>ip. hs_tunnel_ip s = Some ip \<Longrightarrow> route_index net ip = Some k \<Longrightarrow> hs_id s = ep_session_id ep
        \<Longrightarrow> hs_registration_id s \<noteq> Some (ep_registration_id ep)"
  | (moved) x where "x \<in> set (endpoints_at k t)" "ep_session_id x = hs_id s" "ep = x\<lparr>ep_slot := new\<rparr>"
proof (cases "\<exists>ip r. hs_tunnel_ip s = Some ip \<and> hs_registration_id s = Some r \<and> route_index net ip = Some k")
  case True
  then obtain ip r where both: "hs_tunnel_ip s = Some ip" "hs_registration_id s = Some r"
    and k: "route_index net ip = Some k" by blast
  have "ep \<in> set (update_first (\<lambda>ep. ep_session_id ep = hs_id s \<and> ep_registration_id ep = r)
      (\<lambda>ep. ep\<lparr>ep_slot := new\<rparr>) (endpoints_at k t))"
    using ep endpoints_update_slot [OF t, of k net ip "hs_id s" r new] both k by (simp add: reslotted_def)
  from update_first_cases [OF endpoints_group_ok [OF t] this] show ?thesis
    using kept moved both by (metis option.inject)
next
  case False
  then have "ep \<in> set (endpoints_at k t)"
    using ep endpoints_update_slot [OF t] by (auto simp: reslotted_def split: option.splits)
  then show ?thesis using kept False by (cases "hs_registration_id s") auto
qed

lemma routes_ok_move:
  assumes ok: "routes_ok net ss t" and idx: "index_ok hs_id ss idx"
    and s: "slab_get ss old = Some s" and new: "slab_get ss new = None"
  shows "routes_ok net (slab_put new s (slab_remove old ss)) (reslotted net s new t)"
proof (rule routes_okI)
  note t = routes_ok_table [OF ok]
  show "table_ok (reslotted net s new t)" by (rule reslotted_table [OF t])
  fix k ep
  assume "ep \<in> set (endpoints_at k (reslotted net s new t))"
  then show "endpoint_live net (slab_put new s (slab_remove old ss)) k ep"
  proof (rule reslotted_cases [OF t])
    assume kept: "ep \<in> set (endpoints_at k t)"
      and other: "\<And>ip. hs_tunnel_ip s = Some ip \<Longrightarrow> route_index net ip = Some k \<Longrightarrow>
        hs_id s = ep_session_id ep \<Longrightarrow> hs_registration_id s \<noteq> Some (ep_registration_id ep)"
    note live = routes_okD [OF ok kept]
    then have "ep_slot ep \<noteq> old" using other s by (auto simp: endpoint_live_def)
    moreover have "ep_slot ep \<noteq> new" using live new by (auto simp: endpoint_live_def)
    ultimately show ?thesis by (intro endpoint_live_cong [OF live]) simp
  next
    fix x
    assume moved: "x \<in> set (endpoints_at k t)" "ep_session_id x = hs_id s" "ep = x\<lparr>ep_slot := new\<rparr>"
    from routes_okD [OF ok moved(1)] obtain u ip where u: "slab_get ss (ep_slot x) = Some u"
      "hs_id u = ep_session_id x" "hs_registration_id u = Some (ep_registration_id x)"
      "hs_tunnel_ip u = Some ip" "route_index net ip = Some k" unfolding endpoint_live_def by blast
    have "ep_slot x = old" using by_id_index.index_unique [OF idx u(1) s] u(2) moved(2) by simp
    then have "u = s" using u(1) s by simp
    then show ?thesis using u(2-) moved(3) by (simp add: endpoint_live_def)
  qed
qed

section \<open>Lanes\<close>

text \<open>Outside of \<open>K\<close>, a lane is as wide as its group of routes; every queued packet is addressed to
  the client of its lane.\<close>

definition lanes_ok ::
  "(nat \<Rightarrow> packet_class \<Rightarrow> nat) \<Rightarrow> nat set \<Rightarrow> bytes \<Rightarrow> route_table \<Rightarrow> downlink_queue \<Rightarrow> bool" where
  "lanes_ok owed K net t q \<longleftrightarrow> dq_inv owed q
     \<and> (\<forall>k < 256. k \<notin> K \<longrightarrow> la_active_paths (dq_lanes q ! k) = clip_paths (active_path_count k t))
     \<and> (\<forall>k cls. \<forall>p \<in> set (contents q k cls). packet_key net p = Some k \<and> packet_class_of p = cls)"

lemma configure_active:
  assumes inv: "dq_inv owed q" and "k < 256" and "j < 256"
  shows "la_active_paths (dq_lanes (dq_configure k n q) ! j) =
    (if j = k then clip_paths n else la_active_paths (dq_lanes q ! j))"
  using assms dq_inv_lanes [OF inv] get_lane [OF inv]
  by (auto simp: dq_configure_def rebuild_rings_def lane_configure_def Let_def nth_list_update)

lemma lanes_okD:
  assumes "lanes_ok owed K net t q"
  shows "dq_inv owed q" and "p \<in> set (contents q k cls) \<Longrightarrow> packet_key net p = Some k \<and> packet_class_of p = cls"
    and "k < 256 \<Longrightarrow> k \<notin> K \<Longrightarrow> la_active_paths (dq_lanes q ! k) = clip_paths (active_path_count k t)"
  using assms unfolding lanes_ok_def by blast+

lemma lanes_ok_configure:
  assumes ok: "lanes_ok nothing_owed K net t q" and k: "k < 256"
  shows "lanes_ok nothing_owed (K - {k}) net t (dq_configure k (active_path_count k t) q)"
proof -
  note inv = lanes_okD(1) [OF ok]
  have "set (contents (dq_configure k n q) j cls) \<subseteq> set (contents q j cls)" for n j cls
    using configure_contents [OF inv, of k n j cls] by (auto split: if_splits dest: in_set_takeD)
  then have "packet_key net p = Some j \<and> packet_class_of p = cls"
    if "p \<in> set (contents (dq_configure k n q) j cls)" for n j cls p
    using that lanes_okD(2) [OF ok] by blast
  moreover have "la_active_paths (dq_lanes (dq_configure k (active_path_count k t) q) ! j)
      = clip_paths (active_path_count j t)" if "j < 256" "j \<notin> K - {k}" for j
    using that lanes_okD(3) [OF ok that(1)] configure_active [OF inv k that(1)] by (cases "j = k") auto
  ultimately show ?thesis using configure_inv [OF inv refl] unfolding lanes_ok_def by blast
qed

lemma lanes_ok_clear:
  assumes ok: "lanes_ok owed K net t q"
  shows "lanes_ok owed K net t (dq_clear k q)"
proof -
  note inv = lanes_okD(1) [OF ok]
  have "la_active_paths (dq_lanes (dq_clear k q) ! j) = la_active_paths (dq_lanes q ! j)" if "j < 256" for j
    using that dq_inv_lanes [OF inv] get_lane [OF inv, of k]
    by (auto simp: dq_clear_def nth_list_update)
  then show ?thesis
    using ok clear_inv [OF inv, of k] by (auto simp: lanes_ok_def split: if_splits)
qed

lemma lanes_ok_routes:
  assumes "lanes_ok owed K net t q" and "\<And>k. k \<notin> K' \<Longrightarrow> active_path_count k t' = active_path_count k t" and "K \<subseteq> K'"
  shows "lanes_ok owed K' net t' q"
  using assms unfolding lanes_ok_def by auto

lemma unregister_count:
  assumes "table_ok t" and "route_index net ip \<noteq> Some k"
  shows "active_path_count k (snd (table_unregister net ip r t)) = active_path_count k t"
  using assms by (simp add: active_path_count_endpoints endpoints_unregister)

lemma register_count:
  assumes ok: "table_ok t" and k: "route_index net ip \<noteq> Some k"
  shows "active_path_count k (snd (table_register net ip sid r w j t)) = active_path_count k t"
proof (cases "route_index net ip")
  case None
  then show ?thesis by (simp add: endpoints_register_none)
next
  case (Some i)
  then show ?thesis
    using k endpoints_at_update [OF ok route_index_bound [OF Some], of k]
    by (simp add: active_path_count_endpoints table_register_def)
qed

section \<open>Replay filters\<close>

lemma replay_number:
  fixes seq :: u16
  obtains n where "seq = word_of_int n" and "m - 32768 \<le> n" and "n < m + (32768 :: int)"
proof
  let ?n = "m - 32768 + (uint seq - (m - 32768)) mod 65536"
  have "(word_of_int ?n :: u16) = word_of_int (uint seq)"
    by (rule word_of_int_eq_iff [THEN iffD2]) (simp add: take_bit_eq_mod mod_simps)
  then show "seq = word_of_int ?n" unfolding word_of_int_uint by (rule sym)
  show "m - 32768 \<le> ?n" and "?n < m + 32768"
    using pos_mod_bound [of 65536 "uint seq - (m - 32768)"] pos_mod_sign [of 65536 "uint seq - (m - 32768)"]
    by linarith+
qed

lemma replay_accept_keeps:
  assumes rel: "window_rel r seen"
  shows "\<exists>seen'. window_rel (snd (replay_accept seq r)) seen'"
    and "\<not> fst (replay_accept seq (snd (replay_accept seq r)))"
proof -
  obtain n where n: "seq = word_of_int n" "Max seen - 32768 \<le> n" "n < Max seen + 32768"
    by (rule replay_number)
  from replay_step [OF rel n(2,3)] obtain r' ok where r': "replay_accept seq r = (ok, r')"
    and rel': "window_rel r' (insert n seen)" unfolding n(1) by blast
  then show "\<exists>seen'. window_rel (snd (replay_accept seq r)) seen'" by auto
  have "Max (insert n seen) = max n (Max seen)" using window_relD(3,4) [OF rel] by simp
  then have "Max (insert n seen) - 32768 \<le> n" "n < Max (insert n seen) + 32768" using n by auto
  from replay_step [OF rel' this] show "\<not> fst (replay_accept seq (snd (replay_accept seq r)))"
    unfolding r' by (auto simp: n(1))
qed

lemma replay_first_keeps: "\<exists>seen. window_rel (snd (replay_accept seq replay_new)) seen"
proof -
  obtain n where "seq = word_of_int n" by (rule replay_number [of seq 0])
  then show ?thesis using first_accept [of n] by auto
qed

section \<open>Addresses\<close>

lemma route_index_inj:
  assumes "route_index net a = Some k" and "route_index net b = Some k" and "length a = 4" and "length b = 4"
  shows "a = b"
proof -
  have "take 3 a = take 3 b" and n: "unat (a ! 3) = unat (b ! 3)"
    using assms by (auto simp: route_index_def split: if_splits)
  moreover have "a ! 3 = b ! 3" using n by (rule unsigned_word_eqI)
  moreover have "a = take 3 a @ [a ! 3]" "b = take 3 b @ [b ! 3]"
    using assms(3,4) by (simp_all add: take_Suc_conv_app_nth [symmetric])
  ultimately show ?thesis by metis
qed

lemma packet_key_address:
  assumes "packet_key net p = Some k" and "route_index net ip = Some k" and "length ip = 4"
  shows "extract_dst_ipv4 p = Some ip"
proof -
  obtain dst where dst: "extract_dst_ipv4 p = Some dst" "route_index net dst = Some k"
    using assms(1) by (auto simp: packet_key_def split: option.splits)
  then have "length dst = 4" by (auto simp: extract_dst_ipv4_def split: if_splits)
  then show ?thesis using route_index_inj [OF dst(2) assms(2)] assms(3) dst(1) by simp
qed

end
