(* ===== verification/Server_Invariant.thy ===== *)
theory Server_Invariant
  imports Server_Routes
begin

text \<open>
  The invariant of the server's engine and that every handler keeps it: the two hash maps are
  exact indexes of the session table, every session holds a password of the credentials and a
  number below the counter, routes and lanes agree with the sessions, and no handler indexes
  the table at an empty key.
\<close>

section \<open>The invariant\<close>

definition session_ok :: "(str \<times> crypto) list \<Rightarrow> u64 \<Rightarrow> hot_session \<Rightarrow> bool" where
  "session_ok credentials next_id s \<longleftrightarrow>
     hs_id s < next_id \<and> hs_password s \<in> fst ` set credentials
     \<and> (\<forall>ip. hs_tunnel_ip s = Some ip \<longrightarrow> length ip = 4) \<and> (\<exists>seen. window_rel (hs_replay s) seen)"

definition table_inv :: "engine \<Rightarrow> bool" where
  "table_inv e \<longleftrightarrow> index_ok hs_id (en_sessions e) (en_by_id e)
     \<and> index_ok session_key (en_sessions e) (en_by_peer e)
     \<and> (\<forall>i s. slab_get (en_sessions e) i = Some s \<longrightarrow> session_ok (en_credentials e) (en_next_id e) s)"

definition paths_inv :: "(nat \<Rightarrow> packet_class \<Rightarrow> nat) \<Rightarrow> nat set \<Rightarrow> engine \<Rightarrow> bool" where
  "paths_inv owed K e \<longleftrightarrow> routes_ok (en_prefix e) (en_sessions e) (en_routes e)
     \<and> lanes_ok owed K (en_prefix e) (en_routes e) (en_downlink e)"

definition engine_inv :: "(nat \<Rightarrow> packet_class \<Rightarrow> nat) \<Rightarrow> nat set \<Rightarrow> engine \<Rightarrow> bool" where
  "engine_inv owed K e \<longleftrightarrow> table_inv e \<and> paths_inv owed K e \<and> sink_ok (en_sink e) \<and> \<not> en_panicked e"

abbreviation inv :: "engine \<Rightarrow> bool" where
  "inv e \<equiv> engine_inv nothing_owed {} e"

lemmas inv_parts = engine_inv_def table_inv_def paths_inv_def

lemma engine_inv_frame [simp]:
  "engine_inv owed K (e\<lparr>en_epochs := a\<rparr>) = engine_inv owed K e"
  "engine_inv owed K (e\<lparr>en_control := b\<rparr>) = engine_inv owed K e"
  "engine_inv owed K (e\<lparr>en_global := c\<rparr>) = engine_inv owed K e"
  "engine_inv owed K (e\<lparr>en_monotonic_ms := d\<rparr>) = engine_inv owed K e"
  "engine_inv owed K (e\<lparr>en_wall_now := d\<rparr>) = engine_inv owed K e"
  "engine_inv owed K (e\<lparr>en_setup_budget := n\<rparr>) = engine_inv owed K e"
  "engine_inv owed K (e\<lparr>en_compact_pending := p\<rparr>) = engine_inv owed K e"
  "engine_inv owed K (e\<lparr>en_last_compact_ms := d\<rparr>) = engine_inv owed K e"
  "engine_inv owed K (e\<lparr>en_last_maintenance_ms := d\<rparr>) = engine_inv owed K e"
  "engine_inv owed K (e\<lparr>en_streams := st\<rparr>) = engine_inv owed K e"
  "engine_inv owed K (e\<lparr>en_last_epoch_sweep_ms := d\<rparr>) = engine_inv owed K e"
  "engine_inv owed K (e\<lparr>en_closed := cl\<rparr>) = engine_inv owed K e"
  by (simp_all add: inv_parts)

lemma tell_eq: "tell event e = e\<lparr>en_control := (if length (en_control e) < CONTROL_EVENT_CAPACITY
    then en_control e @ [event] else en_control e)\<rparr>"
  by (simp add: tell_def try_send_control_def)

lemma engine_inv_tell [simp]:
  "engine_inv owed K (tell event e) = engine_inv owed K e"
  "engine_inv owed K (mark_dirty e) = engine_inv owed K e"
  by (simp_all add: tell_eq mark_dirty_def)

lemma new_inv: "inv (engine_new net credentials epochs profile wall_now)"
proof -
  have e: "endpoints_at k table_new = []" for k
    by (simp add: endpoints_at_def group_at_def get_at_def table_new_def)
  have l: "dq_lanes downlink_default ! k = lane_default" if "k < 256" for k
    using that by (simp add: downlink_default_def)
  have la: "la_active_paths (dq_lanes downlink_default ! k) = 0" if "k < 256" for k
    using l [OF that] by (simp add: lane_default_def)
  have "contents downlink_default k cls = []" for k cls
    using inactive_lane_empty [OF default_inv _ la] dq_inv_lanes [OF default_inv]
    by (cases "k < 256") (simp_all add: contents_def)
  then have "lanes_ok nothing_owed {} net table_new downlink_default"
    using default_inv la by (simp add: lanes_ok_def active_path_count_endpoints e clip_paths_def)
  moreover have "routes_ok net [] table_new" using table_new_ok by (simp add: routes_ok_def e)
  ultimately show ?thesis
    using sink_new_ok by (simp add: inv_parts engine_new_def index_ok_def)
qed

section \<open>Changing one session\<close>

lemma inv_put:
  assumes inv: "engine_inv owed K e" and s: "slab_get (en_sessions e) i = Some s"
    and "hs_id t = hs_id s" and "session_key t = session_key s"
    and "hs_registration_id t = hs_registration_id s" and "hs_tunnel_ip t = hs_tunnel_ip s"
    and "session_ok (en_credentials e) (en_next_id e) t"
  shows "engine_inv owed K (put_session i t e)"
proof -
  have idx: "index_ok hs_id (en_sessions e) (en_by_id e)" "index_ok session_key (en_sessions e) (en_by_peer e)"
    and r: "routes_ok (en_prefix e) (en_sessions e) (en_routes e)"
    using inv by (simp_all add: inv_parts)
  have "routes_ok (en_prefix e) (slab_put i t (en_sessions e)) (en_routes e)"
    by (rule routes_okI [OF routes_ok_table [OF r]])
      (rule endpoint_live_put [OF routes_okD [OF r] s assms(3,5,6)])
  then show ?thesis
    using inv assms(7) by_id_index.index_same [OF idx(1) s assms(3)] by_peer_index.index_same [OF idx(2) s assms(4)]
    by (simp add: inv_parts put_session_def)
qed

lemma inv_session_ok: "engine_inv owed K e \<Longrightarrow> slab_get (en_sessions e) i = Some s \<Longrightarrow>
    session_ok (en_credentials e) (en_next_id e) s"
  by (simp add: inv_parts)

lemma same_face_ok: "same_face s t \<Longrightarrow> session_ok c n t \<longleftrightarrow> session_ok c n s"
  by (simp add: same_face_def session_ok_def)

lemma inv_put_face:
  assumes inv: "engine_inv owed K e" and s: "slab_get (en_sessions e) i = Some s" and f: "same_face s t"
  shows "engine_inv owed K (put_session i t e)"
  by (rule inv_put [OF inv s])
    (use f inv_session_ok [OF inv s] same_face_ok [OF f] in \<open>simp_all add: same_face_def session_key_def\<close>)

lemma inv_sink: "engine_inv owed K e \<Longrightarrow> sink_ok sink \<Longrightarrow> engine_inv owed K (e\<lparr>en_sink := sink\<rparr>)"
  by (simp add: inv_parts)

lemma inv_sink_ok: "engine_inv owed K e \<Longrightarrow> sink_ok (en_sink e)"
  by (simp add: engine_inv_def)

text \<open>The sessions stay in place with what the tables depend on.\<close>

definition faces_kept :: "engine \<Rightarrow> engine \<Rightarrow> bool" where
  "faces_kept e e' \<longleftrightarrow> (\<forall>i. rel_option same_face (slab_get (en_sessions e) i) (slab_get (en_sessions e') i))"

lemma faces_kept_refl [simp]: "faces_kept e e"
  unfolding faces_kept_def by (simp add: option.rel_refl)

lemma faces_kept_trans:
  assumes "faces_kept a b" and "faces_kept b c"
  shows "faces_kept a c"
proof -
  have "rel_option same_face (slab_get (en_sessions a) i) (slab_get (en_sessions c) i)" for i
    using assms [unfolded faces_kept_def, rule_format, of i] same_face_trans
    by (auto simp: option_rel_Some1 option_rel_Some2 elim!: option.rel_cases)
  then show ?thesis by (simp add: faces_kept_def)
qed

lemma faces_kept_put:
  "slab_get (en_sessions e) i = Some s \<Longrightarrow> same_face s t \<Longrightarrow> en_sessions e' = en_sessions e \<Longrightarrow> faces_kept e (put_session i t e')"
  by (auto simp: faces_kept_def put_session_def option.rel_refl)

lemma faces_keptD:
  assumes "faces_kept e e'" and "slab_get (en_sessions e) i = Some s"
  obtains t where "slab_get (en_sessions e') i = Some t" and "same_face s t"
  using assms(1) [unfolded faces_kept_def, rule_format, of i] assms(2) that by (auto simp: option_rel_Some1)

lemma send_to_inv:
  assumes inv: "engine_inv owed K e" and s: "slab_get (en_sessions e) i = Some s"
  shows "engine_inv owed K (send_to env i payload e)" and "faces_kept e (send_to env i payload e)"
proof -
  obtain ok t sink where p: "send_plain env payload s (en_sink e) = (ok, t, sink)" by (metis prod.exhaust)
  note ok = send_plain_ok [OF p]
  have e: "send_to env i payload e = put_session i t (e\<lparr>en_sink := sink\<rparr>)"
    by (simp add: send_to_def with_session_def s p)
  show "engine_inv owed K (send_to env i payload e)"
    unfolding e by (rule inv_put_face [OF inv_sink [OF inv ok(2) [OF inv_sink_ok [OF inv]]] _ ok(1)]) (simp add: s)
  show "faces_kept e (send_to env i payload e)" unfolding e by (rule faces_kept_put [OF s ok(1)]) simp
qed

section \<open>Removing a session\<close>

lemma sync_inv_gen:
  assumes inv: "engine_inv nothing_owed K e"
  shows "engine_inv nothing_owed (K - {k. route_index (en_prefix e) ip = Some k}) (sync_downlink_profile ip e)"
proof (cases "route_index (en_prefix e) ip")
  case None
  then show ?thesis using assms by (simp add: sync_downlink_profile_def tunnel_key_def)
next
  case (Some k)
  have "lanes_ok nothing_owed (K - {k}) (en_prefix e) (en_routes e)
      (dq_configure k (active_path_count k (en_routes e)) (en_downlink e))"
    by (rule lanes_ok_configure [OF _ route_index_bound [OF Some]]) (use inv in \<open>simp add: inv_parts\<close>)
  moreover have "{j. Some k = Some j} = {k}" by auto
  ultimately show ?thesis using inv Some by (simp add: sync_downlink_profile_def tunnel_key_def inv_parts)
qed

lemma sync_inv:
  assumes "engine_inv nothing_owed K e" and "K \<subseteq> {k. route_index (en_prefix e) ip = Some k}"
  shows "inv (sync_downlink_profile ip e)"
  using sync_inv_gen [OF assms(1), of ip] assms(2) by (simp add: Diff_eq_empty_iff [THEN iffD2])

lemma max_by_id_mem: "max_by_id xs = Some x \<Longrightarrow> x \<in> set xs"
proof -
  have "foldl (\<lambda>best x. case best of None \<Rightarrow> Some x
      | Some y \<Rightarrow> if hs_id (snd y) \<le> hs_id (snd x) then Some x else Some y) b xs = Some x
    \<Longrightarrow> x \<in> set xs \<or> b = Some x" for b
    by (induction xs arbitrary: b) (fastforce split: option.splits if_splits)+
  then show "max_by_id xs = Some x \<Longrightarrow> x \<in> set xs" by (fastforce simp: max_by_id_def)
qed

text \<open>Other tasks may see the change, the tables do not depend on it.\<close>

definition publicly :: "hot_session \<Rightarrow> hot_session \<Rightarrow> bool" where
  "publicly s t \<longleftrightarrow> (\<exists>p. t = s\<lparr>hs_public := p\<rparr>)"

lemma publicly_refl [simp]: "publicly s s"
  unfolding publicly_def by (rule exI [of _ "hs_public s"]) simp

lemma publicly_trans: "publicly s t \<Longrightarrow> publicly t u \<Longrightarrow> publicly s u"
  by (auto simp: publicly_def)

lemma publicly_chain: "rel_option publicly a b \<Longrightarrow> rel_option publicly b c \<Longrightarrow> rel_option publicly a c"
  by (auto elim!: option.rel_cases intro: publicly_trans)

lemma publicly_face: "publicly s t \<Longrightarrow> same_face s t"
  by (auto simp: publicly_def same_face_def)

lemma fall_back_cases:
  obtains (same) "fall_back ip session e = e"
  | (registered) i c p r w where "slab_get (en_sessions e) i = Some c"
      "hs_registration_id c = Some r" "hs_tunnel_ip c = Some ip"
      "fall_back ip session e = put_session i (c\<lparr>hs_public := p\<rparr>)
        (e\<lparr>en_routes := snd (table_register (en_prefix e) ip (hs_id c) r w i (en_routes e))\<rparr>)"
proof -
  let ?xs = "filter (\<lambda>(_, candidate). takes_over ip session candidate) (slab_entries (en_sessions e))"
  show ?thesis
  proof (cases "max_by_id ?xs = None \<or> \<not> unat (pub_worker_id (hs_public session)) < 2 ^ 16")
    case True
    then show ?thesis by (intro same) (auto simp: fall_back_def Let_def split: option.splits)
  next
    case False
    then obtain i c where m: "max_by_id ?xs = Some (i, c)" by auto
    have c: "slab_get (en_sessions e) i = Some c" and "takes_over ip session c"
      using max_by_id_mem [OF m] by auto
    then obtain r where r: "hs_registration_id c = Some r" "hs_tunnel_ip c = Some ip"
      by (auto simp: takes_over_def)
    show ?thesis by (rule registered [OF c r]) (use False m r in \<open>simp add: fall_back_def\<close>)
  qed
qed

lemma fall_back_inv:
  assumes inv: "engine_inv owed K e" and K: "{k. route_index (en_prefix e) ip = Some k} \<subseteq> K"
  shows "engine_inv owed K (fall_back ip session e)"
proof (cases rule: fall_back_cases [of ip session e])
  case (registered i c p r w)
  define t where "t = snd (table_register (en_prefix e) ip (hs_id c) r w i (en_routes e))"
  have ro: "routes_ok (en_prefix e) (en_sessions e) (en_routes e)" using inv by (simp add: inv_parts)
  have "routes_ok (en_prefix e) (en_sessions e) t"
    unfolding t_def by (rule routes_ok_register [OF ro registered(1) refl registered(2,3)])
  moreover have "active_path_count k t = active_path_count k (en_routes e)" if "k \<notin> K" for k
    unfolding t_def by (rule register_count [OF routes_ok_table [OF ro]]) (use that K in blast)
  then have "lanes_ok owed K (en_prefix e) t (en_downlink e)"
    using inv lanes_ok_routes [of owed K "en_prefix e" "en_routes e" "en_downlink e" K t]
    by (simp add: inv_parts)
  ultimately have "engine_inv owed K (e\<lparr>en_routes := t\<rparr>)" using inv by (simp add: inv_parts)
  then show ?thesis
    unfolding registered(4) t_def [symmetric]
    by (rule inv_put_face) (simp_all add: registered(1) same_face_def)
qed (use inv in simp)

lemma fall_back_sessions:
  "rel_option publicly (slab_get (en_sessions e) j) (slab_get (en_sessions (fall_back ip session e)) j)"
proof (cases rule: fall_back_cases [of ip session e])
  case (registered i c p r w)
  then show ?thesis
    by (auto simp: put_session_def option.rel_refl publicly_def)
qed (simp add: option.rel_refl)

lemma frame_tell [simp]:
  "en_prefix (tell event e) = en_prefix e"
  "en_credentials (tell event e) = en_credentials e"
  "en_next_id (tell event e) = en_next_id e"
  "en_epochs (tell event e) = en_epochs e"
  "en_monotonic_ms (tell event e) = en_monotonic_ms e"
  "en_wall_now (tell event e) = en_wall_now e"
  "en_fec_profile (tell event e) = en_fec_profile e"
  "en_sessions (tell event e) = en_sessions e"
  "en_by_id (tell event e) = en_by_id e"
  "en_by_peer (tell event e) = en_by_peer e"
  by (simp_all add: tell_eq)

lemma frame_dirty [simp]:
  "en_prefix (mark_dirty e) = en_prefix e"
  "en_credentials (mark_dirty e) = en_credentials e"
  "en_next_id (mark_dirty e) = en_next_id e"
  "en_epochs (mark_dirty e) = en_epochs e"
  "en_monotonic_ms (mark_dirty e) = en_monotonic_ms e"
  "en_wall_now (mark_dirty e) = en_wall_now e"
  "en_fec_profile (mark_dirty e) = en_fec_profile e"
  "en_sessions (mark_dirty e) = en_sessions e"
  "en_by_id (mark_dirty e) = en_by_id e"
  "en_by_peer (mark_dirty e) = en_by_peer e"
  "en_routes (mark_dirty e) = en_routes e"
  "en_downlink (mark_dirty e) = en_downlink e"
  by (simp_all add: mark_dirty_def)

lemma frame_sync [simp]:
  "en_prefix (sync_downlink_profile ip e) = en_prefix e"
  "en_credentials (sync_downlink_profile ip e) = en_credentials e"
  "en_next_id (sync_downlink_profile ip e) = en_next_id e"
  "en_epochs (sync_downlink_profile ip e) = en_epochs e"
  "en_monotonic_ms (sync_downlink_profile ip e) = en_monotonic_ms e"
  "en_wall_now (sync_downlink_profile ip e) = en_wall_now e"
  "en_fec_profile (sync_downlink_profile ip e) = en_fec_profile e"
  "en_sessions (sync_downlink_profile ip e) = en_sessions e"
  "en_by_id (sync_downlink_profile ip e) = en_by_id e"
  "en_by_peer (sync_downlink_profile ip e) = en_by_peer e"
  by (simp_all add: sync_downlink_profile_def split: option.split)

lemma frame_fall_back [simp]:
  "en_prefix (fall_back ip session e) = en_prefix e"
  "en_credentials (fall_back ip session e) = en_credentials e"
  "en_next_id (fall_back ip session e) = en_next_id e"
  "en_epochs (fall_back ip session e) = en_epochs e"
  "en_monotonic_ms (fall_back ip session e) = en_monotonic_ms e"
  "en_wall_now (fall_back ip session e) = en_wall_now e"
  "en_fec_profile (fall_back ip session e) = en_fec_profile e"
  "en_by_id (fall_back ip session e) = en_by_id e"
  "en_by_peer (fall_back ip session e) = en_by_peer e"
  by (simp_all add: fall_back_def put_session_def Let_def split: option.split)

lemma frame_unroute [simp]:
  "en_prefix (unroute session e) = en_prefix e"
  "en_credentials (unroute session e) = en_credentials e"
  "en_next_id (unroute session e) = en_next_id e"
  "en_epochs (unroute session e) = en_epochs e"
  "en_monotonic_ms (unroute session e) = en_monotonic_ms e"
  "en_wall_now (unroute session e) = en_wall_now e"
  "en_fec_profile (unroute session e) = en_fec_profile e"
  "en_by_id (unroute session e) = en_by_id e"
  "en_by_peer (unroute session e) = en_by_peer e"
  by (simp_all add: unroute_def split: option.split prod.split)

lemma frame_remove [simp]:
  "en_prefix (remove_slot_with_reason i reason e) = en_prefix e"
  "en_credentials (remove_slot_with_reason i reason e) = en_credentials e"
  "en_next_id (remove_slot_with_reason i reason e) = en_next_id e"
  "en_epochs (remove_slot_with_reason i reason e) = en_epochs e"
  "en_monotonic_ms (remove_slot_with_reason i reason e) = en_monotonic_ms e"
  "en_wall_now (remove_slot_with_reason i reason e) = en_wall_now e"
  "en_fec_profile (remove_slot_with_reason i reason e) = en_fec_profile e"
  by (simp_all add: remove_slot_with_reason_def Let_def split: option.split prod.split)

lemma unroute_inv:
  assumes t: "table_inv e" and r: "routes_ok (en_prefix e) (en_sessions e) (unrouted (en_prefix e) s (en_routes e))"
    and ok: "table_ok (en_routes e)"
    and l: "lanes_ok nothing_owed {} (en_prefix e) (en_routes e) (en_downlink e)"
    and rest: "sink_ok (en_sink e)" "\<not> en_panicked e"
  shows "inv (unroute s e)"
proof (cases "hs_tunnel_ip s = None \<or> hs_registration_id s = None")
  case True
  then have "unrouted (en_prefix e) s (en_routes e) = en_routes e" "unroute s e = e"
    by (auto simp: unrouted_def unroute_def split: option.splits)
  then show ?thesis using assms by (simp add: engine_inv_def paths_inv_def)
next
  case False
  then obtain ip reg where both: "hs_tunnel_ip s = Some ip" "hs_registration_id s = Some reg" by auto
  obtain removed routes where u: "table_unregister (en_prefix e) ip reg (en_routes e) = (removed, routes)"
    by (rule prod.exhaust)
  let ?K = "{k. route_index (en_prefix e) ip = Some k}" and ?e = "e\<lparr>en_routes := routes\<rparr>"
  have routes: "unrouted (en_prefix e) s (en_routes e) = routes" using both u by (simp add: unrouted_def)
  have "active_path_count k routes = active_path_count k (en_routes e)" if "k \<notin> ?K" for k
    using unregister_count [OF ok, of "en_prefix e" ip k reg] that u by simp
  then have "lanes_ok nothing_owed ?K (en_prefix e) routes (en_downlink e)"
    by (intro lanes_ok_routes [OF l]) auto
  then have e: "engine_inv nothing_owed ?K ?e"
    using t r rest by (simp add: engine_inv_def paths_inv_def table_inv_def routes)
  have "engine_inv nothing_owed ?K (if removed then fall_back ip s ?e else ?e)"
    using e fall_back_inv [OF e, of ip s] by simp
  then have "inv (sync_downlink_profile ip (if removed then fall_back ip s ?e else ?e))"
    by (rule sync_inv) simp
  then show ?thesis using both u by (simp add: unroute_def)
qed

text \<open>The state in which a removed session is still routed.\<close>

definition detached :: "nat \<Rightarrow> hot_session \<Rightarrow> u64 \<times> u64 \<Rightarrow> engine \<Rightarrow> engine" where
  "detached i s globals e = mark_dirty (e\<lparr>en_sessions := slab_remove i (en_sessions e),
     en_compact_pending := True, en_global := globals,
     en_by_peer := AList.delete (session_key s) (en_by_peer e),
     en_by_id := AList.delete (hs_id s) (en_by_id e)\<rparr>)"

lemma remove_slot_cases:
  obtains (none) "slab_get (en_sessions e) i = None" "remove_slot_with_reason i reason e = e"
  | (some) taken s globals where "slab_get (en_sessions e) i = Some taken" "same_face taken s"
      "remove_slot_with_reason i reason e = tell (SessionClosed (hs_peer s) (hs_id s) reason)
        ((unroute s (detached i s globals e))\<lparr>en_closed := en_closed e
          @ [(hs_public s)\<lparr>pub_has_tunnel := False, pub_cancelled := True\<rparr>]\<rparr>)"
      "publish_counters (en_wall_now e) taken (en_global e) = (s, globals)"
proof (cases "slab_get (en_sessions e) i")
  case None
  then show ?thesis using none by (simp add: remove_slot_with_reason_def)
next
  case (Some taken)
  obtain s globals where p: "publish_counters (en_wall_now e) taken (en_global e) = (s, globals)"
    by (rule prod.exhaust)
  have closed: "en_closed (unroute s (detached i s globals e)) = en_closed e"
    by (simp add: unroute_def detached_def mark_dirty_def sync_downlink_profile_def fall_back_def
      put_session_def Let_def split: option.split prod.split)
  show ?thesis
    by (rule some [OF Some publish_same_face [OF p] _ p])
      (simp add: remove_slot_with_reason_def Some p detached_def [symmetric] closed)
qed

lemma remove_slot_inv:
  assumes inv: "inv e"
  shows "inv (remove_slot_with_reason i reason e)"
proof (cases rule: remove_slot_cases [of e i reason])
  case (some taken s globals)
  have idx: "index_ok hs_id (en_sessions e) (en_by_id e)" "index_ok session_key (en_sessions e) (en_by_peer e)"
    and r: "routes_ok (en_prefix e) (en_sessions e) (en_routes e)" using inv by (simp_all add: inv_parts)
  have keys: "hs_id taken = hs_id s" "session_key taken = session_key s"
    and un: "unrouted (en_prefix e) taken (en_routes e) = unrouted (en_prefix e) s (en_routes e)"
    using some(2) by (simp_all add: same_face_def session_key_def unrouted_def)
  have "table_inv (detached i s globals e)"
    using by_id_index.index_remove [OF idx(1) some(1)] by_peer_index.index_remove [OF idx(2) some(1)] inv
    by (simp add: keys inv_parts detached_def)
  moreover have "routes_ok (en_prefix e) (slab_remove i (en_sessions e)) (unrouted (en_prefix e) s (en_routes e))"
    unfolding un [symmetric] by (rule unrouted_put [OF r some(1)]) simp
  ultimately have "inv (unroute s (detached i s globals e))"
    using inv routes_ok_table [OF r] by (intro unroute_inv) (simp_all add: inv_parts detached_def mark_dirty_def)
  then show ?thesis by (simp add: some(3))
qed (use inv in simp)

lemma unroute_sessions:
  "rel_option publicly (slab_get (en_sessions e) j) (slab_get (en_sessions (unroute s e)) j)"
  using fall_back_sessions [of "e\<lparr>en_routes := _\<rparr>" j]
  by (auto simp: unroute_def option.rel_refl split: option.split prod.split)

lemma remove_slot_sessions:
  "rel_option publicly (if j = i then None else slab_get (en_sessions e) j)
     (slab_get (en_sessions (remove_slot_with_reason i reason e)) j)"
proof (cases rule: remove_slot_cases [of e i reason])
  case (some taken s globals)
  then show ?thesis using unroute_sessions [of "detached i s globals e" j s] by (auto simp: detached_def)
qed (simp add: option.rel_refl)

text \<open>Removing the sessions in a list of slots, each with its reason.\<close>

lemma fold_remove:
  assumes f: "\<And>i e. f i e = remove_slot_with_reason i (reason i e) e"
  shows "inv e \<Longrightarrow> inv (fold f L e)"
    and "rel_option publicly (if j \<in> set L then None else slab_get (en_sessions e) j)
      (slab_get (en_sessions (fold f L e)) j)"
    and "en_credentials (fold f L e) = en_credentials e" and "en_next_id (fold f L e) = en_next_id e"
    and "en_prefix (fold f L e) = en_prefix e" and "en_epochs (fold f L e) = en_epochs e"
    and "en_monotonic_ms (fold f L e) = en_monotonic_ms e"
proof -
  show "inv (fold f L e)" if "inv e" using that by (induction L arbitrary: e) (simp_all add: f remove_slot_inv)
  show "rel_option publicly (if j \<in> set L then None else slab_get (en_sessions e) j)
      (slab_get (en_sessions (fold f L e)) j)"
  proof (induction L arbitrary: e)
    case (Cons i L)
    have step: "rel_option publicly (if j = i then None else slab_get (en_sessions e) j)
        (slab_get (en_sessions (f i e)) j)" unfolding f by (rule remove_slot_sessions)
    have rest: "rel_option publicly (if j \<in> set L then None else slab_get (en_sessions (f i e)) j)
        (slab_get (en_sessions (fold f (i # L) e)) j)" using Cons.IH [of "f i e"] by simp
    show ?case
    proof (cases "j \<in> set L")
      case False
      then show ?thesis using publicly_chain [OF step] rest by simp
    qed (use rest in simp)
  qed (simp add: option.rel_refl)
  show "en_credentials (fold f L e) = en_credentials e" "en_next_id (fold f L e) = en_next_id e"
    "en_prefix (fold f L e) = en_prefix e" "en_epochs (fold f L e) = en_epochs e"
    "en_monotonic_ms (fold f L e) = en_monotonic_ms e"
    by (induction L arbitrary: e) (simp_all add: f)
qed

lemma remove_sessions_inv: "inv e \<Longrightarrow> inv (remove_sessions stale reason e)"
  unfolding remove_sessions_def by (rule fold_remove(1)) (rule refl)

lemma remove_sessions_survivor:
  assumes "slab_get (en_sessions (remove_sessions stale reason e)) j = Some t"
  obtains s where "slab_get (en_sessions e) j = Some s" and "publicly s t" and "\<not> stale s"
proof -
  let ?L = "rev (map fst (filter (\<lambda>(_, s). stale s) (slab_entries (en_sessions e))))"
  have "rel_option publicly (if j \<in> set ?L then None else slab_get (en_sessions e) j) (Some t)"
    using fold_remove(2) [of "\<lambda>i. remove_slot_with_reason i reason" "\<lambda>_ _. reason" j ?L e] assms
    by (simp add: remove_sessions_def)
  then obtain s where s: "slab_get (en_sessions e) j = Some s" "publicly s t" and "j \<notin> set ?L"
    by (auto simp: option_rel_Some2 split: if_splits)
  then have "\<not> stale s" by force
  then show ?thesis using that s by blast
qed

lemma remove_sessions_frame [simp]:
  "en_credentials (remove_sessions stale reason e) = en_credentials e"
  "en_next_id (remove_sessions stale reason e) = en_next_id e"
  "en_prefix (remove_sessions stale reason e) = en_prefix e"
  "en_epochs (remove_sessions stale reason e) = en_epochs e"
  "en_monotonic_ms (remove_sessions stale reason e) = en_monotonic_ms e"
  unfolding remove_sessions_def by (rule fold_remove(3-7) [OF refl])+

end
