(* ===== verification/Server_Tunnels.thy ===== *)
theory Server_Tunnels
  imports Server_Invariant
begin

text \<open>
  New sessions, tunnel activation and removal, and epoch updates keep the invariant of the
  server's engine.
\<close>

section \<open>New sessions\<close>

text \<open>The slab returns a key that is vacant.\<close>

definition env_ok :: "engine_env \<Rightarrow> bool" where
  "env_ok env \<longleftrightarrow> (\<forall>ss. slab_get ss (ev_vacant env ss) = None)"

lemma next_id_less: "n \<noteq> - 1 \<Longrightarrow> (n :: u64) < n + 1"
proof -
  assume "n \<noteq> - 1"
  then have "1 + n \<noteq> 0" by (simp add: add_eq_0_iff)
  then have "unat (n + 1) = Suc (unat n)" using unatSuc [of n] by (simp add: add.commute)
  then show ?thesis by (simp add: word_less_nat_alt)
qed

lemma session_ok_mono:
  assumes "session_ok c n s" and "n \<le> m"
  shows "session_ok c m s"
  using assms by (auto simp: session_ok_def)

lemma peer_free_after_remove:
  assumes inv: "inv e" and old: "map_of (en_by_peer e) k = Some i"
  shows "map_of (en_by_peer (remove_slot_with_reason i reason e)) k = None"
proof (rule ccontr)
  let ?e = "remove_slot_with_reason i reason e"
  have idx: "index_ok session_key (en_sessions e) (en_by_peer e)"
    and idx': "index_ok session_key (en_sessions ?e) (en_by_peer ?e)"
    using inv remove_slot_inv [OF inv] by (simp_all add: inv_parts)
  assume "map_of (en_by_peer ?e) k \<noteq> None"
  then obtain j where "map_of (en_by_peer ?e) k = Some j" by auto
  then obtain t where t: "slab_get (en_sessions ?e) j = Some t" "session_key t = k"
    by (rule by_peer_index.index_found [OF idx'])
  have "rel_option publicly (if j = i then None else slab_get (en_sessions e) j) (Some t)"
    using remove_slot_sessions [of j i e reason] t(1) by simp
  then obtain s where "j \<noteq> i" "slab_get (en_sessions e) j = Some s" "publicly s t"
    by (auto simp: option_rel_Some2 split: if_splits)
  moreover have "session_key s = k"
    using publicly_face [OF calculation(3)] t(2) by (simp add: same_face_def session_key_def)
  ultimately show False using by_peer_index.index_lookup [OF idx] old by fastforce
qed

lemma fresh_session_inv:
  assumes inv: "inv e" and vacant: "slab_get (en_sessions e) i = None"
    and peer: "map_of (en_by_peer e) (session_key s) = None" and s: "hs_id s = en_next_id e"
    and bound: "en_next_id e \<noteq> - 1" and ok: "session_ok (en_credentials e) (en_next_id e + 1) s"
  shows "inv (e\<lparr>en_next_id := en_next_id e + 1, en_sessions := slab_put i s (en_sessions e),
    en_by_peer := AList.update (session_key s) i (en_by_peer e),
    en_by_id := AList.update (en_next_id e) i (en_by_id e)\<rparr>)"
proof -
  have idx: "index_ok hs_id (en_sessions e) (en_by_id e)" "index_ok session_key (en_sessions e) (en_by_peer e)"
    and r: "routes_ok (en_prefix e) (en_sessions e) (en_routes e)" using inv by (simp_all add: inv_parts)
  have "map_of (en_by_id e) (hs_id s) = None"
  proof (rule ccontr)
    assume "map_of (en_by_id e) (hs_id s) \<noteq> None"
    then obtain j where "map_of (en_by_id e) (hs_id s) = Some j" by auto
    then obtain t where t: "slab_get (en_sessions e) j = Some t" "hs_id t = hs_id s"
      by (rule by_id_index.index_found [OF idx(1)])
    then show False using inv_session_ok [OF inv t(1)] s by (simp add: session_ok_def)
  qed
  note ids = by_id_index.index_insert [OF idx(1) vacant this]
  note peers = by_peer_index.index_insert [OF idx(2) vacant peer]
  have "routes_ok (en_prefix e) (slab_put i s (en_sessions e)) (en_routes e)"
    by (rule routes_okI [OF routes_ok_table [OF r]]) (rule endpoint_live_fresh [OF routes_okD [OF r] vacant])
  moreover have "session_ok (en_credentials e) (en_next_id e + 1) t" if "slab_get (en_sessions e) j = Some t" for j t
    by (rule session_ok_mono [OF inv_session_ok [OF inv that]])
      (use next_id_less [OF bound] in \<open>rule order.strict_implies_order\<close>)
  ultimately show ?thesis using inv ids peers ok by (simp add: inv_parts s)
qed

lemma create_inv:
  assumes inv: "inv e" and env: "env_ok env" and bound: "en_next_id e \<noteq> - 1"
    and password: "password \<in> fst ` set (en_credentials e)"
  shows "inv (snd (create_legacy_session env p local_ip password key pt srtp dev gen salt seq e))"
proof -
  define e1 where "e1 = (case map_of (en_by_peer e) (p, local_ip) of None \<Rightarrow> e
    | Some old_slot \<Rightarrow> remove_slot_with_reason old_slot ''peer-replaced'' e)"
  have e1: "inv e1" "map_of (en_by_peer e1) (p, local_ip) = None" "en_next_id e1 = en_next_id e"
    "en_credentials e1 = en_credentials e"
    using inv remove_slot_inv [OF inv] peer_free_after_remove [OF inv]
    by (simp_all add: e1_def split: option.split)
  define s where "s = (hot_session_legacy env (en_next_id e1) p local_ip password key pt srtp dev gen salt
    (en_fec_profile e1) (en_monotonic_ms e1) (en_wall_now e1))
    \<lparr>hs_replay := snd (replay_accept seq replay_new)\<rparr>"
  have s: "hs_id s = en_next_id e1" "session_key s = (p, local_ip)"
    by (simp_all add: s_def hot_session_legacy_def session_key_def)
  have "session_ok (en_credentials e1) (en_next_id e1 + 1) s"
    using password replay_first_keeps next_id_less [OF bound]
    by (simp add: session_ok_def s_def hot_session_legacy_def e1)
  then have "inv (e1\<lparr>en_next_id := en_next_id e1 + 1,
      en_sessions := slab_put (ev_vacant env (en_sessions e1)) s (en_sessions e1),
      en_by_peer := AList.update (session_key s) (ev_vacant env (en_sessions e1)) (en_by_peer e1),
      en_by_id := AList.update (en_next_id e1) (ev_vacant env (en_sessions e1)) (en_by_id e1)\<rparr>)"
    using env bound e1 s by (intro fresh_session_inv) (simp_all add: env_ok_def)
  then show ?thesis
    unfolding create_legacy_session_def e1_def [symmetric] Let_def s(2)
    by (simp add: s_def hot_session_legacy_def)
qed

lemma tell_payload_inv [simp]: "engine_inv owed K (tell_payload i payload e) = engine_inv owed K e"
  by (simp add: tell_payload_def split: option.split)

section \<open>Tunnels\<close>

lemma put_session_same:
  assumes "slab_get (en_sessions e) i = Some s"
  shows "put_session i s e = e"
proof -
  have "i < length (en_sessions e)" "en_sessions e ! i = Some s"
    using assms by (auto simp: slab_get_def get_at_def split: if_splits)
  then have "slab_put i s (en_sessions e) = en_sessions e"
    using list_update_id [of "en_sessions e" i] by (simp add: slab_put_def)
  then show ?thesis by (simp add: put_session_def)
qed

lemma table_put:
  assumes t: "table_inv e" and s: "slab_get (en_sessions e) i = Some s" and "hs_id u = hs_id s"
    and "session_key u = session_key s" and "session_ok (en_credentials e) (en_next_id e) u"
  shows "table_inv (put_session i u e)"
proof -
  have idx: "index_ok hs_id (en_sessions e) (en_by_id e)" "index_ok session_key (en_sessions e) (en_by_peer e)"
    using t by (simp_all add: table_inv_def)
  show ?thesis
    using t assms(5) by_id_index.index_same [OF idx(1) s assms(3)] by_peer_index.index_same [OF idx(2) s assms(4)]
    by (simp add: table_inv_def put_session_def)
qed

lemma put_session_routes: "put_session i u (e\<lparr>en_routes := t\<rparr>) = (put_session i u e)\<lparr>en_routes := t\<rparr>"
  by (cases e) (simp add: put_session_def)

definition old_keys :: "bytes \<Rightarrow> hot_session \<Rightarrow> nat set" where
  "old_keys net s = (case (hs_tunnel_ip s, hs_registration_id s) of
     (Some ip, Some r) \<Rightarrow> {k. route_index net ip = Some k} | _ \<Rightarrow> {})"

lemma unrouted_count:
  assumes "table_ok t" and "k \<notin> old_keys net s"
  shows "active_path_count k (unrouted net s t) = active_path_count k t"
  using assms unregister_count by (auto simp: unrouted_def old_keys_def split: option.splits)

lemma put_unrouted_inv:
  assumes inv: "inv e" and s: "slab_get (en_sessions e) i = Some s" and "hs_id u = hs_id s"
    and "session_key u = session_key s" and "session_ok (en_credentials e) (en_next_id e) u"
  shows "engine_inv nothing_owed (old_keys (en_prefix e) s)
    (put_session i u (e\<lparr>en_routes := unrouted (en_prefix e) s (en_routes e)\<rparr>))"
proof -
  have r: "routes_ok (en_prefix e) (en_sessions e) (en_routes e)" and t: "table_inv e"
    and l: "lanes_ok nothing_owed {} (en_prefix e) (en_routes e) (en_downlink e)"
    using inv by (simp_all add: inv_parts)
  have "routes_ok (en_prefix e) (slab_put i u (en_sessions e)) (unrouted (en_prefix e) s (en_routes e))"
    by (rule unrouted_put [OF r s]) simp
  moreover have "lanes_ok nothing_owed (old_keys (en_prefix e) s) (en_prefix e)
      (unrouted (en_prefix e) s (en_routes e)) (en_downlink e)"
    by (rule lanes_ok_routes [OF l unrouted_count [OF routes_ok_table [OF r]]]) simp_all
  ultimately show ?thesis
    using inv table_put [OF t s assms(3-5)] by (simp add: inv_parts put_session_def)
qed

lemma register_inv:
  assumes inv: "engine_inv owed K e" and "slab_get (en_sessions e) i = Some c"
    and "hs_registration_id c = Some r" and "hs_tunnel_ip c = Some ip"
  shows "engine_inv owed (K \<union> {k. route_index (en_prefix e) ip = Some k})
    (e\<lparr>en_routes := snd (table_register (en_prefix e) ip (hs_id c) r w i (en_routes e))\<rparr>)"
proof -
  have ro: "routes_ok (en_prefix e) (en_sessions e) (en_routes e)"
    and l: "lanes_ok owed K (en_prefix e) (en_routes e) (en_downlink e)" using inv by (simp_all add: inv_parts)
  have "routes_ok (en_prefix e) (en_sessions e) (snd (table_register (en_prefix e) ip (hs_id c) r w i (en_routes e)))"
    by (rule routes_ok_register [OF ro assms(2) refl assms(3,4)])
  moreover have "lanes_ok owed (K \<union> {k. route_index (en_prefix e) ip = Some k}) (en_prefix e)
      (snd (table_register (en_prefix e) ip (hs_id c) r w i (en_routes e))) (en_downlink e)"
    by (rule lanes_ok_routes [OF l register_count [OF routes_ok_table [OF ro]]]) auto
  ultimately show ?thesis using inv by (simp add: inv_parts)
qed

definition sync_old :: "hot_session \<Rightarrow> engine \<Rightarrow> engine" where
  "sync_old s e = (case (hs_tunnel_ip s, hs_registration_id s) of
     (Some ip, Some r) \<Rightarrow> sync_downlink_profile ip e | _ \<Rightarrow> e)"

lemma sync_old_inv:
  assumes "engine_inv nothing_owed (old_keys (en_prefix e) s \<union> K) e"
  shows "\<exists>K' \<subseteq> K. engine_inv nothing_owed K' (sync_old s e)"
proof (cases "hs_tunnel_ip s = None \<or> hs_registration_id s = None")
  case True
  then show ?thesis using assms by (intro exI [of _ K]) (auto simp: old_keys_def sync_old_def split: option.splits)
next
  case False
  then obtain ip r where both: "hs_tunnel_ip s = Some ip" "hs_registration_id s = Some r" by auto
  let ?K = "(old_keys (en_prefix e) s \<union> K) - {k. route_index (en_prefix e) ip = Some k}"
  have "engine_inv nothing_owed ?K (sync_downlink_profile ip e)" by (rule sync_inv_gen [OF assms])
  moreover have "?K \<subseteq> K" using both by (auto simp: old_keys_def)
  ultimately show ?thesis using both by (intro exI [of _ ?K]) (simp add: sync_old_def)
qed

lemma sync_old_frame [simp]:
  "en_prefix (sync_old s e) = en_prefix e" "en_sessions (sync_old s e) = en_sessions e"
  by (simp_all add: sync_old_def split: option.split)

lemma activate_cases:
  assumes s: "map_of (en_by_id e) sid = Some i" "slab_get (en_sessions e) i = Some s"
  obtains (outside) "route_index (en_prefix e) ip = None"
      "snd (activate_tunnel sid ip r w n e) = sync_old s (e\<lparr>en_routes := unrouted (en_prefix e) s (en_routes e)\<rparr>)"
  | (inside) u where "hs_id u = hs_id s" "session_key u = session_key s" "hs_password u = hs_password s"
      "hs_replay u = hs_replay s" "hs_registration_id u = Some r" "hs_tunnel_ip u = Some ip"
      "snd (activate_tunnel sid ip r w n e) = sync_downlink_profile ip (sync_old s (mark_dirty (put_session i u
        (e\<lparr>en_routes := snd (table_register (en_prefix e) ip sid r w i (unrouted (en_prefix e) s (en_routes e)))\<rparr>))))"
proof (cases "route_index (en_prefix e) ip")
  case None
  have "snd (activate_tunnel sid ip r w n e) = sync_old s (e\<lparr>en_routes := unrouted (en_prefix e) s (en_routes e)\<rparr>)"
    using None s
    by (cases "hs_tunnel_ip s"; cases "hs_registration_id s")
      (simp_all add: activate_tunnel_def Let_def endpoints_register_none sync_old_def unrouted_def)
  then show ?thesis by (rule outside [OF None])
next
  case (Some k)
  define u where "u = s\<lparr>hs_tunnel_ip := Some ip, hs_registration_id := Some r, hs_desired_stream_count := n,
    hs_pending_tunnel := False, hs_public := (hs_public s)\<lparr>pub_tunnel_ip := Some ip,
      pub_desired_stream_count := ucast n, pub_has_tunnel := True\<rparr>\<rparr>"
  obtain t where reg: "table_register (en_prefix e) ip sid r w i (unrouted (en_prefix e) s (en_routes e)) = (True, t)"
    using Some by (simp add: table_register_def)
  have "snd (activate_tunnel sid ip r w n e) = sync_downlink_profile ip (sync_old s (mark_dirty (put_session i u
      (e\<lparr>en_routes := snd (table_register (en_prefix e) ip sid r w i (unrouted (en_prefix e) s (en_routes e)))\<rparr>))))"
    using s reg
    by (cases "hs_tunnel_ip s"; cases "hs_registration_id s")
      (simp_all add: activate_tunnel_def Let_def sync_old_def unrouted_def u_def)
  then show ?thesis by (rule inside [rotated -1]) (simp_all add: u_def session_key_def)
qed

lemma activate_inv:
  assumes inv: "inv e" and ip: "length ip = 4"
  shows "inv (snd (activate_tunnel sid ip r w n e))"
proof (cases "map_of (en_by_id e) sid")
  case None
  then show ?thesis using inv by (simp add: activate_tunnel_def)
next
  case (Some i)
  have idx: "index_ok hs_id (en_sessions e) (en_by_id e)" using inv by (simp add: inv_parts)
  from by_id_index.index_found [OF idx Some] obtain s where
    s: "slab_get (en_sessions e) i = Some s" and sid: "hs_id s = sid" .
  note ok = inv_session_ok [OF inv s]
  let ?net = "en_prefix e" and ?t = "unrouted (en_prefix e) s (en_routes e)"
  show ?thesis
  proof (rule activate_cases [OF Some s, of ip r w n])
    assume outside: "route_index ?net ip = None"
      "snd (activate_tunnel sid ip r w n e) = sync_old s (e\<lparr>en_routes := ?t\<rparr>)"
    have "engine_inv nothing_owed (old_keys ?net s) (put_session i s (e\<lparr>en_routes := ?t\<rparr>))"
      by (rule put_unrouted_inv [OF inv s]) (simp_all add: ok)
    moreover have "put_session i s (e\<lparr>en_routes := ?t\<rparr>) = e\<lparr>en_routes := ?t\<rparr>"
      by (rule put_session_same) (simp add: s)
    ultimately show ?thesis
      using sync_old_inv [of "e\<lparr>en_routes := ?t\<rparr>" s "{}"] outside(2) by simp
  next
    fix u
    assume inside: "hs_id u = hs_id s" "session_key u = session_key s" "hs_password u = hs_password s"
      "hs_replay u = hs_replay s" "hs_registration_id u = Some r" "hs_tunnel_ip u = Some ip"
      "snd (activate_tunnel sid ip r w n e) = sync_downlink_profile ip (sync_old s (mark_dirty (put_session i u
        (e\<lparr>en_routes := snd (table_register ?net ip sid r w i ?t)\<rparr>))))"
    let ?e = "put_session i u (e\<lparr>en_routes := ?t\<rparr>)"
    have "session_ok (en_credentials e) (en_next_id e) u"
      using ok ip inside(1-6) by (simp add: session_ok_def)
    then have "engine_inv nothing_owed (old_keys ?net s) ?e"
      by (rule put_unrouted_inv [OF inv s inside(1,2)])
    from register_inv [OF this _ inside(5,6), of i w]
    have reg: "engine_inv nothing_owed (old_keys ?net s \<union> {k. route_index ?net ip = Some k})
        (put_session i u (e\<lparr>en_routes := snd (table_register ?net ip sid r w i ?t)\<rparr>))"
      using inside(1) sid unfolding put_session_routes by (simp add: put_session_def)
    let ?e' = "mark_dirty (put_session i u (e\<lparr>en_routes := snd (table_register ?net ip sid r w i ?t)\<rparr>))"
    from sync_old_inv [of ?e' s] reg obtain K' where "K' \<subseteq> {k. route_index ?net ip = Some k}"
      "engine_inv nothing_owed K' (sync_old s ?e')" by (auto simp: put_session_def)
    then show ?thesis
      unfolding inside(7) by (intro sync_inv [of K']) (simp_all add: put_session_def)
  qed
qed

lemma remove_tunnel_inv:
  assumes inv: "inv e"
  shows "inv (remove_tunnel sid e)"
proof (cases "map_of (en_by_id e) sid")
  case None
  then show ?thesis using inv by (simp add: remove_tunnel_def)
next
  case (Some i)
  have idx: "index_ok hs_id (en_sessions e) (en_by_id e)" using inv by (simp add: inv_parts)
  from by_id_index.index_found [OF idx Some] obtain s where
    s: "slab_get (en_sessions e) i = Some s" and sid: "hs_id s = sid" .
  define u where "u = s\<lparr>hs_tunnel_ip := None, hs_registration_id := None, hs_pending_tunnel := False,
    hs_public := (hs_public s)\<lparr>pub_tunnel_ip := None, pub_has_tunnel := False\<rparr>\<rparr>"
  let ?e = "put_session i u (e\<lparr>en_routes := unrouted (en_prefix e) s (en_routes e)\<rparr>)"
  have e: "engine_inv nothing_owed (old_keys (en_prefix e) s) ?e"
    by (rule put_unrouted_inv [OF inv s])
      (use inv_session_ok [OF inv s] in \<open>simp_all add: u_def session_key_def session_ok_def\<close>)
  have eq: "remove_tunnel sid e =
      mark_dirty (case hs_tunnel_ip s of None \<Rightarrow> ?e | Some ip \<Rightarrow> sync_downlink_profile ip ?e)"
    using Some s
    by (cases "hs_tunnel_ip s"; cases "hs_registration_id s")
      (simp_all add: remove_tunnel_def with_session_def unrouted_def Let_def u_def)
  show ?thesis
  proof (cases "hs_tunnel_ip s")
    case None
    then show ?thesis using e by (simp add: eq old_keys_def)
  next
    case (Some ip)
    have "inv (sync_downlink_profile ip ?e)"
      by (rule sync_inv [OF e]) (use Some in \<open>auto simp: old_keys_def put_session_def split: option.splits\<close>)
    then show ?thesis using Some by (simp add: eq)
  qed
qed

lemma update_epoch_inv:
  assumes inv: "inv e"
  shows "inv (update_epoch sid dev gen salt e)"
proof (cases "map_of (en_by_id e) sid")
  case None
  then show ?thesis using inv by (simp add: update_epoch_def)
next
  case (Some i)
  have idx: "index_ok hs_id (en_sessions e) (en_by_id e)" using inv by (simp add: inv_parts)
  from by_id_index.index_found [OF idx Some] obtain s where s: "slab_get (en_sessions e) i = Some s" .
  define u where "u = s\<lparr>hs_device_id := dev, hs_generation_id := gen, hs_session_salt := salt,
    hs_public := (hs_public s)\<lparr>pub_device_id := dev, pub_generation_id := gen, pub_session_salt := salt\<rparr>\<rparr>"
  have e: "inv (put_session i u e)" by (rule inv_put_face [OF inv s]) (simp add: u_def same_face_def)
  have clear: "inv ((put_session i u e)\<lparr>en_downlink := dq_clear k (en_downlink e)\<rparr>)" for k
    using e lanes_ok_clear by (simp add: inv_parts put_session_def)
  show ?thesis
    using Some s e clear
    by (simp add: update_epoch_def with_session_def Let_def u_def [symmetric] put_session_def split: option.split)
qed

end
