(* ===== verification/Server_Downlink.thy ===== *)
theory Server_Downlink
  imports Server_Tunnels
begin

text \<open>
  The way down through the server's engine: a packet that waits in the lane of a client always
  finds a live session of this client, and the drain sends a prefix of every lane in its order.
\<close>

section \<open>One packet\<close>

lemma inv_lanes: "engine_inv owed K e \<Longrightarrow> lanes_ok owed K (en_prefix e) (en_routes e) (en_downlink e)"
  by (simp add: inv_parts)

text \<open>A live session with this number and this tunnel address.\<close>

definition tunnel_of :: "engine \<Rightarrow> u64 \<Rightarrow> bytes \<Rightarrow> bool" where
  "tunnel_of e sid ip \<longleftrightarrow>
     (\<exists>i s. slab_get (en_sessions e) i = Some s \<and> hs_id s = sid \<and> hs_tunnel_ip s = Some ip
        \<and> hs_registration_id s \<noteq> None)"

lemma faces_kept_sym:
  assumes "faces_kept e e'"
  shows "faces_kept e' e"
proof -
  have "rel_option same_face (slab_get (en_sessions e') i) (slab_get (en_sessions e) i)" for i
    using assms [unfolded faces_kept_def, rule_format, of i] by (auto simp: same_face_def elim!: option.rel_cases)
  then show ?thesis by (simp add: faces_kept_def)
qed

lemma tunnel_of_kept:
  assumes "faces_kept e e'" and "tunnel_of e sid ip"
  shows "tunnel_of e' sid ip"
proof -
  obtain i s where s: "slab_get (en_sessions e) i = Some s" "hs_id s = sid" "hs_tunnel_ip s = Some ip"
    "hs_registration_id s \<noteq> None" using assms(2) unfolding tunnel_of_def by blast
  from faces_keptD [OF assms(1) s(1)] obtain t where t: "slab_get (en_sessions e') i = Some t" "same_face s t" .
  then show ?thesis unfolding tunnel_of_def using s
    by (intro exI [of _ i] exI [of _ t]) (simp add: same_face_def)
qed

lemmas tunnel_of_face = tunnel_of_kept [OF faces_kept_sym]

lemma send_down_endpoint_spec:
  assumes inv: "engine_inv owed K e" and live: "endpoint_live (en_prefix e) (en_sessions e) k ep"
    and r: "send_down_endpoint env ep packet cls e = (result, e')"
  shows "engine_inv owed K e'" and "faces_kept e e'" and "result \<noteq> Stale"
    and "en_downlink e' = en_downlink e" and "en_prefix e' = en_prefix e"
    and "result = Sent sid \<Longrightarrow> \<exists>ip. tunnel_of e sid ip \<and> route_index (en_prefix e) ip = Some k"
    and "(\<And>i s. slab_get (en_sessions e) i = Some s \<Longrightarrow> fst (send_plain_mode env cls packet s (en_sink e)))
      \<Longrightarrow> result \<noteq> Backpressured"
proof -
  obtain s ip where s: "slab_get (en_sessions e) (ep_slot ep) = Some s" "hs_id s = ep_session_id ep"
    "hs_registration_id s = Some (ep_registration_id ep)" "hs_tunnel_ip s = Some ip"
    "route_index (en_prefix e) ip = Some k" using live unfolding endpoint_live_def by blast
  obtain sent t sink where p: "send_plain_mode env cls packet s (en_sink e) = (sent, t, sink)"
    by (metis prod.exhaust)
  note ok = send_plain_mode_ok [OF p]
  define u where "u = (if sent then t\<lparr>hs_down_total :=
    saturating_add (hs_down_total t) (word_of_nat (length packet))\<rparr> else t)"
  have face: "same_face s u" using ok(1) by (simp add: u_def same_face_def)
  have eq: "e' = put_session (ep_slot ep) u (e\<lparr>en_sink := sink\<rparr>)"
    and res: "result = (if sent then Sent (hs_id t) else Backpressured)"
    using r by (auto simp: send_down_endpoint_def s p u_def split: if_splits)
  show "engine_inv owed K e'"
    unfolding eq by (rule inv_put_face [OF inv_sink [OF inv ok(2) [OF inv_sink_ok [OF inv]]] _ face]) (simp add: s)
  show "faces_kept e e'" unfolding eq by (rule faces_kept_put [OF s(1) face]) simp
  show "result \<noteq> Stale" "en_downlink e' = en_downlink e" "en_prefix e' = en_prefix e"
    by (simp_all add: res eq put_session_def)
  have "tunnel_of e (hs_id s) ip" unfolding tunnel_of_def using s(1,3,4) by blast
  then show "\<exists>ip. tunnel_of e sid ip \<and> route_index (en_prefix e) ip = Some k" if "result = Sent sid"
    using that s(5) ok(1) by (auto simp: res same_face_def split: if_splits)
  show "result \<noteq> Backpressured"
    if "\<And>i s. slab_get (en_sessions e) i = Some s \<Longrightarrow> fst (send_plain_mode env cls packet s (en_sink e))"
    using that [OF s(1)] by (simp add: res p)
qed

lemma select_first_endpoint:
  assumes ok: "table_ok t" and k: "endpoints_at k t \<noteq> []"
  obtains sel t' ep where "select_key_window k cls t = (Some sel, t')" and "0 < sel_len sel"
    and "table_endpoint_at k sel 0 t' = Some ep" and "ep \<in> set (endpoints_at k t)"
proof -
  obtain g where g: "group_at k t = Some g" and ne: "rg_endpoints g \<noteq> []"
    using k by (auto simp: endpoints_at_def split: option.splits)
  obtain w g' where w: "select_window cls g = (w, g')" by (cases "select_window cls g")
  note e = select_window_endpoints [OF group_at_ok(3) [OF ok g] w]
  obtain start where start: "start < length (rg_endpoints g)"
    and wsel: "w = Some \<lparr>sel_start = start, sel_len = length (rg_endpoints g)\<rparr>" using e(3) [OF ne] by blast
  let ?sel = "\<lparr>sel_start = start, sel_len = length (rg_endpoints g)\<rparr>"
  have sel: "select_key_window k cls t = (Some ?sel, t[k := Some g'])"
    using g w wsel by (simp add: select_key_window_def)
  have "group_at k (t[k := Some g']) = Some g'"
    using group_at_ok(4) [OF ok g] ok by (simp add: group_at_def get_at_def table_ok_def)
  then have at: "table_endpoint_at k ?sel 0 (t[k := Some g']) = Some (rg_endpoints g ! start)"
    using start e(1) by (auto simp: table_endpoint_at_def group_endpoint_at_def get_at_def)
  have len: "0 < sel_len ?sel" using ne by simp
  have mem: "rg_endpoints g ! start \<in> set (endpoints_at k t)" using start g by (simp add: endpoints_at_def)
  show ?thesis by (rule that [OF sel len at mem])
qed

lemma send_down_key_spec:
  assumes inv: "engine_inv owed {} e" and k: "endpoints_at k (en_routes e) \<noteq> []"
    and r: "send_down_key env k packet cls e = (result, e')"
  shows "engine_inv owed {} e'" and "faces_kept e e'" and "result \<noteq> Stale"
    and "en_downlink e' = en_downlink e" and "en_prefix e' = en_prefix e"
    and "result = Sent sid \<Longrightarrow> \<exists>ip. tunnel_of e sid ip \<and> route_index (en_prefix e) ip = Some k"
    and "(\<And>i s. slab_get (en_sessions e) i = Some s \<Longrightarrow> fst (send_plain_mode env cls packet s (en_sink e)))
      \<Longrightarrow> result \<noteq> Backpressured"
proof -
  have ro: "routes_ok (en_prefix e) (en_sessions e) (en_routes e)"
    and l: "lanes_ok owed {} (en_prefix e) (en_routes e) (en_downlink e)" using inv by (simp_all add: inv_parts)
  note t = routes_ok_table [OF ro]
  obtain sel t' ep where sel: "select_key_window k cls (en_routes e) = (Some sel, t')" "0 < sel_len sel"
    "table_endpoint_at k sel 0 t' = Some ep" "ep \<in> set (endpoints_at k (en_routes e))"
    by (rule select_first_endpoint [OF t k, of cls])
  let ?e = "e\<lparr>en_routes := t'\<rparr>"
  have "routes_ok (en_prefix e) (en_sessions e) t'"
    using ro select_key_window_ok(1) [OF t sel(1)] endpoints_select [OF t sel(1)] by (simp add: routes_ok_def)
  moreover have "lanes_ok owed {} (en_prefix e) t' (en_downlink e)"
    by (rule lanes_ok_routes [OF l select_key_window_ok(2) [OF t sel(1)]]) simp
  ultimately have inv': "engine_inv owed {} ?e" using inv by (simp add: inv_parts)
  have live: "endpoint_live (en_prefix ?e) (en_sessions ?e) k ep" using routes_okD [OF ro sel(4)] by simp
  obtain result1 e1 where d: "send_down_endpoint env ep packet cls ?e = (result1, e1)" by (rule prod.exhaust)
  note spec = send_down_endpoint_spec [OF inv' live d]
  have "[0..<sel_len sel] = 0 # [1..<sel_len sel]" using sel(2) by (simp add: upt_conv_Cons)
  then have "(result, e') = (result1, e1)"
    using r sel(1,3) d spec(3) by (cases result1) (simp_all add: send_down_key_def)
  then have res: "result = result1" and e': "e' = e1" by simp_all
  have "faces_kept e ?e" by (simp add: faces_kept_def option.rel_refl)
  then show "faces_kept e e'" using faces_kept_trans spec(2) e' by blast
  show "engine_inv owed {} e'" "result \<noteq> Stale" "en_downlink e' = en_downlink e" "en_prefix e' = en_prefix e"
    using spec(1,3,4,5) by (simp_all add: res e')
  show "\<exists>ip. tunnel_of e sid ip \<and> route_index (en_prefix e) ip = Some k" if "result = Sent sid"
    using spec(6) that by (simp add: res tunnel_of_def)
  show "result \<noteq> Backpressured"
    if "\<And>i s. slab_get (en_sessions e) i = Some s \<Longrightarrow> fst (send_plain_mode env cls packet s (en_sink e))"
    using spec(7) that by (simp add: res)
qed

section \<open>The width of the lanes\<close>

definition widths :: "downlink_queue \<Rightarrow> nat list" where
  "widths q = map la_active_paths (dq_lanes q)"

lemma widths_put_slots [simp]: "widths (put_slots k cls s q) = widths q"
  using map_active_update [of k "dq_lanes q" "set_lane_queue cls s (dq_lanes q ! k)"]
  by (cases "k < length (dq_lanes q)") (simp_all add: widths_def put_slots_def list_update_beyond)

lemma widths_cursor [simp]: "widths (set_dq_cursor cls c q) = widths q"
  by (simp add: widths_def)

lemma widths_dequeue: "dq_dequeue cls q = (r, q') \<Longrightarrow> widths q' = widths q"
proof -
  have "widths (snd (dequeue_loop n cls q)) = widths q" for n
  proof (induction n arbitrary: q)
    case (Suc n)
    obtain key q1 where k: "next_key cls q = (key, q1)" by (rule prod.exhaust)
    have "widths q1 = widths q" using k by (auto simp: next_key_def Let_def split: option.splits)
    then show ?case using Suc k by (simp split: option.split prod.split)
  qed simp
  then show "dq_dequeue cls q = (r, q') \<Longrightarrow> widths q' = widths q" by (metis dq_dequeue_def snd_conv)
qed

lemma widths_give_back [simp]:
  "widths (dq_requeue_front k cls p q) = widths q" "widths (dq_recycle k cls p q) = widths q"
  by (simp_all add: dq_requeue_front_def dq_recycle_def split: option.split)

lemma widths_enqueue: "widths (snd (dq_enqueue k cls packet q)) = widths q"
  using widths_put_slots [of k cls _ q]
  by (auto simp: dq_enqueue_def put_slots_def get_at_def split: option.splits prod.splits if_splits)

lemma lanes_ok_queue:
  assumes ok: "lanes_ok owed K net t q" and inv: "dq_inv owed' q'" and w: "widths q' = widths q"
    and c: "\<And>k cls p. p \<in> set (contents q' k cls) \<Longrightarrow> packet_key net p = Some k \<and> packet_class_of p = cls"
  shows "lanes_ok owed' K net t q'"
proof -
  have "la_active_paths (dq_lanes q' ! k) = la_active_paths (dq_lanes q ! k)" if "k < 256" for k
    using that dq_inv_lanes [OF inv] dq_inv_lanes [OF lanes_okD(1) [OF ok]] arg_cong [OF w, of "\<lambda>ws. ws ! k"]
    by (simp add: widths_def)
  then show ?thesis using inv c lanes_okD(3) [OF ok] unfolding lanes_ok_def by simp
qed

lemma inv_queue:
  assumes "engine_inv owed {} e" and "dq_inv owed' q" and "widths q = widths (en_downlink e)"
    and "\<And>k cls p. p \<in> set (contents q k cls) \<Longrightarrow> packet_key (en_prefix e) p = Some k \<and> packet_class_of p = cls"
  shows "engine_inv owed' {} (e\<lparr>en_downlink := q\<rparr>)"
  using assms lanes_ok_queue [of owed "{}" "en_prefix e" "en_routes e" "en_downlink e" owed' q]
  by (simp add: inv_parts)

section \<open>The drain\<close>

definition sent_on :: "bytes \<Rightarrow> nat \<Rightarrow> packet_class \<Rightarrow> (u64 \<times> bytes) list \<Rightarrow> bytes list" where
  "sent_on net k cls sends = filter (\<lambda>p. packet_key net p = Some k \<and> packet_class_of p = cls) (map snd sends)"

text \<open>From \<open>e\<close> to \<open>e'\<close>, every packet sent went to a live session with its destination address, and the
  packets sent are prefixes of the lanes.\<close>

definition carried :: "engine \<Rightarrow> (u64 \<times> bytes) list \<Rightarrow> engine \<Rightarrow> bool" where
  "carried e sends e' \<longleftrightarrow> inv e' \<and> faces_kept e e' \<and> en_prefix e' = en_prefix e
     \<and> (\<forall>(sid, p) \<in> set sends. \<exists>ip. tunnel_of e sid ip \<and> extract_dst_ipv4 p = Some ip)
     \<and> (\<forall>k cls. contents (en_downlink e) k cls =
          sent_on (en_prefix e) k cls sends @ contents (en_downlink e') k cls)"

lemma carried_refl: "inv e \<Longrightarrow> carried e [] e"
  by (simp add: carried_def sent_on_def)

lemma carried_trans:
  assumes "carried e xs e1" and "carried e1 ys e2"
  shows "carried e (xs @ ys) e2"
proof -
  have f: "faces_kept e e1" and p: "en_prefix e1 = en_prefix e" using assms by (simp_all add: carried_def)
  have "\<exists>ip. tunnel_of e sid ip \<and> extract_dst_ipv4 q = Some ip" if "(sid, q) \<in> set (xs @ ys)" for sid q
  proof (cases "(sid, q) \<in> set xs")
    case True
    then show ?thesis using assms(1) unfolding carried_def by blast
  next
    case False
    then show ?thesis using that assms(2) tunnel_of_face [OF f] unfolding carried_def by fastforce
  qed
  moreover have "contents (en_downlink e) k cls
      = sent_on (en_prefix e) k cls (xs @ ys) @ contents (en_downlink e2) k cls" for k cls
    using assms p by (simp add: carried_def sent_on_def)
  ultimately show ?thesis
    using assms faces_kept_trans [OF f, of e2] unfolding carried_def by auto
qed

lemma dequeue_step:
  assumes inv: "inv e" and d: "dq_dequeue cls (en_downlink e) = (Some (k, p), q)"
  shows "engine_inv (owe k cls 1 nothing_owed) {} (e\<lparr>en_downlink := q\<rparr>)" and "k < 256"
    and "endpoints_at k (en_routes e) \<noteq> []"
    and "contents (en_downlink e) k cls = buffer_slice p # contents q k cls"
    and "\<not> (j = k \<and> c = cls) \<Longrightarrow> contents q j c = contents (en_downlink e) j c"
    and "packet_key (en_prefix e) (buffer_slice p) = Some k \<and> packet_class_of (buffer_slice p) = cls"
proof -
  have l: "lanes_ok nothing_owed {} (en_prefix e) (en_routes e) (en_downlink e)" using inv by (simp add: inv_parts)
  from dequeue_cases [OF lanes_okD(1) [OF l], of cls] d
  have q: "dq_inv (owe k cls 1 nothing_owed) q" and k: "k < 256"
    and act: "la_active_paths (dq_lanes (en_downlink e) ! k) \<noteq> 0"
    and hd: "contents (en_downlink e) k cls = buffer_slice p # contents q k cls"
    and other: "\<And>j c. \<not> (j = k \<and> c = cls) \<Longrightarrow> contents q j c = contents (en_downlink e) j c"
    by (metis One_nat_def option.distinct(1) option.inject prod.inject)+
  have sub: "set (contents q j c) \<subseteq> set (contents (en_downlink e) j c)" for j c
    using hd other [of j c] by (cases "j = k \<and> c = cls") auto
  show "engine_inv (owe k cls 1 nothing_owed) {} (e\<lparr>en_downlink := q\<rparr>)"
    by (rule inv_queue [OF inv q widths_dequeue [OF d]]) (use sub lanes_okD(2) [OF l] in blast)
  show "endpoints_at k (en_routes e) \<noteq> []"
    using act lanes_okD(3) [OF l k] by (auto simp: active_path_count_endpoints clip_paths_def)
  show "k < 256" "contents (en_downlink e) k cls = buffer_slice p # contents q k cls" by (fact k, fact hd)
  show "contents q j c = contents (en_downlink e) j c" if "\<not> (j = k \<and> c = cls)" by (rule other [OF that])
  show "packet_key (en_prefix e) (buffer_slice p) = Some k \<and> packet_class_of (buffer_slice p) = cls"
    by (rule lanes_okD(2) [OF l, of _ k cls]) (simp add: hd)
qed

lemma drain_step:
  assumes inv: "inv e" and d: "dq_dequeue cls (en_downlink e) = (Some (k, p), q)"
    and r: "send_down_key env k (buffer_slice p) cls (e\<lparr>en_downlink := q\<rparr>) = (result, e')"
  shows "result \<noteq> Stale"
    and "result = Backpressured \<Longrightarrow> carried e [] (e'\<lparr>en_downlink := dq_requeue_front k cls p (en_downlink e')\<rparr>)"
    and "result = Sent sid \<Longrightarrow>
      carried e [(sid, buffer_slice p)] (e'\<lparr>en_downlink := dq_recycle k cls p (en_downlink e')\<rparr>)"
proof -
  note st = dequeue_step [OF inv d]
  let ?e = "e\<lparr>en_downlink := q\<rparr>"
  have "endpoints_at k (en_routes ?e) \<noteq> []" using st(3) by simp
  note spec = send_down_key_spec [OF st(1) this r]
  have q: "en_downlink e' = q" "en_prefix e' = en_prefix e" using spec(4,5) by simp_all
  note lanes = lanes_okD [OF inv_lanes [OF spec(1)], unfolded q]
  note l = lanes(1) and c = lanes(2)
  have owed: "owe k cls 1 nothing_owed k cls = Suc 0"
    and none: "owe k cls 0 (owe k cls 1 nothing_owed) = nothing_owed" by (simp_all add: owe_def fun_eq_iff)
  note front = requeue_front_inv [OF l st(2) owed, of p, unfolded none]
  note freed = recycle_inv [OF l st(2) owed, of p, unfolded none]
  have faces: "faces_kept e (e'\<lparr>en_downlink := x\<rparr>)" for x
    using spec(2) by (simp add: faces_kept_def)
  show "result \<noteq> Stale" by (rule spec(3))
  show "carried e [] (e'\<lparr>en_downlink := dq_requeue_front k cls p (en_downlink e')\<rparr>)"
  proof -
    have same: "contents (dq_requeue_front k cls p q) j c = contents (en_downlink e) j c" for j c
      using front(2) st(4) st(5) [of j c] by (cases "j = k \<and> c = cls") auto
    have "inv (e'\<lparr>en_downlink := dq_requeue_front k cls p q\<rparr>)"
      by (rule inv_queue [OF spec(1) front(1)])
        (use same lanes_okD(2) [OF inv_lanes [OF inv]] in \<open>simp_all add: q\<close>)
    then show ?thesis using faces same by (simp add: carried_def sent_on_def q)
  qed
  show "carried e [(sid, buffer_slice p)] (e'\<lparr>en_downlink := dq_recycle k cls p (en_downlink e')\<rparr>)"
    if s: "result = Sent sid"
  proof -
    have "inv (e'\<lparr>en_downlink := dq_recycle k cls p q\<rparr>)"
      by (rule inv_queue [OF spec(1) freed(1)]) (simp_all add: q freed(2) c)
    moreover obtain ip where ip: "tunnel_of ?e sid ip" "route_index (en_prefix e) ip = Some k"
      using spec(6) [OF s] by auto
    then obtain i t where t: "slab_get (en_sessions e) i = Some t" "hs_tunnel_ip t = Some ip"
      by (auto simp: tunnel_of_def)
    have "length ip = 4" using inv_session_ok [OF inv t(1)] t(2) by (simp add: session_ok_def)
    then have "extract_dst_ipv4 (buffer_slice p) = Some ip"
      using packet_key_address [OF _ ip(2)] st(6) by blast
    moreover have "tunnel_of e sid ip" using ip(1) by (simp add: tunnel_of_def)
    moreover have "contents (en_downlink e) j c =
        sent_on (en_prefix e) j c [(sid, buffer_slice p)] @ contents q j c" for j c
      using st(4,6) st(5) [of j c] by (cases "j = k \<and> c = cls") (auto simp: sent_on_def)
    ultimately show ?thesis using faces by (auto simp: carried_def q freed(2))
  qed
qed

lemma drain_class_carried:
  "inv e \<Longrightarrow> drain_class env cls n e = (stop, remaining, sends, e') \<Longrightarrow> carried e sends e'"
proof (induction n arbitrary: e stop remaining sends e')
  case 0
  then show ?case using carried_refl by simp
next
  case (Suc n)
  note inv = Suc.prems(1)
  note l = lanes_okD(1) [OF inv_lanes [OF inv]] and c = lanes_okD(2) [OF inv_lanes [OF inv]]
  show ?case
  proof (cases "has_udp_tx_slot (en_sink e)")
    case False
    then show ?thesis using Suc.prems carried_refl by simp
  next
    case slot: True
    obtain r q where d: "dq_dequeue cls (en_downlink e) = (r, q)" by (rule prod.exhaust)
    show ?thesis
    proof (cases r)
      case None
      from dequeue_cases [OF l, of cls] d None have "dq_inv nothing_owed q" "contents q = contents (en_downlink e)"
        by (metis option.distinct(1) prod.inject)+
      then have "inv (e\<lparr>en_downlink := q\<rparr>)"
        using c by (intro inv_queue [OF inv _ widths_dequeue [OF d]]) simp_all
      then show ?thesis
        using Suc.prems slot d None \<open>contents q = _\<close>
        by (auto simp: carried_def sent_on_def faces_kept_def option.rel_refl)
    next
      case (Some kp)
      obtain k p where kp: "kp = (k, p)" by (rule prod.exhaust)
      obtain result e1 where s: "send_down_key env k (buffer_slice p) cls (e\<lparr>en_downlink := q\<rparr>) = (result, e1)"
        by (rule prod.exhaust)
      note step = drain_step [OF inv d [unfolded Some kp] s]
      show ?thesis
      proof (cases result)
        case Backpressured
        then show ?thesis using step(2) Suc.prems(2) slot d Some kp s by simp
      next
        case (Sent sid)
        obtain st1 rem1 sends1 e2 where rest: "drain_class env cls n
            (e1\<lparr>en_downlink := dq_recycle k cls p (en_downlink e1)\<rparr>) = (st1, rem1, sends1, e2)"
          by (metis prod.exhaust)
        note c = step(3) [OF Sent]
        have "carried (e1\<lparr>en_downlink := dq_recycle k cls p (en_downlink e1)\<rparr>) sends1 e2"
          using Suc.IH [OF _ rest] c by (simp add: carried_def)
        then show ?thesis
          using carried_trans [OF c] Suc.prems(2) slot d Some kp s rest Sent by auto
      qed (use step(1) in simp)
    qed
  qed
qed

lemma drain_classes_carried:
  "inv e \<Longrightarrow> drain_classes env classes n e = (sends, e') \<Longrightarrow> carried e sends e'"
proof (induction classes arbitrary: e n sends e')
  case Nil
  then show ?case using carried_refl by simp
next
  case (Cons cls rest)
  obtain stop rem xs e1 where d: "drain_class env cls n e = (stop, rem, xs, e1)" by (metis prod.exhaust)
  obtain ys e2 where r: "drain_classes env rest rem e1 = (ys, e2)" by (rule prod.exhaust)
  note c = drain_class_carried [OF Cons.prems(1) d]
  have "carried e1 ys e2" using Cons.IH [OF _ r] c by (simp add: carried_def)
  then show ?case using carried_trans [OF c] c Cons.prems(2) d r by (cases stop) auto
qed

lemma handle_tun_inv:
  assumes inv: "inv e"
  shows "inv (handle_tun_packet packet e)"
proof (cases "packet_key (en_prefix e) packet")
  case None
  then show ?thesis using inv by (simp add: handle_tun_packet_def)
next
  case (Some k)
  let ?cls = "packet_class_of packet"
  have l: "lanes_ok nothing_owed {} (en_prefix e) (en_routes e) (en_downlink e)" using inv by (simp add: inv_parts)
  obtain ok q where q: "dq_enqueue k ?cls packet (en_downlink e) = (ok, q)" by (rule prod.exhaust)
  note enq = enqueue_inv [OF lanes_okD(1) [OF l] q]
  have "inv (e\<lparr>en_downlink := q\<rparr>)"
  proof (rule inv_queue [OF inv enq(1)])
    show "widths q = widths (en_downlink e)" using widths_enqueue [of k ?cls packet "en_downlink e"] q by simp
    fix j c p
    assume "p \<in> set (contents q j c)"
    then show "packet_key (en_prefix e) p = Some j \<and> packet_class_of p = c"
      using enq(3) [of j c] Some lanes_okD(2) [OF l, of p j c] by (auto split: if_splits)
  qed
  then show ?thesis using Some q by (simp add: handle_tun_packet_def)
qed

end
