(* ===== verification/Server_Steps.thy ===== *)
theory Server_Steps
  imports Server_Downlink
begin

text \<open>
  Datagrams, compaction, the clock and the commands keep the invariant of the server's engine;
  the reachable states of the server.
\<close>

section \<open>Compaction\<close>

lemma rekey_inv:
  assumes inv: "inv e"
  shows "inv (rekey move e)"
proof (cases "\<exists>s. slab_get (en_sessions e) (fst move) = Some s \<and> slab_get (en_sessions e) (snd move) = None")
  case False
  then have "rekey move e = e" by (auto simp: rekey_def split: option.splits)
  then show ?thesis using inv by simp
next
  case True
  then obtain s where s: "slab_get (en_sessions e) (fst move) = Some s"
    and new: "slab_get (en_sessions e) (snd move) = None" by blast
  let ?ss = "slab_put (snd move) s (slab_remove (fst move) (en_sessions e))"
  have idx: "index_ok hs_id (en_sessions e) (en_by_id e)" "index_ok session_key (en_sessions e) (en_by_peer e)"
    and r: "routes_ok (en_prefix e) (en_sessions e) (en_routes e)" using inv by (simp_all add: inv_parts)
  have eq: "rekey move e = e\<lparr>en_sessions := ?ss,
      en_by_peer := AList.update (session_key s) (snd move) (en_by_peer e),
      en_by_id := AList.update (hs_id s) (snd move) (en_by_id e),
      en_routes := reslotted (en_prefix e) s (snd move) (en_routes e)\<rparr>"
    by (simp add: rekey_def s new reslotted_def)
  have "routes_ok (en_prefix e) ?ss (reslotted (en_prefix e) s (snd move) (en_routes e))"
    by (rule routes_ok_move [OF r idx(1) s new])
  moreover have "lanes_ok nothing_owed {} (en_prefix e) (reslotted (en_prefix e) s (snd move) (en_routes e))
      (en_downlink e)"
    by (rule lanes_ok_routes [OF inv_lanes [OF inv] reslotted_count [OF routes_ok_table [OF r]]]) simp
  moreover have "session_ok (en_credentials e) (en_next_id e) t" if "slab_get ?ss i = Some t" for i t
    using that inv_session_ok [OF inv] s by (auto split: if_splits)
  ultimately show ?thesis
    using inv by_id_index.index_move [OF idx(1) s new] by_peer_index.index_move [OF idx(2) s new]
    unfolding eq by (simp add: inv_parts)
qed

lemma fold_inv:
  assumes "\<And>x e. inv e \<Longrightarrow> inv (f x e)"
  shows "inv e \<Longrightarrow> inv (fold f xs e)"
  by (induction xs arbitrary: e) (simp_all add: assms)

lemma compact_inv: "inv e \<Longrightarrow> inv (compact_memory env force e)"
  using fold_inv [of rekey "mark_dirty e" "ev_moves env", OF rekey_inv] by (simp add: compact_memory_def)

section \<open>Datagrams\<close>

lemma write_up_inv:
  assumes inv: "inv e" and s: "slab_get (en_sessions e) i = Some s"
  shows "inv (snd (write_up env i s payload e))"
proof -
  obtain written sink where w: "write_tun_priority (ev_tun env) payload (packet_class_of payload) (en_sink e)
      = (written, sink)" by (rule prod.exhaust)
  have "sink_ok sink" using write_tun_priority_ok [OF inv_sink_ok [OF inv]] w by (metis snd_conv)
  note e = inv_sink [OF inv this]
  have "inv (put_session i (s\<lparr>hs_up_total := x\<rparr>) (e\<lparr>en_sink := sink\<rparr>))" for x
    by (rule inv_put_face [OF e]) (simp_all add: s same_face_def)
  then show ?thesis using e by (simp add: write_up_def w split: bool.split)
qed

lemma dispatch_inv:
  assumes inv: "inv e" and s: "slab_get (en_sessions e) i = Some s"
  shows "inv (snd (dispatch_inbound env i s plain e))"
proof -
  obtain ok e1 where t: "try_send_control (IngressBeforeTunnel (hs_peer s) (hs_id s) plain) e = (ok, e1)"
    by (rule prod.exhaust)
  have e1: "inv e1" "en_sessions e1 = en_sessions e"
    using t inv by (auto simp: try_send_control_def split: if_splits)
  have "inv (put_session i (s\<lparr>hs_pending_tunnel := True\<rparr>) e1)"
    by (rule inv_put_face [OF e1(1)]) (simp_all add: s e1(2) same_face_def)
  then show ?thesis
    using inv e1(1) send_to_inv(1) [OF inv s] write_up_inv [OF inv s]
    by (simp add: dispatch_inbound_def t case_prod_beta split: bool.split)
qed

lemma replay_session_ok:
  assumes "session_ok c n s" and "replay_accept seq (hs_replay s) = (ok, replay)"
  shows "session_ok c n (s\<lparr>hs_replay := replay\<rparr>)"
  using assms replay_accept_keeps(1) [of "hs_replay s" _ seq] by (auto simp: session_ok_def)

text \<open>The datagram came to the address of the session, or to one that no session of the peer has.\<close>

definition address_free :: "engine \<Rightarrow> hot_session \<Rightarrow> ip_addr option \<Rightarrow> bool" where
  "address_free e s local_ip \<longleftrightarrow> local_ip = hs_local_ip s \<or> map_of (en_by_peer e) (hs_peer s, local_ip) = None"

lemma accept_inv:
  assumes inv: "inv e" and s: "slab_get (en_sessions e) i = Some s" and free: "address_free e s local_ip"
  shows "inv (snd (accept_inbound env i s local_ip d e))"
proof -
  obtain ok replay where r: "replay_accept (dp_seq d) (hs_replay s) = (ok, replay)" by (rule prod.exhaust)
  note sok = replay_session_ok [OF inv_session_ok [OF inv s] r]
  have "inv (put_session i (s\<lparr>hs_replay := replay\<rparr>) e)"
    by (rule inv_put [OF inv s]) (simp_all add: sok session_key_def)
  moreover define u where "u = s\<lparr>hs_replay := replay, hs_last_inbound_ms := en_monotonic_ms e\<rparr>"
  have u: "hs_id u = hs_id s" "session_key u = session_key s" "hs_registration_id u = hs_registration_id s"
    "hs_tunnel_ip u = hs_tunnel_ip s" by (simp_all add: u_def session_key_def)
  have uok: "session_ok (en_credentials e) (en_next_id e) u" using sok by (simp add: u_def session_ok_def)
  have "inv (put_session i u e)" by (rule inv_put [OF inv s u uok])
  then have stay: "inv (snd (dispatch_inbound env i u plain (put_session i u e)))" for plain
    by (rule dispatch_inv) (simp add: put_session_def)
  have move: "inv (snd (dispatch_inbound env i (u\<lparr>hs_local_ip := local_ip\<rparr>) plain
      (put_session i (u\<lparr>hs_local_ip := local_ip\<rparr>) (e\<lparr>en_by_peer :=
        AList.update (session_key (u\<lparr>hs_local_ip := local_ip\<rparr>)) i
          (AList.delete (session_key u) (en_by_peer e))\<rparr>))))"
    if moved: "hs_local_ip u \<noteq> local_ip" for plain
  proof (rule dispatch_inv)
    let ?m = "u\<lparr>hs_local_ip := local_ip\<rparr>"
    have idx: "index_ok hs_id (en_sessions e) (en_by_id e)" "index_ok session_key (en_sessions e) (en_by_peer e)"
      and ro: "routes_ok (en_prefix e) (en_sessions e) (en_routes e)" using inv by (simp_all add: inv_parts)
    have "map_of (en_by_peer e) (session_key ?m) = None"
      using free moved by (auto simp: address_free_def session_key_def u_def)
    note peers = by_peer_index.index_rekey [OF idx(2) s this]
    have "routes_ok (en_prefix e) (slab_put i ?m (en_sessions e)) (en_routes e)"
      by (rule routes_okI [OF routes_ok_table [OF ro]])
        (rule endpoint_live_put [OF routes_okD [OF ro] s], simp_all add: u)
    moreover have "session_ok (en_credentials e) (en_next_id e) ?m" using uok by (simp add: session_ok_def)
    moreover have "hs_id ?m = hs_id s" by (simp add: u(1))
    ultimately show "inv (put_session i ?m (e\<lparr>en_by_peer := AList.update (session_key ?m) i
        (AList.delete (session_key u) (en_by_peer e))\<rparr>))"
      using inv peers by_id_index.index_same [OF idx(1) s, of ?m] by (simp add: inv_parts put_session_def u(2))
  qed (simp add: put_session_def)
  ultimately show ?thesis
    using stay move by (simp add: accept_inbound_def r Let_def u_def [symmetric] split: bool.split)
qed

lemma touch_epoch_inv [simp]:
  "engine_inv owed K (touch_epoch dev e) = engine_inv owed K e" "en_sessions (touch_epoch dev e) = en_sessions e"
  "en_by_peer (touch_epoch dev e) = en_by_peer e" "en_next_id (touch_epoch dev e) = en_next_id e"
  "en_credentials (touch_epoch dev e) = en_credentials e"
  by (simp_all add: touch_epoch_def split: option.split)

lemma replace_inv:
  assumes inv: "inv e" and env: "env_ok env" and bound: "en_next_id e \<noteq> - 1"
    and s: "slab_get (en_sessions e) i = Some s"
  shows "inv (replace_session env i s local_ip d dev gen salt e)"
proof -
  have "hs_password s \<in> fst ` set (en_credentials e)" using inv_session_ok [OF inv s] by (simp add: session_ok_def)
  then show ?thesis
    using create_inv [OF remove_slot_inv [OF inv] env] bound
    by (simp add: replace_session_def case_prod_beta)
qed

lemma existing_inv:
  assumes inv: "inv e" and env: "env_ok env" and bound: "en_next_id e \<noteq> - 1"
    and free: "\<And>s. slab_get (en_sessions e) i = Some s \<Longrightarrow> address_free e s local_ip"
  shows "inv (snd (handle_existing env i local_ip wire e))"
proof (cases "slab_get (en_sessions e) i")
  case None
  then show ?thesis using inv by (simp add: handle_existing_def)
next
  case (Some s)
  have acc: "inv (snd (accept_inbound env i s local_ip d e))" for d
    by (rule accept_inv [OF inv Some free [OF Some]])
  have touched: "inv (touch_epoch dev e)" for dev using inv by simp
  have acc': "inv (snd (accept_inbound env i s local_ip d (touch_epoch dev e)))" for d dev
    by (rule accept_inv [OF touched]) (use Some free [OF Some] in \<open>simp_all add: address_free_def\<close>)
  have rep: "inv (replace_session env i s local_ip d dev gen salt (touch_epoch dev e))" for d dev gen salt
    by (rule replace_inv [OF touched env]) (simp_all add: bound Some)
  show ?thesis
    using inv acc acc' rep touched Some
    by (simp add: handle_existing_def Let_def split: sum.split option.split getconf_reconnect_action.split)
qed

lemma find_credential_mem:
  "find_credential wire cs = Some (password, key, d, dev, gen, salt) \<Longrightarrow> (password, key) \<in> set cs"
  by (induction wire cs rule: find_credential.induct) (auto split: sum.splits option.splits)

lemma unknown_inv:
  assumes inv: "inv e" and env: "env_ok env" and bound: "en_next_id e \<noteq> - 1"
  shows "inv (handle_unknown_legacy env p local_ip wire e)"
proof -
  have e: "inv (e\<lparr>en_setup_budget := n\<rparr>)" for n using inv by simp
  have denied: "inv (e\<lparr>en_setup_budget := n, en_sink := snd (send_udp p local_ip m (en_sink e))\<rparr>)" for n m
    by (rule inv_sink [OF e send_udp_ok [OF inv_sink_ok [OF inv]]])
  have created: "inv (snd (create_legacy_session env p local_ip password key pt srtp dev gen salt seq
      (e\<lparr>en_setup_budget := n\<rparr>)))"
    if "find_credential wire (en_credentials e) = Some (password, key, d, dev, gen, salt)"
    for n password key pt srtp dev gen salt seq d
    by (rule create_inv [OF e env]) (use bound find_credential_mem [OF that] in \<open>force simp: image_iff\<close>)+
  show ?thesis
    using e denied created by (auto simp: handle_unknown_legacy_def Let_def inv case_prod_beta split: option.split)
qed

lemma on_udp_inv:
  assumes inv: "inv e" and env: "env_ok env" and bound: "en_next_id e \<noteq> - 1"
  shows "inv (snd (on_udp env p local_ip wire e))"
proof -
  have idx: "index_ok session_key (en_sessions e) (en_by_peer e)" using inv by (simp add: inv_parts)
  have found: "hs_peer s = p \<and> hs_local_ip s = l"
    if "map_of (en_by_peer e) (p, l) = Some i" "slab_get (en_sessions e) i = Some s" for i s l
    using by_peer_index.index_found [OF idx that(1)] that(2) by (fastforce simp: session_key_def)
  show ?thesis
  proof (cases "map_of (en_by_peer e) (p, local_ip)")
    case (Some i)
    then show ?thesis
      using existing_inv [OF inv env bound, of i local_ip] found [OF Some]
      by (simp add: on_udp_def address_free_def)
  next
    case None
    have "inv (snd (handle_existing env i local_ip wire e))" if "map_of (en_by_peer e) (p, None) = Some i" for i
      by (rule existing_inv [OF inv env bound]) (use found [OF that] None in \<open>simp add: address_free_def\<close>)
    then show ?thesis
      using None unknown_inv [OF inv env bound] by (simp add: on_udp_def split: option.split)
  qed
qed

section \<open>The clock\<close>

lemma send_stream_control_inv: "inv e \<Longrightarrow> inv (snd (send_stream_control env payload carriers n e))"
proof (induction carriers arbitrary: n e)
  case (Cons i carriers)
  show ?case
  proof (cases "slab_get (en_sessions e) i")
    case None
    then show ?thesis using Cons by simp
  next
    case (Some s)
    obtain ok t sink where p: "send_plain env payload s (en_sink e) = (ok, t, sink)" by (metis prod.exhaust)
    have "inv (send_to env i payload e)" by (rule send_to_inv(1) [OF Cons.prems Some])
    then have "inv (put_session i t (e\<lparr>en_sink := sink\<rparr>))" using Some p by (simp add: send_to_def with_session_def)
    then show ?thesis using Cons Some p by simp
  qed
qed simp

lemma reconcile_inv:
  assumes "inv e"
  shows "inv (engine_reconcile env e)"
proof -
  have "inv (perform_action env a e')" if "inv e'" for a e'
    using send_stream_control_inv [OF that] by (auto simp: perform_action_def case_prod_beta split: option.split)
  then have "inv e' \<Longrightarrow> inv (fold (perform_action env) actions e')" for actions e' by (rule fold_inv)
  then show ?thesis using assms by (simp add: engine_reconcile_def case_prod_beta)
qed

lemma sweep_inv [simp]: "engine_inv owed K (sweep_idle_epochs e) = engine_inv owed K e"
  by (simp add: sweep_idle_epochs_def Let_def)

lemma publish_slot_inv:
  assumes inv: "inv e"
  shows "inv (publish_slot i e)"
proof (cases "slab_get (en_sessions e) i")
  case (Some s)
  obtain t globals where p: "publish_counters (en_wall_now e) s (en_global e) = (t, globals)" by (rule prod.exhaust)
  have "inv (put_session i t (e\<lparr>en_global := globals\<rparr>))"
    by (rule inv_put_face [OF _ _ publish_same_face [OF p]]) (simp_all add: inv Some)
  then show ?thesis using Some p by (simp add: publish_slot_def)
qed (use inv in \<open>simp add: publish_slot_def\<close>)

lemma maintain_inv:
  assumes "inv e"
  shows "inv (maintain_sessions e)"
proof -
  have "inv (fold publish_slot L (e\<lparr>en_last_maintenance_ms := n\<rparr>))" for L n
    by (rule fold_inv [OF publish_slot_inv]) (use assms in simp_all)
  then show ?thesis
    using assms fold_remove(1) [OF remove_idle_def] by (simp add: maintain_sessions_def Let_def)
qed

lemma on_tick_inv: "inv e \<Longrightarrow> inv (on_tick env elapsed_ms wall_now e)"
  using compact_inv reconcile_inv maintain_inv by (simp add: on_tick_def Let_def)

section \<open>Commands\<close>

lemma found_session:
  assumes "inv e" and "map_of (en_by_id e) sid = Some i"
  obtains s where "slab_get (en_sessions e) i = Some s" and "hs_id s = sid"
  using assms by_id_index.index_found [of "en_sessions e" "en_by_id e" sid i] by (auto simp: inv_parts)

lemma send_found_inv:
  assumes inv: "inv e"
  shows "inv (case map_of (en_by_id e) sid of None \<Rightarrow> e | Some i \<Rightarrow> send_to env i payload e)"
proof (cases "map_of (en_by_id e) sid")
  case (Some i)
  then obtain s where s: "slab_get (en_sessions e) i = Some s" by (rule found_session [OF inv])
  show ?thesis using Some send_to_inv(1) [OF inv s] by simp
qed (use inv in simp)

lemma fold_send_inv:
  assumes "inv e" and "\<And>i. i \<in> set L \<Longrightarrow> slab_get (en_sessions e) i \<noteq> None"
  shows "inv (fold (\<lambda>i. send_to env i payload) L e)"
  using assms
proof (induction L arbitrary: e)
  case (Cons i L)
  obtain s where s: "slab_get (en_sessions e) i = Some s" using Cons.prems(2) [of i] by auto
  note st = send_to_inv [OF Cons.prems(1) s, of env payload]
  have "slab_get (en_sessions (send_to env i payload e)) j \<noteq> None" if j: "j \<in> set L" for j
  proof -
    obtain u where u: "slab_get (en_sessions e) j = Some u" using Cons.prems(2) [of j] j by auto
    show ?thesis using faces_keptD [OF st(2) u] by auto
  qed
  then show ?case using Cons.IH [OF st(1)] by simp
qed simp

text \<open>Tunnel addresses are arrays of four bytes.\<close>

fun command_ok :: "protocol_command \<Rightarrow> bool" where
  "command_ok (ActivateTunnel sid ip r w n) = (length ip = 4)"
| "command_ok _ = True"

lemma credentials_inv:
  assumes inv: "inv e"
  shows "inv ((remove_sessions (\<lambda>s. hs_password s \<notin> fst ` set cs) reason e)\<lparr>en_credentials := cs\<rparr>)"
proof -
  let ?e = "remove_sessions (\<lambda>s. hs_password s \<notin> fst ` set cs) reason e"
  have inv': "inv ?e" by (rule remove_sessions_inv [OF inv])
  have "session_ok cs (en_next_id ?e) t" if t: "slab_get (en_sessions ?e) i = Some t" for i t
  proof -
    obtain s where "publicly s t" "hs_password s \<in> fst ` set cs"
      using remove_sessions_survivor [OF t] by blast
    then have "hs_password t \<in> fst ` set cs" using publicly_face [of s t] by (simp add: same_face_def)
    then show ?thesis using inv_session_ok [OF inv' t] by (simp add: session_ok_def)
  qed
  then show ?thesis using inv' by (simp add: inv_parts)
qed

lemma on_command_inv:
  assumes inv: "inv e" and c: "command_ok c"
  shows "inv (snd (on_command env c e))"
proof (cases c)
  case (SendPlain sid payload)
  then show ?thesis using send_found_inv [OF inv] by simp
next
  case (BroadcastPlain payload)
  have "inv (fold (\<lambda>i. send_to env i payload) (map fst (slab_entries (en_sessions e))) e)"
    by (rule fold_send_inv [OF inv]) auto
  then show ?thesis using BroadcastPlain by simp
next
  case (InjectTun sid payload)
  show ?thesis
  proof (cases "map_of (en_by_id e) sid")
    case (Some i)
    then obtain s where "slab_get (en_sessions e) i = Some s" by (rule found_session [OF inv])
    then show ?thesis using InjectTun Some write_up_inv [OF inv] by (simp add: case_prod_beta)
  qed (use InjectTun inv in simp)
next
  case (DisconnectDevice dev sid)
  then show ?thesis using remove_sessions_inv [OF send_found_inv [OF inv]] by (simp add: Let_def)
next
  case (DropSession sid)
  then show ?thesis using inv remove_slot_inv [OF inv] by (simp split: option.split)
qed (use inv c activate_inv remove_tunnel_inv update_epoch_inv remove_sessions_inv credentials_inv compact_inv
  in \<open>simp_all add: Let_def\<close>)

section \<open>Reachable states\<close>

lemma shared_write_inv:
  assumes inv: "inv e"
  shows "inv (shared_write sid p e)"
proof (cases "map_of (en_by_id e) sid")
  case (Some i)
  then obtain s where s: "slab_get (en_sessions e) i = Some s" by (rule found_session [OF inv])
  have "inv (put_session i (s\<lparr>hs_public := p\<rparr>) e)" by (rule inv_put_face [OF inv s]) (simp add: same_face_def)
  then show ?thesis using Some s by (simp add: shared_write_def with_session_def)
qed (use inv in \<open>simp add: shared_write_def\<close>)

fun event_ok :: "engine_event \<Rightarrow> bool" where
  "event_ok (Command c) = command_ok c"
| "event_ok _ = True"

theorem engine_step_inv:
  assumes inv: "inv e" and env: "env_ok env" and bound: "en_next_id e \<noteq> - 1" and ev: "event_ok ev"
  shows "inv (snd (engine_step env ev e))"
proof (cases ev)
  case TunBatchEnd
  have "carried e (fst (drain_downlink env e)) (snd (drain_downlink env e))"
    unfolding drain_downlink_def by (rule drain_classes_carried [OF inv prod.collapse [symmetric]])
  then show ?thesis using TunBatchEnd by (simp add: carried_def)
next
  case (FlushUdp io n)
  have "sink_ok (snd (flush_udp_tx io n (en_sink e)))"
    using flush_udp_tx_drains [OF inv_sink_ok [OF inv]] by (simp add: drained_def)
  then show ?thesis using FlushUdp inv_sink [OF inv] by simp
next
  case (FlushTun io)
  then show ?thesis using inv_sink [OF inv flush_tun_tx_ok [OF inv_sink_ok [OF inv]]] by simp
qed (use inv ev on_udp_inv [OF inv env bound] handle_tun_inv on_command_inv on_tick_inv shared_write_inv in simp_all)

text \<open>The states of a server from its start, as long as the 64-bit session counter has not run out.\<close>

inductive reachable :: "engine \<Rightarrow> bool" where
  start: "reachable (engine_new net credentials epochs profile wall_now)"
| step: "reachable e \<Longrightarrow> env_ok env \<Longrightarrow> event_ok ev \<Longrightarrow> en_next_id e \<noteq> - 1 \<Longrightarrow>
    reachable (snd (engine_step env ev e))"

lemma reachable_inv: "reachable e \<Longrightarrow> inv e"
  by (induction rule: reachable.induct) (simp_all add: new_inv engine_step_inv)

end
