(* ===== verification/Server_Props.thy ===== *)
theory Server_Props
  imports Server_Steps
begin

text \<open>
  The properties of the server's engine, over all its reachable states, and a small server with
  one client on which they are applied.
\<close>

section \<open>Uplink\<close>








section \<open>A small server\<close>

text \<open>One password, and ciphers that leave the text as it is and check nothing; they satisfy what the
  engine relies on.\<close>

definition small_crypto :: crypto where
  "small_crypto = \<lparr>aes_ctr = (\<lambda>_ m. m), hmac_sha1 = (\<lambda>_. replicate 20 0),
     aead_seal = (\<lambda>_ _ m. (m, replicate 16 1)), aead_open = (\<lambda>_ _ _ ct. Some ct)\<rparr>"

definition small_wire :: "u16 \<Rightarrow> bytes \<Rightarrow> bytes" where
  "small_wire seq m = [0x80, 111] @ to_be seq @ replicate 8 0 @ m @ replicate 16 1"

definition small_env :: engine_env where
  "small_env = \<lparr>ev_vacant = length, ev_random = (\<lambda>_. replicate 12 0), ev_wall_ms = 0,
     ev_draws = (\<lambda>_ _. \<lparr>padding_random = 0, padding_bytes = [], marker = False\<rparr>), ev_elapsed = (\<lambda>_. (0, 0)),
     ev_now = 0, ev_tun = TunWritten, ev_capacity = 128, ev_moves = []\<rparr>"

lemma small_env_ok: "env_ok small_env"
  by (simp add: env_ok_def small_env_def slab_get_def get_at_def)

lemma small_unwrap:
  assumes "m \<noteq> []" and "x \<noteq> Some True"
  shows "unwrap_legacy_in_place small_crypto x (small_wire seq m) =
    Inr \<lparr>dp_payload = m, dp_seq = seq, dp_payload_type = 111, dp_is_srtp = False\<rparr>"
proof -
  have len: "length (small_wire seq m) = 28 + length m" by (simp add: small_wire_def)
  have b: "small_wire seq m ! 0 = 0x80" "small_wire seq m ! 1 = 111" by (simp_all add: small_wire_def)
  have s: "be16 (small_wire seq m) 2 = seq"
    by (simp add: be16_def small_wire_def from_be_to_be_16)
  have h: "rtp_header_len (small_wire seq m) = Inr 12"
    using len b by (simp add: rtp_header_len_def)
  define pre where "pre = [0x80, 111] @ to_be seq @ replicate 8 0 @ m @ replicate 6 1"
  have "small_wire seq m = pre @ replicate 10 1"
    using replicate_add [of 6 10 "1 :: u8"] by (simp add: small_wire_def pre_def)
  moreover have "length pre = 18 + length m" by (simp add: pre_def)
  ultimately have tag: "drop (18 + length m) (small_wire seq m) = replicate 10 1"
    by (simp add: drop_append)
  have ct: "take (length m) (drop 12 (small_wire seq m)) = m" by (simp add: small_wire_def)
  have "unwrap_aead small_crypto 12 (small_wire seq m) =
    Inr \<lparr>dp_payload = m, dp_seq = seq, dp_payload_type = 111, dp_is_srtp = False\<rparr>"
    using len b s ct assms(1) by (simp add: unwrap_aead_def Let_def small_crypto_def)
  then show ?thesis
    using h len b tag assms(2) by (simp add: unwrap_legacy_in_place_def Let_def small_crypto_def)
qed

definition small_peer :: peer where
  "small_peer = (V4 10 0 0 9, 4000)"

definition small_start :: engine where
  "small_start = engine_new [10, 66, 66] [(chars ''pw'', small_crypto)] [] Off 0"

definition small_hello :: bytes where
  "small_hello = utf8_ascii (config_request (chars ''1'') (chars ''d'') (chars ''pw'') 0 (chars ''x'') 1 1)"

definition small_session :: hot_session where
  "small_session = (hot_session_legacy small_env 1 small_peer None (chars ''pw'') small_crypto 111 False
     (chars ''d'') 0 (chars ''x'') Off 1 0)\<lparr>hs_replay := snd (replay_accept 0 replay_new)\<rparr>"

definition small_joined :: engine where
  "small_joined = snd (engine_step small_env (Udp small_peer None (small_wire 0 small_hello)) small_start)"

lemma small_hello_parsed: "parse_getconf_epoch small_hello = Some (chars ''d'', 0, chars ''x'')"
proof -
  have "plain_field (chars ''1'')" "plain_field (chars ''d'')" "plain_field (chars ''pw'')"
    "plain_field (chars ''x'')" by (simp_all add: plain_field_def chars_def bar_def is_whitespace_def)
  then show ?thesis
    using config_request_is_read_back [of "chars ''1''" "chars ''d''" "chars ''pw''" "chars ''x''" 0 1 1]
    by (simp add: small_hello_def chars_def)
qed

lemma small_hello_length: "length small_hello = 22"
proof -
  have "decimal 0 = [48]" "decimal 1 = [49]" by (simp_all add: decimal.simps)
  then show ?thesis by (simp add: small_hello_def utf8_ascii_def config_request_def chars_def)
qed

lemma small_joined_state:
  "en_sessions small_joined = [Some small_session]" "en_by_peer small_joined = [((small_peer, None), 0)]"
  "en_by_id small_joined = [(1, 0)]" "en_next_id small_joined = 2" "en_routes small_joined = table_new"
  "en_downlink small_joined = downlink_default" "en_sink small_joined = sink_new"
  "en_prefix small_joined = [10, 66, 66]"
proof -
  have "small_hello \<noteq> []" using small_hello_length by auto
  note un = small_unwrap [OF this, of None 0]
  have len: "length (small_wire 0 small_hello) = 50" by (simp add: small_wire_def small_hello_length)
  note defs = small_joined_def small_start_def engine_new_def on_udp_def handle_unknown_legacy_def
    create_legacy_session_def tell_payload_def tell_eq mark_dirty_def small_session_def Let_def
  show "en_sessions small_joined = [Some small_session]" "en_by_peer small_joined = [((small_peer, None), 0)]"
    "en_by_id small_joined = [(1, 0)]" "en_next_id small_joined = 2" "en_routes small_joined = table_new"
    "en_downlink small_joined = downlink_default" "en_sink small_joined = sink_new"
    "en_prefix small_joined = [10, 66, 66]"
    by (simp_all add: defs un small_hello_parsed len slab_entries_def MAX_ACTIVE_SESSIONS_def
      SERVER_PACKET_CAPACITY_def SETUP_BUDGET_PER_TICK_def hot_session_legacy_def small_env_def slab_put_def
      slab_get_def get_at_def)
qed

definition small_address :: bytes where
  "small_address = [10, 66, 66, 2]"

definition small_ready :: engine where
  "small_ready = snd (engine_step small_env (Command (ActivateTunnel 1 small_address 7 1 1)) small_joined)"

definition small_tunnel :: hot_session where
  "small_tunnel = small_session\<lparr>hs_tunnel_ip := Some small_address, hs_registration_id := Some 7,
     hs_desired_stream_count := 1, hs_pending_tunnel := False,
     hs_public := (hs_public small_session)\<lparr>pub_tunnel_ip := Some small_address,
       pub_desired_stream_count := 1, pub_has_tunnel := True\<rparr>\<rparr>"

definition small_routes :: route_table where
  "small_routes = snd (table_register [10, 66, 66] small_address 1 7 1 0 table_new)"

lemma small_index: "route_index [10, 66, 66] small_address = Some 2"
  by (simp add: route_index_def small_address_def)

lemma small_ready_state:
  "en_sessions small_ready = [Some small_tunnel]" "en_by_peer small_ready = [((small_peer, None), 0)]"
  "en_by_id small_ready = [(1, 0)]" "en_next_id small_ready = 2" "en_sink small_ready = sink_new"
  "en_routes small_ready = small_routes" "en_prefix small_ready = [10, 66, 66]"
  "en_downlink small_ready = dq_configure 2 (active_path_count 2 small_routes) downlink_default"
proof -
  have none: "hs_tunnel_ip small_session = None" by (simp add: small_session_def hot_session_legacy_def)
  have reg: "table_register [10, 66, 66] small_address 1 7 1 0 table_new = (True, small_routes)"
    using small_index by (simp add: small_routes_def table_register_def)
  note defs = small_ready_def activate_tunnel_def small_joined_state none reg put_session_def mark_dirty_def
    sync_downlink_profile_def tunnel_key_def small_index Let_def slab_get_def get_at_def slab_put_def small_tunnel_def
  show "en_sessions small_ready = [Some small_tunnel]" "en_by_peer small_ready = [((small_peer, None), 0)]"
    "en_by_id small_ready = [(1, 0)]" "en_next_id small_ready = 2" "en_sink small_ready = sink_new"
    "en_routes small_ready = small_routes" "en_prefix small_ready = [10, 66, 66]"
    "en_downlink small_ready = dq_configure 2 (active_path_count 2 small_routes) downlink_default"
    by (simp_all add: defs)
qed

lemma small_reachable: "reachable small_start" "reachable small_joined" "reachable small_ready"
proof -
  show a: "reachable small_start" unfolding small_start_def by (rule reachable.start)
  have "en_next_id small_start \<noteq> - 1" by (simp add: small_start_def engine_new_def)
  then show b: "reachable small_joined"
    unfolding small_joined_def by (intro reachable.step [OF a small_env_ok]) simp_all
  have "en_next_id small_joined \<noteq> - 1" by (simp add: small_joined_state)
  then show "reachable small_ready"
    unfolding small_ready_def by (intro reachable.step [OF b small_env_ok]) (simp_all add: small_address_def)
qed

lemma small_ready_found:
  "slab_get (en_sessions small_ready) 0 = Some small_tunnel"
  "map_of (en_by_peer small_ready) (small_peer, None) = Some 0"
  by (simp_all add: small_ready_state slab_get_def get_at_def)

lemma small_tunnel_fields:
  "hs_crypto small_tunnel = small_crypto" "hs_is_srtp small_tunnel = False" "hs_id small_tunnel = 1"
  "hs_replay small_tunnel = snd (replay_accept 0 replay_new)" "hs_tunnel_ip small_tunnel = Some small_address"
  "hs_registration_id small_tunnel = Some 7" "hs_local_ip small_tunnel = None" "hs_peer small_tunnel = small_peer"
  "hs_device_id small_tunnel = chars ''d''" "hs_generation_id small_tunnel = 0" "hs_session_salt small_tunnel = chars ''x''"
  "hs_password small_tunnel = chars ''pw''"
  by (simp_all add: small_tunnel_def small_session_def hot_session_legacy_def)




section \<open>Downlink\<close>

text \<open>The packets of a lane among the traffic of a step, in their order.\<close>

definition down_on :: "bytes \<Rightarrow> nat \<Rightarrow> packet_class \<Rightarrow> traffic list \<Rightarrow> bytes list" where
  "down_on net k cls xs =
     concat (map (\<lambda>x. case x of
         Down sid p \<Rightarrow> if packet_key net p = Some k \<and> packet_class_of p = cls then [p] else []
       | Up sid p \<Rightarrow> []) xs)"

lemma down_on_sends: "down_on net k cls (map (case_prod Down) sends) = sent_on net k cls sends"
  by (induction sends) (auto simp: down_on_def sent_on_def)

text \<open>C4: Packets go down to their client and to nobody else. In every reachable state of the server, a packet
  of the network device that a drain hands to a session is addressed to the tunnel address of
  this session, and the session is live; of every client's queue of every class a drain sends
  a prefix, in its order, and keeps the rest, so that no queued packet is lost to a stale
  route.\<close>

theorem packets_go_down_to_their_client:
  assumes "reachable e" and "engine_step env TunBatchEnd e = (xs, e')"
  shows "(\<forall>sid p. Down sid p \<in> set xs \<longrightarrow> (\<exists>i s ip. slab_get (en_sessions e) i = Some s \<and> hs_id s = sid
        \<and> hs_tunnel_ip s = Some ip \<and> extract_dst_ipv4 p = Some ip))
    \<and> contents (en_downlink e) k cls = down_on (en_prefix e) k cls xs @ contents (en_downlink e') k cls"
proof -
  obtain sends where d: "drain_downlink env e = (sends, e')" and xs: "xs = map (case_prod Down) sends"
    using assms(2) by (cases "drain_downlink env e") auto
  have c: "carried e sends e'"
    using drain_classes_carried [OF reachable_inv [OF assms(1)]] d unfolding drain_downlink_def by blast
  have "\<exists>i s ip. slab_get (en_sessions e) i = Some s \<and> hs_id s = sid \<and> hs_tunnel_ip s = Some ip
      \<and> extract_dst_ipv4 p = Some ip" if "(sid, p) \<in> set sends" for sid p
    using c that unfolding carried_def tunnel_of_def by blast
  then have "\<forall>sid p. Down sid p \<in> set xs \<longrightarrow> (\<exists>i s ip. slab_get (en_sessions e) i = Some s \<and> hs_id s = sid
        \<and> hs_tunnel_ip s = Some ip \<and> extract_dst_ipv4 p = Some ip)" unfolding xs by auto
  moreover have "contents (en_downlink e) k cls = down_on (en_prefix e) k cls xs @ contents (en_downlink e') k cls"
    unfolding xs down_on_sends using c unfolding carried_def by blast
  ultimately show ?thesis by blast
qed

definition small_packet :: bytes where
  "small_packet = [0x45, 0, 0, 20, 0, 0, 0, 0, 64, 0, 0, 0, 10, 0, 0, 1, 10, 66, 66, 2]"

lemma small_packet_facts:
  "packet_key [10, 66, 66] small_packet = Some 2" "packet_class_of small_packet = Bulk" "length small_packet = 20"
proof -
  show "packet_key [10, 66, 66] small_packet = Some 2"
    by (simp add: packet_key_def extract_dst_ipv4_def small_packet_def route_index_def)
  show "packet_class_of small_packet = Bulk" by code_simp
  show "length small_packet = 20" by (simp add: small_packet_def)
qed

lemma small_send:
  "\<exists>t sink. send_plain_mode small_env Bulk small_packet small_tunnel sink_new = (True, t, sink)"
proof -
  have f: "hs_fec_profile small_tunnel = Off"
    by (simp add: small_tunnel_def small_session_def hot_session_legacy_def)
  obtain out w where w: "wrap_legacy_into small_crypto False (ev_draws small_env 1 (ou_count (hs_output small_tunnel)))
      (ev_elapsed small_env 1) (hs_output small_tunnel) small_packet = (out, Inr w)" and len: "length w \<le> SERVER_PACKET_CAPACITY"
    by (simp add: wrap_legacy_into_def Let_def small_crypto_def small_env_def small_packet_facts
      SERVER_PACKET_CAPACITY_def legacy_header_def)
  obtain i free where tx: "tx_free (ps_udp sink_new) = i # free"
    by (cases "tx_free (ps_udp sink_new)") (simp_all add: sink_new_def tx_new_def UDP_TX_SLOTS_def)
  obtain b pool where acq: "server_try_acquire (ps_pool sink_new) = Some (b, pool)"
    by (simp add: sink_new_def server_pool_new_def pool_new_def server_try_acquire_def acquire_storage_def
      server_packet_pool_size_def UDP_TX_SLOTS_def Let_def)
  have "\<exists>b'. server_copy_from w b = (True, b')" using len by (simp add: server_copy_from_def)
  then show ?thesis
    by (auto simp: send_plain_mode_def duplication_copies_def f small_tunnel_fields w
      send_udp_with_duplicate_priority_def tx acq Let_def)
qed

lemma drain_idle:
  assumes inv: "inv e" and "\<And>k. contents (en_downlink e) k cls = []"
  obtains q where "drain_class env cls (Suc n) e =
      (\<not> has_udp_tx_slot (en_sink e), Suc n, [], e\<lparr>en_downlink := q\<rparr>)"
    and "inv (e\<lparr>en_downlink := q\<rparr>)" and "contents q = contents (en_downlink e)"
proof (cases "has_udp_tx_slot (en_sink e)")
  case False
  then show ?thesis using that [of "en_downlink e"] inv by simp
next
  case True
  note l = inv_lanes [OF inv]
  obtain r q where d: "dq_dequeue cls (en_downlink e) = (r, q)" by (rule prod.exhaust)
  from dequeue_cases [OF lanes_okD(1) [OF l], of cls] d assms(2)
  have "r = None" and q: "dq_inv nothing_owed q" "contents q = contents (en_downlink e)"
    by (metis list.distinct(1) prod.inject)+
  moreover have "inv (e\<lparr>en_downlink := q\<rparr>)"
    by (rule inv_queue [OF inv q(1) widths_dequeue [OF d]]) (use q(2) lanes_okD(2) [OF l] in simp)
  ultimately show ?thesis using that [of q] d True by simp
qed

definition small_queued :: engine where
  "small_queued = snd (engine_step small_env (Tun small_packet) small_ready)"

lemma small_paths: "active_path_count 2 small_routes = 1"
proof -
  have "table_new ! 2 = None" by (simp add: table_new_def)
  then have "group_at 2 small_routes = Some (group_register
      \<lparr>ep_session_id = 1, ep_registration_id = 7, ep_worker_id = 1, ep_slot = 0\<rparr> group_default)"
    using small_index by (simp add: small_routes_def table_register_def group_at_def get_at_def table_new_def)
  then show ?thesis by (simp add: active_path_count_def group_register_def group_default_def)
qed

lemma small_queued_state:
  "reachable small_queued" "en_sessions small_queued = [Some small_tunnel]" "en_sink small_queued = sink_new"
  "en_prefix small_queued = [10, 66, 66]"
  "contents (en_downlink small_queued) k cls = (if k = 2 \<and> cls = Bulk then [small_packet] else [])"
proof -
  let ?q = "dq_configure 2 1 downlink_default"
  obtain ok q where q: "dq_enqueue 2 Bulk small_packet ?q = (ok, q)" by (rule prod.exhaust)
  have e: "small_queued = small_ready\<lparr>en_downlink := q\<rparr>"
    using q by (simp add: small_queued_def handle_tun_packet_def small_ready_state small_packet_facts small_paths)
  have "en_next_id small_ready \<noteq> - 1" by (simp add: small_ready_state)
  then show "reachable small_queued"
    unfolding small_queued_def by (intro reachable.step [OF small_reachable(3) small_env_ok]) simp_all
  show "en_sessions small_queued = [Some small_tunnel]" "en_sink small_queued = sink_new"
    "en_prefix small_queued = [10, 66, 66]" by (simp_all add: e small_ready_state)
  note enq = enqueue_inv [OF example_configured(1) q]
  have "lane_capacity Bulk (dq_lanes ?q ! 2) = 72"
    unfolding lane_capacity_def example_configured(2)
    by (simp add: profile_for_active_paths_def clip_paths_def
      clamp_def Let_def BULK_MIN_SLOTS_def BULK_SLOTS_PER_PATH_def BULK_MAX_SLOTS_def PRIORITY_MAX_SLOTS_def
      PRIORITY_SLOTS_PER_PATH_def)
  then have "ok" using enq(2) by (simp add: example_configured(4) small_packet_facts SERVER_PACKET_CAPACITY_def del: One_nat_def)
  then show "contents (en_downlink small_queued) k cls = (if k = 2 \<and> cls = Bulk then [small_packet] else [])"
    using enq(3) [of k cls] by (simp add: e example_configured(4) del: One_nat_def)
qed

lemma small_queued_dequeue:
  assumes inv: "inv e" and c: "\<And>k cls. contents (en_downlink e) k cls = (if k = 2 \<and> cls = Bulk then [small_packet] else [])"
  obtains p q where "dq_dequeue Bulk (en_downlink e) = (Some (2, p), q)" and "buffer_slice p = small_packet"
    and "\<And>k cls. contents q k cls = []"
proof -
  note l = lanes_okD(1) [OF inv_lanes [OF inv]]
  have "contents (en_downlink e) 2 Bulk \<noteq> []" using c [of 2 Bulk] by simp
  with dequeue_cases [OF l, of Bulk] obtain k p q where d: "dq_dequeue Bulk (en_downlink e) = (Some (k, p), q)"
    and hd: "contents (en_downlink e) k Bulk = buffer_slice p # contents q k Bulk"
    and other: "\<And>j cl. \<not> (j = k \<and> cl = Bulk) \<Longrightarrow> contents q j cl = contents (en_downlink e) j cl" by metis
  have k: "k = 2" and p: "buffer_slice p = small_packet" "contents q 2 Bulk = []"
    using hd c [of k Bulk] by (auto split: if_splits)
  have "contents q j cl = []" for j cl
    using other [of j cl] c [of j cl] p(2) k by (cases "j = 2 \<and> cl = Bulk") auto
  then show ?thesis using that d k p(1) by blast
qed

lemma small_drain: "fst (engine_step small_env TunBatchEnd small_queued) = [Down 1 small_packet]"
proof -
  let ?e = "\<lambda>q. small_queued\<lparr>en_downlink := q\<rparr>"
  note c = small_queued_state(5)
  have slot: "has_udp_tx_slot sink_new" by (simp add: has_udp_tx_slot_def sink_new_def tx_new_def UDP_TX_SLOTS_def)
  obtain q1 where q1: "drain_class small_env Latency 128 small_queued = (False, 128, [], ?e q1)"
    "inv (?e q1)" "contents q1 = contents (en_downlink small_queued)"
    using drain_idle [OF reachable_inv [OF small_queued_state(1)], of Latency small_env 127] c slot
    by (auto simp: small_queued_state)
  obtain q2 where q2: "drain_class small_env Priority 128 (?e q1) = (False, 128, [], ?e q2)"
    "inv (?e q2)" "contents q2 = contents q1"
    using drain_idle [OF q1(2), of Priority small_env 127] c slot by (auto simp: small_queued_state q1(3))
  obtain p q3 where d: "dq_dequeue Bulk q2 = (Some (2, p), q3)" "buffer_slice p = small_packet"
    "\<And>k cls. contents q3 k cls = []"
    using small_queued_dequeue [OF q2(2)] c by (auto simp: q2(3) q1(3))
  obtain result e3 where s: "send_down_key small_env 2 (buffer_slice p) Bulk ((?e q2)\<lparr>en_downlink := q3\<rparr>) = (result, e3)"
    by (rule prod.exhaust)
  have dq: "dq_dequeue Bulk (en_downlink (?e q2)) = (Some (2, p), q3)" using d(1) by simp
  note st = dequeue_step [OF q2(2) dq] and step = drain_step [OF q2(2) dq s]
  note spec = send_down_key_spec [OF st(1) _ s]
  have one: "u = small_tunnel" if "slab_get (en_sessions small_queued) i = Some u" for i u
    using that by (auto simp: small_queued_state slab_get_def get_at_def split: if_splits)
  have "fst (send_plain_mode small_env Bulk small_packet u sink_new)"
    if "slab_get (en_sessions small_queued) i = Some u" for i u
    using one [OF that] small_send by auto
  then have "result \<noteq> Backpressured"
    by (intro spec(7)) (use st(3) in \<open>simp_all add: small_queued_state(3) d(2)\<close>)
  then obtain sid where sid: "result = Sent sid" using step(1) by (cases result) auto
  obtain i u where u: "slab_get (en_sessions small_queued) i = Some u" "hs_id u = sid"
    using spec(6) [OF _ sid] st(3) by (auto simp: tunnel_of_def)
  have "sid = 1" using u(2) one [OF u(1)] by (simp add: small_tunnel_fields)
  let ?e4 = "e3\<lparr>en_downlink := dq_recycle 2 Bulk p (en_downlink e3)\<rparr>"
  have c4: "carried (?e q2) [(1, small_packet)] ?e4" using step(3) [OF sid] \<open>sid = 1\<close> d(2) by simp
  then have "contents (en_downlink (?e q2)) k Bulk = sent_on (en_prefix (?e q2)) k Bulk [(1, small_packet)]
      @ contents (en_downlink ?e4) k Bulk" for k unfolding carried_def by blast
  then have "contents (en_downlink ?e4) k Bulk = []" for k
    using c [of k Bulk] q1(3) q2(3)
    by (cases "k = 2") (simp_all add: small_queued_state(4) sent_on_def small_packet_facts)
  moreover have "inv ?e4" using c4 by (simp add: carried_def)
  ultimately obtain q4 where "drain_class small_env Bulk (Suc 126) ?e4 =
      (\<not> has_udp_tx_slot (en_sink ?e4), Suc 126, [], ?e4\<lparr>en_downlink := q4\<rparr>)"
    using drain_idle [of ?e4 Bulk small_env 126] by blast
  then have rest: "fst (snd (snd (drain_class small_env Bulk 127 ?e4))) = []" by simp
  have "fst (snd (snd (drain_class small_env Bulk 128 (?e q2)))) = [(1, small_packet)]"
    using drain_class.simps(2) [of small_env Bulk 127 "?e q2"] rest slot dq s sid \<open>sid = 1\<close> d(2)
    by (simp add: small_queued_state case_prod_beta)
  then show ?thesis
    using q1(1) q2(1)
    by (simp add: drain_downlink_def DOWNLINK_DRAIN_PACKET_LIMIT_def case_prod_beta)
qed

theorem packets_go_down_to_their_client_witness:
  "fst (engine_step small_env TunBatchEnd small_queued) = [Down 1 small_packet]
   \<and> (\<exists>i s ip. slab_get (en_sessions small_queued) i = Some s \<and> hs_id s = 1
        \<and> hs_tunnel_ip s = Some ip \<and> extract_dst_ipv4 small_packet = Some ip)"
proof -
  have "Down 1 small_packet \<in> set (fst (engine_step small_env TunBatchEnd small_queued))"
    unfolding small_drain by simp
  then have "\<exists>i s ip. slab_get (en_sessions small_queued) i = Some s \<and> hs_id s = 1
      \<and> hs_tunnel_ip s = Some ip \<and> extract_dst_ipv4 small_packet = Some ip"
    using packets_go_down_to_their_client [OF small_queued_state(1) prod.collapse [symmetric], of small_env 2 Bulk]
    by blast
  then show ?thesis using small_drain by blast
qed

section \<open>The tables\<close>

text \<open>C10: The tables of the server fit together in every reachable state: no handler has indexed the
  session table at an empty key; the map by number and the map by address hold the slot of
  every live session under its key and nothing else; every live session holds a password that is
  still among the credentials; every route of a group leads to a live session that holds the
  registration of the route and a tunnel address of the group; and the lane of every client in the
  downlink queue is as wide as its group of routes.\<close>

theorem engine_tables_fit_together:
  assumes "reachable e"
  shows "\<not> en_panicked e
    \<and> (map_of (en_by_id e) sid = Some i \<longleftrightarrow> (\<exists>s. slab_get (en_sessions e) i = Some s \<and> hs_id s = sid))
    \<and> (map_of (en_by_peer e) (p, l) = Some i \<longleftrightarrow>
         (\<exists>s. slab_get (en_sessions e) i = Some s \<and> hs_peer s = p \<and> hs_local_ip s = l))
    \<and> (slab_get (en_sessions e) i = Some s \<longrightarrow> hs_password s \<in> fst ` set (en_credentials e))
    \<and> (\<forall>ep \<in> set (endpoints_at k (en_routes e)). endpoint_live (en_prefix e) (en_sessions e) k ep)
    \<and> (k < 256 \<longrightarrow> la_active_paths (dq_lanes (en_downlink e) ! k) = clip_paths (length (endpoints_at k (en_routes e))))"
proof -
  note inv = reachable_inv [OF assms]
  have idx: "index_ok hs_id (en_sessions e) (en_by_id e)" "index_ok session_key (en_sessions e) (en_by_peer e)"
    and ro: "routes_ok (en_prefix e) (en_sessions e) (en_routes e)" and np: "\<not> en_panicked e"
    using inv by (simp_all add: inv_parts)
  show ?thesis
  proof (intro conjI ballI impI)
    show "\<not> en_panicked e" by (rule np)
    show "map_of (en_by_id e) sid = Some i \<longleftrightarrow> (\<exists>s. slab_get (en_sessions e) i = Some s \<and> hs_id s = sid)"
      by (rule by_id_index.index_iff [OF idx(1)])
    show "map_of (en_by_peer e) (p, l) = Some i \<longleftrightarrow>
        (\<exists>s. slab_get (en_sessions e) i = Some s \<and> hs_peer s = p \<and> hs_local_ip s = l)"
      unfolding by_peer_index.index_iff [OF idx(2)] by (simp add: session_key_def)
    show "hs_password s \<in> fst ` set (en_credentials e)" if "slab_get (en_sessions e) i = Some s"
      using inv_session_ok [OF inv that] by (simp add: session_ok_def)
    show "endpoint_live (en_prefix e) (en_sessions e) k ep" if "ep \<in> set (endpoints_at k (en_routes e))" for ep
      by (rule routes_okD [OF ro that])
    show "la_active_paths (dq_lanes (en_downlink e) ! k) = clip_paths (length (endpoints_at k (en_routes e)))"
      if "k < 256"
      using lanes_okD(3) [OF inv_lanes [OF inv] that] by (simp add: active_path_count_endpoints)
  qed
qed

theorem engine_tables_fit_together_witness:
  "slab_get (en_sessions small_ready) 0 = Some small_tunnel \<and> \<not> en_panicked small_ready
   \<and> map_of (en_by_id small_ready) 1 = Some 0 \<and> map_of (en_by_peer small_ready) (small_peer, None) = Some 0
   \<and> chars ''pw'' \<in> fst ` set (en_credentials small_ready)
   \<and> la_active_paths (dq_lanes (en_downlink small_ready) ! 2) = clip_paths 1"
  using engine_tables_fit_together [OF small_reachable(3), of 1 0 small_peer None small_tunnel 2]
    small_ready_found(1) small_paths
  by (simp add: small_tunnel_fields small_ready_state(6) active_path_count_endpoints)

section \<open>Strangers\<close>

lemma find_credential_none:
  "(\<And>password key. (password, key) \<in> set cs \<Longrightarrow> \<exists>x. unwrap_legacy_in_place key None wire = Inl x) \<Longrightarrow>
    find_credential wire cs = None"
proof (induction cs)
  case (Cons c rest)
  obtain password key where c: "c = (password, key)" by (rule prod.exhaust)
  obtain x where "unwrap_legacy_in_place key None wire = Inl x" using Cons.prems [of password key] c by auto
  moreover have "find_credential wire rest = None" by (rule Cons.IH) (use Cons.prems in auto)
  ultimately show ?case by (simp add: c)
qed simp

text \<open>C17: A datagram that no key opens changes no session. When neither a session of the sending address nor
  any credential opens a datagram, it brings nothing to the network device and leaves the
  sessions, their maps, the routes, the downlink queue, the device epochs and the events for the
  control tasks as they were.\<close>

theorem unopened_datagrams_change_no_session:
  assumes "reachable e"
    and "\<And>i s. slab_get (en_sessions e) i = Some s \<Longrightarrow> hs_peer s = p \<Longrightarrow>
      \<exists>x. unwrap_legacy_in_place (hs_crypto s) (Some (hs_is_srtp s)) wire = Inl x"
    and "\<And>password key. (password, key) \<in> set (en_credentials e) \<Longrightarrow>
      \<exists>x. unwrap_legacy_in_place key None wire = Inl x"
    and "engine_step env (Udp p local_ip wire) e = (xs, e')"
  shows "xs = [] \<and> en_sessions e' = en_sessions e \<and> en_by_peer e' = en_by_peer e \<and> en_by_id e' = en_by_id e
    \<and> en_routes e' = en_routes e \<and> en_downlink e' = en_downlink e \<and> en_epochs e' = en_epochs e
    \<and> en_control e' = en_control e"
proof -
  have idx: "index_ok session_key (en_sessions e) (en_by_peer e)"
    using reachable_inv [OF assms(1)] by (simp add: inv_parts)
  have known: "handle_existing env i local_ip wire e = ([], e)" if m: "map_of (en_by_peer e) (p, l) = Some i" for i l
  proof -
    obtain s where s: "slab_get (en_sessions e) i = Some s" "session_key s = (p, l)"
      by (rule by_peer_index.index_found [OF idx m])
    then obtain x where "unwrap_legacy_in_place (hs_crypto s) (Some (hs_is_srtp s)) wire = Inl x"
      using assms(2) by (auto simp: session_key_def)
    then show ?thesis using s(1) by (simp add: handle_existing_def)
  qed
  let ?e = "handle_unknown_legacy env p local_ip wire e"
  have "find_credential wire (en_credentials e) = None" by (rule find_credential_none) (rule assms(3))
  then have unknown: "en_sessions ?e = en_sessions e" "en_by_peer ?e = en_by_peer e" "en_by_id ?e = en_by_id e"
    "en_routes ?e = en_routes e" "en_downlink ?e = en_downlink e" "en_epochs ?e = en_epochs e"
    "en_control ?e = en_control e"
    by (simp_all add: handle_unknown_legacy_def Let_def)
  have "on_udp env p local_ip wire e = ([], e) \<or> on_udp env p local_ip wire e = ([], ?e)"
    using known by (auto simp: on_udp_def split: option.split)
  then show ?thesis using assms(4) unknown by auto
qed

theorem unopened_datagrams_change_no_session_witness:
  "fst (engine_step small_env (Udp small_peer None [1, 2, 3]) small_ready) = []
   \<and> en_sessions (snd (engine_step small_env (Udp small_peer None [1, 2, 3]) small_ready)) = [Some small_tunnel]"
proof -
  have "unwrap_legacy_in_place c x [1, 2, 3] = Inl NotRtp" for c x
    by (simp add: unwrap_legacy_in_place_def rtp_header_len_def)
  then show ?thesis
    using unopened_datagrams_change_no_session [OF small_reachable(3) _ _ prod.collapse [symmetric],
      of small_peer "[1, 2, 3]" small_env None] by (simp add: small_ready_state(1) del: engine_step.simps)
qed

section \<open>Epochs\<close>

lemma remove_sessions_keeps:
  assumes s: "slab_get (en_sessions e) j = Some s" and "\<not> stale s"
  shows "\<exists>t. slab_get (en_sessions (remove_sessions stale reason e)) j = Some t \<and> publicly s t"
proof -
  let ?L = "rev (map fst (filter (\<lambda>(_, s). stale s) (slab_entries (en_sessions e))))"
  have "j \<notin> set ?L" using assms by auto
  then have "rel_option publicly (Some s) (slab_get (en_sessions (remove_sessions stale reason e)) j)"
    using fold_remove(2) [of "\<lambda>i. remove_slot_with_reason i reason" "\<lambda>_ _. reason" j ?L e] s
    by (simp add: remove_sessions_def)
  then show ?thesis by (auto simp: option_rel_Some1)
qed

text \<open>C22: A new authoritative epoch retires exactly the sessions it makes obsolete: after the command, no live
  session of the device belongs to an earlier generation or to the same generation with another
  salt; every other session is still in its slot with all its state but the part other tasks
  write; and the epoch of the device is the new one.\<close>

theorem authoritative_epoch_retires_old_sessions:
  assumes "engine_step env (Command (SetAuthoritativeEpoch dev gen salt)) e = (xs, e')"
  shows "(slab_get (en_sessions e') i = Some t \<longrightarrow>
      \<not> session_is_retired_by_epoch (hs_device_id t) (hs_generation_id t) (hs_session_salt t) dev gen salt)
    \<and> (slab_get (en_sessions e) i = Some s \<longrightarrow>
      \<not> session_is_retired_by_epoch (hs_device_id s) (hs_generation_id s) (hs_session_salt s) dev gen salt \<longrightarrow>
      (\<exists>p. slab_get (en_sessions e') i = Some (s\<lparr>hs_public := p\<rparr>)))
    \<and> map_of (en_epochs e') dev = Some \<lparr>epv_generation_id = gen, epv_session_salt = salt,
        epv_last_seen_ms = en_monotonic_ms e\<rparr>"
proof -
  let ?stale = "\<lambda>s. session_is_retired_by_epoch (hs_device_id s) (hs_generation_id s) (hs_session_salt s) dev gen salt"
  let ?r = "remove_sessions ?stale ''authoritative-epoch-replaced'' e"
  have e': "e' = ?r\<lparr>en_epochs := AList.update dev \<lparr>epv_generation_id = gen, epv_session_salt = salt,
      epv_last_seen_ms = en_monotonic_ms e\<rparr> (en_epochs ?r)\<rparr>"
    using assms by (auto simp: Let_def)
  have "\<not> ?stale t" if t: "slab_get (en_sessions e') i = Some t"
  proof -
    have "slab_get (en_sessions ?r) i = Some t" using t by (simp add: e')
    then obtain u where "publicly u t" "\<not> ?stale u" by (rule remove_sessions_survivor)
    then show ?thesis by (auto simp: publicly_def)
  qed
  moreover have "\<exists>p. slab_get (en_sessions e') i = Some (s\<lparr>hs_public := p\<rparr>)"
    if "slab_get (en_sessions e) i = Some s" "\<not> ?stale s"
    using remove_sessions_keeps [where stale = ?stale and reason = "''authoritative-epoch-replaced''", OF that]
    by (auto simp: e' publicly_def)
  moreover have "map_of (en_epochs e') dev = Some \<lparr>epv_generation_id = gen, epv_session_salt = salt,
      epv_last_seen_ms = en_monotonic_ms e\<rparr>" by (simp add: e' update_conv')
  ultimately show ?thesis by blast
qed

theorem authoritative_epoch_retires_old_sessions_witness:
  "session_is_retired_by_epoch (hs_device_id small_tunnel) (hs_generation_id small_tunnel)
     (hs_session_salt small_tunnel) (chars ''d'') 1 (chars ''y'')
   \<and> slab_get (en_sessions (snd (engine_step small_env (Command (SetAuthoritativeEpoch (chars ''d'') 1 (chars ''y'')))
       small_ready))) 0 \<noteq> Some small_tunnel
   \<and> (\<exists>p. slab_get (en_sessions (snd (engine_step small_env (Command (SetAuthoritativeEpoch (chars ''z'') 1 (chars ''y'')))
       small_ready))) 0 = Some (small_tunnel\<lparr>hs_public := p\<rparr>))"
proof -
  have a: "session_is_retired_by_epoch (chars ''d'') 0 (chars ''x'') (chars ''d'') 1 (chars ''y'')"
    and b: "\<not> session_is_retired_by_epoch (chars ''d'') 0 (chars ''x'') (chars ''z'') 1 (chars ''y'')"
    by (simp_all add: session_is_retired_by_epoch_def chars_def)
  note retire = authoritative_epoch_retires_old_sessions [OF prod.collapse [symmetric], where env = small_env
    and e = small_ready and i = 0 and t = small_tunnel and s = small_tunnel]
  show ?thesis
    using retire [of "chars ''d''" 1 "chars ''y''"] retire [of "chars ''z''" 1 "chars ''y''"] a b small_ready_found(1)
    by (simp add: small_tunnel_fields del: engine_step.simps)
qed

section \<open>Reserve paths\<close>

lemma max_by_id_some: "xs \<noteq> [] \<Longrightarrow> max_by_id xs \<noteq> None"
proof -
  have keep: "b \<noteq> None \<Longrightarrow> foldl (\<lambda>best x. case best of None \<Rightarrow> Some x
      | Some y \<Rightarrow> if hs_id (snd y) \<le> hs_id (snd x) then Some x else Some y) b xs \<noteq> None" for b xs
    by (induction xs arbitrary: b) (auto split: option.split)
  assume "xs \<noteq> []"
  then obtain a ys where "xs = a # ys" by (cases xs) auto
  then show ?thesis using keep [of "Some a" ys] unfolding max_by_id_def by simp
qed

lemma fall_back_registers:
  assumes c: "slab_get (en_sessions e) j = Some c" "takes_over ip session c"
    and w: "unat (pub_worker_id (hs_public session)) < 2 ^ 16"
    and k: "route_index (en_prefix e) ip = Some k" and t: "table_ok (en_routes e)"
  shows "endpoints_at k (en_routes (fall_back ip session e)) \<noteq> []"
proof -
  let ?xs = "filter (\<lambda>(_, candidate). takes_over ip session candidate) (slab_entries (en_sessions e))"
  have "(j, c) \<in> set ?xs" using c by simp
  then have "?xs \<noteq> []" by (metis empty_iff empty_set)
  then obtain m d where md: "max_by_id ?xs = Some (m, d)" using max_by_id_some [of ?xs] by auto
  obtain r where "en_routes (fall_back ip session e) = snd (table_register (en_prefix e) ip (hs_id d) r
      (ucast (pub_worker_id (hs_public session))) m (en_routes e))"
    using md w by (simp add: fall_back_def put_session_def)
  moreover have "rg_endpoints (group_register x g) \<noteq> []" for x g
    using group_register_mem [of x g] by (metis empty_iff empty_set)
  ultimately show ?thesis
    using k endpoints_at_update [OF t route_index_bound [OF k], of k] by (simp add: table_register_def)
qed

lemma unregister_removed:
  assumes t: "table_ok t" and k: "route_index net ip = Some k"
    and ep: "ep \<in> set (endpoints_at k t)" "ep_registration_id ep = r"
  shows "fst (table_unregister net ip r t)"
proof -
  obtain g where g: "t ! k = Some g" "ep \<in> set (rg_endpoints g)"
    using ep(1) endpoints_at_index [OF t k] by (auto split: option.splits)
  have "length (filter (\<lambda>e. ep_registration_id e \<noteq> r) (rg_endpoints g)) < length (rg_endpoints g)"
    by (rule length_filter_less [OF g(2)]) (simp add: ep(2))
  then show ?thesis using k g(1) by (simp add: table_unregister_def group_unregister_def Let_def)
qed

lemma sync_routes [simp]: "en_routes (sync_downlink_profile ip e) = en_routes e"
  by (simp add: sync_downlink_profile_def split: option.split)

lemma unroute_falls_back:
  assumes t: "table_ok (en_routes e)" and both: "hs_tunnel_ip s = Some ip" "hs_registration_id s = Some r"
    and k: "route_index (en_prefix e) ip = Some k"
    and ep: "ep \<in> set (endpoints_at k (en_routes e))" "ep_registration_id ep = r"
    and c: "slab_get (en_sessions e) j = Some c" "takes_over ip s c"
    and w: "unat (pub_worker_id (hs_public s)) < 2 ^ 16"
  shows "endpoints_at k (en_routes (unroute s e)) \<noteq> []"
proof -
  obtain routes where u: "table_unregister (en_prefix e) ip r (en_routes e) = (True, routes)"
    using unregister_removed [OF t k ep] by (cases "table_unregister (en_prefix e) ip r (en_routes e)") auto
  have "table_ok routes" using table_unregister_ok [OF t, of "en_prefix e" ip r] u by simp
  then have "endpoints_at k (en_routes (fall_back ip s (e\<lparr>en_routes := routes\<rparr>))) \<noteq> []"
    using c w k by (intro fall_back_registers [of _ j c]) simp_all
  then show ?thesis using both u by (simp add: unroute_def)
qed

text \<open>C24: A client stays reachable while another session of the same worker can take over. When a session whose
  route is in use is dropped, and another live session has the same tunnel address, device epoch
  and worker number and a registration of its own, the group of the client has a route again, and
  every route of it leads to a live session with the address of the client.\<close>

theorem dropped_session_is_replaced:
  assumes "reachable e" and "slab_get (en_sessions e) i = Some s" and "slab_get (en_sessions e) j = Some c"
    and "i \<noteq> j" and "hs_tunnel_ip s = Some ip" and "hs_registration_id s = Some r" and "takes_over ip s c"
    and "unat (pub_worker_id (hs_public s)) < 2 ^ 16" and "route_index (en_prefix e) ip = Some k"
    and "ep \<in> set (endpoints_at k (en_routes e))" and "ep_registration_id ep = r"
    and "engine_step env (Command (DropSession (hs_id s))) e = (xs, e')"
  shows "endpoints_at k (en_routes e') \<noteq> []
    \<and> (\<forall>ep \<in> set (endpoints_at k (en_routes e')). \<exists>t. slab_get (en_sessions e') (ep_slot ep) = Some t
         \<and> hs_id t = ep_session_id ep \<and> hs_tunnel_ip t = Some ip)"
proof -
  note inv = reachable_inv [OF assms(1)]
  have idx: "index_ok hs_id (en_sessions e) (en_by_id e)"
    and ro: "routes_ok (en_prefix e) (en_sessions e) (en_routes e)" using inv by (simp_all add: inv_parts)
  have e': "e' = remove_slot_with_reason i ''requested-session-drop'' e"
    using assms(12) by_id_index.index_lookup [OF idx assms(2)] by simp
  have inv': "inv e'" unfolding e' by (rule remove_slot_inv [OF inv])
  have ne: "endpoints_at k (en_routes e') \<noteq> []"
  proof (cases rule: remove_slot_cases [of e i "''requested-session-drop''"])
    case none
    then show ?thesis using assms(2) by simp
  next
    case (some taken u globals)
    have u: "hs_tunnel_ip u = Some ip" "hs_registration_id u = Some r"
      using some(1,2) assms(2,5,6) by (simp_all add: same_face_def)
    have "hs_device_id u = hs_device_id s" "hs_generation_id u = hs_generation_id s"
      "hs_session_salt u = hs_session_salt s" "pub_worker_id (hs_public u) = pub_worker_id (hs_public s)"
      using some(1,4) assms(2) by (auto simp: publish_counters_def Let_def)
    then have to: "takes_over ip u c" "unat (pub_worker_id (hs_public u)) < 2 ^ 16"
      using assms(7,8) by (simp_all add: takes_over_def)
    have "endpoints_at k (en_routes (unroute u (detached i u globals e))) \<noteq> []"
      by (rule unroute_falls_back [OF _ u _ _ assms(11) _ to])
        (use routes_ok_table [OF ro] assms(3,4,9,10) in \<open>auto simp: detached_def mark_dirty_def\<close>)
    then show ?thesis by (simp add: e' some(3) tell_eq)
  qed
  have "\<exists>t. slab_get (en_sessions e') (ep_slot x) = Some t \<and> hs_id t = ep_session_id x \<and> hs_tunnel_ip t = Some ip"
    if x: "x \<in> set (endpoints_at k (en_routes e'))" for x
  proof -
    have "routes_ok (en_prefix e') (en_sessions e') (en_routes e')" using inv' by (simp add: inv_parts)
    from routes_okD [OF this x] obtain t a where t: "slab_get (en_sessions e') (ep_slot x) = Some t"
      "hs_id t = ep_session_id x" "hs_tunnel_ip t = Some a" "route_index (en_prefix e') a = Some k"
      unfolding endpoint_live_def by blast
    have "length a = 4" using inv_session_ok [OF inv' t(1)] t(3) by (simp add: session_ok_def)
    moreover have "length ip = 4" using inv_session_ok [OF inv assms(2)] assms(5) by (simp add: session_ok_def)
    moreover have "en_prefix e' = en_prefix e" by (simp add: e')
    ultimately have "a = ip" using route_index_inj [of "en_prefix e" a k ip] t(4) assms(9) by simp
    then show ?thesis using t by blast
  qed
  then show ?thesis using ne by blast
qed

text \<open>A second session of the same client and worker joins the small server and takes the route.\<close>

definition twin_peer :: peer where
  "twin_peer = (V4 10 0 0 9, 4001)"

definition twin_joined :: engine where
  "twin_joined = snd (engine_step small_env (Udp twin_peer None (small_wire 0 small_hello)) small_ready)"

definition twin_session :: hot_session where
  "twin_session = (hot_session_legacy small_env 2 twin_peer None (chars ''pw'') small_crypto 111 False
     (chars ''d'') 0 (chars ''x'') Off 1 0)\<lparr>hs_replay := snd (replay_accept 0 replay_new)\<rparr>"

definition worker_one :: "hot_session \<Rightarrow> public_session" where
  "worker_one s = (hs_public s)\<lparr>pub_worker_id := 1\<rparr>"

definition twin_numbered :: engine where
  "twin_numbered = snd (engine_step small_env (SharedWrite 2 (worker_one twin_session))
     (snd (engine_step small_env (SharedWrite 1 (worker_one small_tunnel)) twin_joined)))"

definition twin_ready :: engine where
  "twin_ready = snd (engine_step small_env (Command (ActivateTunnel 2 small_address 8 1 1)) twin_numbered)"

lemma small_ready_more:
  "en_credentials small_ready = [(chars ''pw'', small_crypto)]" "en_setup_budget small_ready = 2047"
  "en_fec_profile small_ready = Off" "en_monotonic_ms small_ready = 1" "en_wall_now small_ready = 0"
proof -
  have "small_hello \<noteq> []" using small_hello_length by auto
  note un = small_unwrap [OF this, of None 0]
  have len: "length (small_wire 0 small_hello) = 50" by (simp add: small_wire_def small_hello_length)
  have joined: "en_credentials small_joined = [(chars ''pw'', small_crypto)]" "en_setup_budget small_joined = 2047"
    "en_fec_profile small_joined = Off" "en_monotonic_ms small_joined = 1" "en_wall_now small_joined = 0"
    by (simp_all add: small_joined_def small_start_def engine_new_def on_udp_def handle_unknown_legacy_def
      create_legacy_session_def tell_payload_def tell_eq mark_dirty_def Let_def un small_hello_parsed len
      slab_entries_def MAX_ACTIVE_SESSIONS_def SERVER_PACKET_CAPACITY_def SETUP_BUDGET_PER_TICK_def
      split: option.split)
  note found = small_joined_state slab_get_def get_at_def
  have none: "hs_tunnel_ip small_session = None" by (simp add: small_session_def hot_session_legacy_def)
  show "en_credentials small_ready = [(chars ''pw'', small_crypto)]" "en_setup_budget small_ready = 2047"
    "en_fec_profile small_ready = Off" "en_monotonic_ms small_ready = 1" "en_wall_now small_ready = 0"
    by (simp_all add: small_ready_def activate_tunnel_def found none put_session_def mark_dirty_def Let_def
      sync_downlink_profile_def tunnel_key_def small_index joined table_register_def)
qed

lemma twin_joined_state:
  "en_sessions twin_joined = [Some small_tunnel, Some twin_session]" "en_by_id twin_joined = [(1, 0), (2, 1)]"
  "en_routes twin_joined = small_routes" "en_prefix twin_joined = [10, 66, 66]" "en_next_id twin_joined = 3"
proof -
  have "small_hello \<noteq> []" using small_hello_length by auto
  note un = small_unwrap [OF this, of None 0]
  have len: "length (small_wire 0 small_hello) = 50" by (simp add: small_wire_def small_hello_length)
  have peers: "twin_peer \<noteq> small_peer" by (simp add: twin_peer_def small_peer_def)
  note defs = twin_joined_def on_udp_def handle_unknown_legacy_def create_legacy_session_def tell_payload_def
    tell_eq mark_dirty_def twin_session_def Let_def small_ready_state small_ready_more un small_hello_parsed len
  show "en_sessions twin_joined = [Some small_tunnel, Some twin_session]" "en_by_id twin_joined = [(1, 0), (2, 1)]"
    "en_routes twin_joined = small_routes" "en_prefix twin_joined = [10, 66, 66]" "en_next_id twin_joined = 3"
    using peers
    by (simp_all add: defs slab_entries_def MAX_ACTIVE_SESSIONS_def SERVER_PACKET_CAPACITY_def
      hot_session_legacy_def small_env_def slab_put_def slab_get_def get_at_def)
qed

lemma twin_numbered_state:
  "en_sessions twin_numbered = [Some (small_tunnel\<lparr>hs_public := worker_one small_tunnel\<rparr>),
     Some (twin_session\<lparr>hs_public := worker_one twin_session\<rparr>)]"
  "en_by_id twin_numbered = [(1, 0), (2, 1)]" "en_routes twin_numbered = small_routes"
  "en_prefix twin_numbered = [10, 66, 66]" "en_next_id twin_numbered = 3"
  by (simp_all add: twin_numbered_def shared_write_def with_session_def put_session_def twin_joined_state
    slab_get_def get_at_def slab_put_def)

definition twin_tunnel :: hot_session where
  "twin_tunnel = twin_session\<lparr>hs_tunnel_ip := Some small_address, hs_registration_id := Some 8,
     hs_desired_stream_count := 1, hs_pending_tunnel := False,
     hs_public := (worker_one twin_session)\<lparr>pub_tunnel_ip := Some small_address,
       pub_desired_stream_count := 1, pub_has_tunnel := True\<rparr>\<rparr>"

lemma twin_ready_state:
  "en_sessions twin_ready = [Some (small_tunnel\<lparr>hs_public := worker_one small_tunnel\<rparr>), Some twin_tunnel]"
  "en_routes twin_ready = snd (table_register [10, 66, 66] small_address 2 8 1 1 small_routes)"
  "en_prefix twin_ready = [10, 66, 66]"
proof -
  have none: "hs_tunnel_ip twin_session = None" by (simp add: twin_session_def hot_session_legacy_def)
  obtain t where reg: "table_register [10, 66, 66] small_address 2 8 1 1 small_routes = (True, t)"
    using small_index by (simp add: table_register_def)
  show "en_sessions twin_ready = [Some (small_tunnel\<lparr>hs_public := worker_one small_tunnel\<rparr>), Some twin_tunnel]"
    "en_routes twin_ready = snd (table_register [10, 66, 66] small_address 2 8 1 1 small_routes)"
    "en_prefix twin_ready = [10, 66, 66]"
    by (simp_all add: twin_ready_def activate_tunnel_def twin_numbered_state none reg [unfolded One_nat_def] put_session_def
      mark_dirty_def Let_def slab_get_def get_at_def slab_put_def twin_tunnel_def)
qed

lemma twin_reachable: "reachable twin_ready"
proof -
  have "reachable twin_joined"
    unfolding twin_joined_def by (intro reachable.step [OF small_reachable(3) small_env_ok]) (simp_all add: small_ready_state)
  then have "reachable (snd (engine_step small_env (SharedWrite 1 (worker_one small_tunnel)) twin_joined))"
    by (intro reachable.step [OF _ small_env_ok]) (simp_all add: twin_joined_state)
  from reachable.step [OF this small_env_ok, of "SharedWrite 2 (worker_one twin_session)"]
  have "reachable twin_numbered"
    unfolding twin_numbered_def
    by (simp add: twin_joined_state shared_write_def with_session_def put_session_def slab_get_def get_at_def)
  then show ?thesis
    unfolding twin_ready_def
    by (intro reachable.step [OF _ small_env_ok]) (simp_all add: twin_numbered_state small_address_def)
qed

theorem dropped_session_is_replaced_witness:
  "endpoints_at 2 (en_routes (snd (engine_step small_env (Command (DropSession (hs_id twin_tunnel))) twin_ready))) \<noteq> []"
proof -
  have s: "slab_get (en_sessions twin_ready) 1 = Some twin_tunnel"
    "slab_get (en_sessions twin_ready) 0 = Some (small_tunnel\<lparr>hs_public := worker_one small_tunnel\<rparr>)"
    by (simp_all add: twin_ready_state slab_get_def get_at_def)
  have f: "hs_tunnel_ip twin_tunnel = Some small_address" "hs_registration_id twin_tunnel = Some 8"
    "unat (pub_worker_id (hs_public twin_tunnel)) < 2 ^ 16"
    by (simp_all add: twin_tunnel_def worker_one_def)
  have over: "takes_over small_address twin_tunnel (small_tunnel\<lparr>hs_public := worker_one small_tunnel\<rparr>)"
    by (simp add: takes_over_def small_tunnel_fields twin_tunnel_def twin_session_def hot_session_legacy_def worker_one_def)
  have t: "table_ok small_routes" unfolding small_routes_def by (rule table_register_ok [OF table_new_ok])
  let ?ep = "\<lparr>ep_session_id = 2, ep_registration_id = 8, ep_worker_id = 1, ep_slot = 1\<rparr>"
  have ep: "?ep \<in> set (endpoints_at 2 (en_routes twin_ready))"
    using small_index endpoints_at_update [OF t, of 2 2] group_register_mem
    by (simp add: twin_ready_state table_register_def)
  have "route_index (en_prefix twin_ready) small_address = Some 2" by (simp add: twin_ready_state small_index)
  then show ?thesis
    using dropped_session_is_replaced [OF twin_reachable s _ f(1,2) over f(3) _ ep _ prod.collapse [symmetric],
      of small_env] by simp
qed

end
