(* ===== verification/Spec2Isabelle.thy ===== *)
theory Spec2Isabelle
  imports Proxy_Sequence Packet_Class Stream_Server Stream_Client Obfs_Wire Replay_Window Turn_Safety Turn_Props Turn_Refresh Downlink_Queue Packet_Sink Stream_Repair Turn_Stream Dispatcher Server_Props
begin

text \<open>
  A verification library for the tunnel of this repository: a client (\<open>src/rust-client\<close>)
  carries IP packets and proxied TCP streams through TURN relays, hidden in RTP, to a server
  (\<open>src/rust-server\<close>); \<open>src/shared\<close> is compiled into both. The theories follow the source
  files, operation by operation and in their order, and keep the names of the source where
  Isabelle allows it.

  \<^bold>\<open>The path of a packet.\<close> On the client a packet of the network device is given a class and a
  worker (\<open>dispatcher.rs\<close>, \<open>striped_scheduler.rs\<close>), sealed (\<open>obfs.rs\<close>), possibly duplicated
  (\<open>selective_fec.rs\<close>) and sent as ChannelData of a TURN allocation (\<open>turn_core.rs\<close>,
  \<open>turn_stream.rs\<close>). The server unseals it, rejects replays (\<open>protocol.rs\<close>) and writes it to its
  network device through the transmit queues (\<open>tokio_io.rs\<close>). On the way back the route table
  (\<open>tun_device.rs\<close>) selects a session of the client that owns the destination address, the packet
  waits in that client's lane (\<open>downlink_queue.rs\<close>), is sealed and sent. Frames of proxied TCP
  streams (\<open>stream_proxy.rs\<close> on both sides, \<open>proxy_sequence.rs\<close>) travel in the same packets.

  \<^bold>\<open>Conventions.\<close> Sized integers are words: the release profiles set \<open>overflow-checks = false\<close>, so
  plain arithmetic wraps. A \<open>usize\<close> that only counts what is in memory is a natural number. Text is a
  list of Unicode scalar values or of bytes, hash maps are association lists. Results of system
  calls, clock readings, random draws and the answers of external crates are arguments; the
  cryptographic crates are records of functions whose documented laws are hypotheses, and each
  theorem with such a hypothesis has a witness over a concrete instance. An \<open>await\<close> is a list of what
  the other tasks do meanwhile.

  \<^bold>\<open>Theories.\<close>
  \<^item> \<open>Prelude\<close>: machine integers, big-endian strings, checked and saturating arithmetic, slices,
    association lists, the locales of byte codecs.
  \<^item> \<open>Proxy_Sequence\<close> (\<open>shared/proxy_sequence.rs\<close>): the strict cursor and the reordering receiver;
    whatever order and duplication the chunks arrive in, what is delivered is a prefix of the stream,
    up to the first gap.
  \<^item> \<open>Packet_Class\<close> (\<open>shared/selective_fec.rs\<close>, \<open>shared/striped_scheduler.rs\<close>): header walkers,
    duplication policy and budget, packet classes, striping; the budget bounds the duplicates of any
    interval, striping is fair.
  \<^item> \<open>Stream_Frames\<close>, \<open>Stream_Server\<close>, \<open>Stream_Client\<close> (both \<open>stream_proxy.rs\<close>): frame codec, SOCKS5
    handshake, targets and destination policy; the server's stream table and per-stream task; the
    client's loop with its change of carrier. The bytes relayed are a prefix of the bytes sent in both
    directions, a resend replays exactly the missing suffix, sessions do not see each other's streams.
  \<^item> \<open>Packet_Pool\<close> (both \<open>packet.rs\<close>): pools as an interface (locale \<open>buffer_pool\<close>) interpreted on the
    client's and the server's pool; buffers never leave their storage, no storage is lost or doubled.
  \<^item> \<open>Obfs_Wire\<close> (\<open>rust-client/obfs.rs\<close>, \<open>rust-server/protocol.rs\<close>): the RTP disguise in both
    directions: round trips, authenticity of accepted packets, nonces that do not repeat.
  \<^item> \<open>Replay_Window\<close> (\<open>ReplayState\<close> of \<open>rust-server/protocol.rs\<close>): the bitmap refines a set of seen
    numbers.
  \<^item> \<open>Stun_Codec\<close>, \<open>Turn_Core\<close>, \<open>Turn_Steps\<close>, \<open>Turn_Safety\<close>, \<open>Turn_Props\<close>, \<open>Turn_Requests\<close>,
    \<open>Turn_Refresh\<close> (\<open>stun_codec.rs\<close>, \<open>turn_core.rs\<close>): the TURN state machine; its invariant, that only
    authenticated answers grant anything, that an unanswered allocation ends, that a ready one is
    always on its way to be refreshed.
  \<^item> \<open>Turn_Stream\<close> (\<open>turn_stream.rs\<close>): TURN over TCP: frames survive any cut of the stream.
  \<^item> \<open>Packet_Queue\<close>, \<open>Dispatcher\<close> (\<open>rust-client/dispatcher.rs\<close>): the channel with epochs, as functions
    and as interleaved atomic steps, and the dispatcher over a store of such channels.
  \<^item> \<open>Route_Table\<close> (\<open>rust-server/tun_device.rs\<close>), \<open>Downlink_Queue\<close> (\<open>downlink_queue.rs\<close>), \<open>Packet_Sink\<close>
    (\<open>tokio_io.rs\<close>): routes, the egress queue as a refinement of plain queues per lane and class with
    its weighted round robin, the transmit slots.
  \<^item> \<open>Stream_Repair\<close> (\<open>rust-server/protocol.rs\<close>, \<open>rust-client/protocol.rs\<close>, \<open>rust-client/repair.rs\<close>): the
    repair of missing workers from the server's inventory to the client's restarts.
  \<^item> \<open>Server_Control\<close>, \<open>Server_Session\<close>, \<open>Server_Engine\<close> (\<open>rust-server/protocol.rs\<close>): the recognition of
    control payloads and device epochs, with the request the client writes; one session and the
    slab of sessions with its two maps (locale \<open>slab_index\<close>, interpreted on both keys); the engine
    with every handler: datagrams, packets of the network device, commands, the clock. It composes
    the wire format, the replay filter, the routes, the downlink queue, the transmit slots and the
    stream repair of the theories above. \<open>engine_step\<close> is one step of the server, with what
    other tasks do between two handlers as further events; \<open>engine_env\<close> holds what a handler
    reads from outside.
  \<^item> \<open>Server_Routes\<close>, \<open>Server_Invariant\<close>, \<open>Server_Tunnels\<close>, \<open>Server_Downlink\<close>, \<open>Server_Steps\<close>: the invariant of
    the engine (exact maps, routes that lead to live sessions with the right address, lanes as wide
    as their routes, queued packets that belong to their lane) and that every handler keeps it, so
    that it holds in every \<open>reachable\<close> state.
  \<^item> \<open>Server_Props\<close>: a datagram reaches the network device at most once, packets go down only to the
    client they are addressed to and none is lost, a datagram no key opens changes no session, a
    new device epoch retires exactly the obsolete sessions, a dropped session is replaced.

  \<^bold>\<open>Bounds and loops.\<close> Loops over data are structural recursions; other loops are functions with a
  termination proof; the reordering of the workers in \<open>Dispatcher\<close>, whose source loop has no bound, is
  a partial function that is proved to return. The header walkers make eight rounds, as the source
  does. A statement that would be false after a 63- or 64-bit counter wraps says so in a hypothesis
  (epochs of a channel, packet numbers of a session, numbers of sessions).

  \<^bold>\<open>Not modelled.\<close>
  Pure input and output: opening sockets and devices, the receive loops of \<open>tokio_io.rs\<close> and
  \<open>udp_batch.rs\<close>, \<open>dataplane.rs\<close>, \<open>udp_supervisor.rs\<close>, \<open>net_setup.rs\<close>, \<open>tun.rs\<close>, \<open>dns.rs\<close>, logging,
  metrics. The asynchronous control tasks of \<open>rust-server/protocol.rs\<close>, which answer configuration
  requests from the database: the engine takes their commands and their writes into the public part of
  a session as input, in any order and with any numbers. Capacities of containers other than bounded
  queues and pools. Configuration text: TURN addresses (\<open>turn_endpoint.rs\<close>), profiles, command lines.
  Programs of external services: the HTTP conversations and image heuristics of \<open>auth.rs\<close>,
  \<open>captcha.rs\<close>, \<open>captcha_slider.rs\<close>, \<open>vk_js_calls.rs\<close>; the SQLite store behind \<open>model.rs\<close>; the web panel.
  Supervision of tasks over the asynchronous runtime (\<open>session.rs\<close>, \<open>worker.rs\<close>, \<open>turn.rs\<close>, both
  \<open>main.rs\<close>), \<open>proxy_route.rs\<close> and \<open>tproxy.rs\<close>, which configure the operating system and foreign
  processes. The Kotlin application and the router scripts are other languages.
\<close>

end
